(* ===== verification/Prelude.thy ===== *)
theory Prelude
  imports Main "HOL-Library.Word" "HOL-Library.Char_ord" "HOL-Library.List_Lexorder"
    "HOL-Library.AList"
begin

text \<open>
  Shared vocabulary of the development: the machine integers and bytes of Go, the outcome of a
  Go call (a value, an error value, or a panic), and the generic list lemmas the components share.

  A Go \<open>string\<close> is a byte sequence, which is what \<^typ>\<open>string\<close> is here: a
  \<^typ>\<open>char\<close> is one byte, and the order of \<open>HOL-Library.List_Lexorder\<close> over
  \<open>HOL-Library.Char_ord\<close> is Go's byte-wise string order.  A pointer field that may be nil is an
  \<open>option\<close>.  Integers keep their width: \<open>u32\<close> and \<open>i32\<close> are the same
  32 bits read unsigned or signed, so a Go conversion between them is the identity and only the
  place that reads the number (\<open>uint\<close>, \<open>sint\<close>, a printer, a comparison) chooses.
\<close>

type_synonym byte = "8 word"
type_synonym u32 = "32 word"
type_synonym i32 = "32 word"
type_synonym u64 = "64 word"
type_synonym i64 = "64 word"

text \<open>Instants are compared and copied only: seconds since the epoch.\<close>

type_synonym gotime = int

section \<open>Outcomes of a Go call\<close>

text \<open>
  A call that returns \<open>(v, nil)\<close> is \<open>Ok v\<close>, one that returns
  \<open>(_, err)\<close> is \<open>Err msg\<close> with \<open>msg\<close> the text of \<open>err.Error()\<close>,
  and a run-time panic (a nil dereference, a slice bound, a \<open>Must\<close> accessor on another arm)
  is \<open>Panic\<close>.
\<close>

datatype 'a res = Ok 'a | Err string | Panic

fun bindR :: "'a res \<Rightarrow> ('a \<Rightarrow> 'b res) \<Rightarrow> 'b res" where
  "bindR (Ok a) f = f a"
| "bindR (Err e) f = Err e"
| "bindR Panic f = Panic"

fun mapR :: "('a \<Rightarrow> 'b) \<Rightarrow> 'a res \<Rightarrow> 'b res" where
  "mapR f (Ok a) = Ok (f a)"
| "mapR f (Err e) = Err e"
| "mapR f Panic = Panic"

fun isPanic :: "'a res \<Rightarrow> bool" where
  "isPanic Panic = True"
| "isPanic (Ok a) = False"
| "isPanic (Err e) = False"

fun isOk :: "'a res \<Rightarrow> bool" where
  "isOk (Ok a) = True"
| "isOk (Err e) = False"
| "isOk Panic = False"

text \<open>The value of a result whose error the source ignores (\<open>if err == nil { x = &v }\<close>).\<close>

fun okOpt :: "'a res \<Rightarrow> 'a option" where
  "okOpt (Ok a) = Some a"
| "okOpt (Err e) = None"
| "okOpt Panic = None"

text \<open>A result whose error leaves a default in place (\<open>if v, err := f(); err == nil { x = v }\<close>).\<close>

fun ignoreErr :: "'a \<Rightarrow> 'a res \<Rightarrow> 'a res" where
  "ignoreErr d (Ok a) = Ok a"
| "ignoreErr d (Err e) = Ok d"
| "ignoreErr d Panic = Panic"

lemma ignoreErr_not_Err [simp]: "ignoreErr d r \<noteq> Err e"
  by (cases r) auto

lemma ignoreErr_Panic_iff [simp]: "ignoreErr d r = Panic \<longleftrightarrow> r = Panic"
  by (cases r) auto

text \<open>\<open>fmt.Errorf("prefix: %w", err)\<close> around the error of a call.\<close>

definition wrapErr :: "string \<Rightarrow> 'a res \<Rightarrow> 'a res" where
  "wrapErr prefix r = (case r of Err e \<Rightarrow> Err (prefix @ '': '' @ e) | _ \<Rightarrow> r)"

lemma wrapErr_simps [simp]:
  "wrapErr p (Ok a) = Ok a" "wrapErr p (Err e) = Err (p @ '': '' @ e)" "wrapErr p Panic = Panic"
  by (simp_all add: wrapErr_def)

lemma wrapErr_Ok_iff [simp]: "wrapErr p r = Ok a \<longleftrightarrow> r = Ok a"
  by (cases r) auto

lemma okOpt_eq_Some [simp]: "okOpt r = Some a \<longleftrightarrow> r = Ok a"
  by (cases r) auto

lemma bindR_Ok_iff: "bindR r f = Ok b \<longleftrightarrow> (\<exists>a. r = Ok a \<and> f a = Ok b)"
  by (cases r) auto

lemma mapR_Ok_iff: "mapR f r = Ok b \<longleftrightarrow> (\<exists>a. r = Ok a \<and> b = f a)"
  by (cases r) auto

lemma bindR_Err_iff: "bindR r f = Err e \<longleftrightarrow> r = Err e \<or> (\<exists>a. r = Ok a \<and> f a = Err e)"
  by (cases r) auto

lemma mapR_Err_iff: "mapR f r = Err e \<longleftrightarrow> r = Err e"
  by (cases r) auto

lemma mapR_bindR: "mapR f (bindR r g) = bindR r (\<lambda>a. mapR f (g a))"
  by (cases r) auto

lemma mapR_mapR: "mapR f (mapR g r) = mapR (\<lambda>a. f (g a)) r"
  by (cases r) auto

lemma map_Ok_inject [simp]: "map Ok xs = map Ok ys \<longleftrightarrow> xs = ys"
  by (rule inj_map_eq_map) (simp add: inj_def)

lemma isOk_iff: "isOk r \<longleftrightarrow> (\<exists>a. r = Ok a)"
  by (cases r) auto

lemma isPanic_iff: "isPanic r \<longleftrightarrow> r = Panic"
  by (cases r) auto

text \<open>All the results of a list, with a panic anywhere or the first error ending the walk.\<close>

fun seqR :: "'a res list \<Rightarrow> 'a list res" where
  "seqR [] = Ok []"
| "seqR (r # rs) = bindR r (\<lambda>a. bindR (seqR rs) (\<lambda>as. Ok (a # as)))"

lemma seqR_Ok_iff: "seqR rs = Ok as \<longleftrightarrow> rs = map Ok as"
proof (induction rs arbitrary: as)
  case Nil
  then show ?case by auto
next
  case (Cons r rs)
  show ?case by (cases as) (auto simp: bindR_Ok_iff Cons.IH)
qed

lemma seqR_Ok_length: "seqR rs = Ok as \<Longrightarrow> length as = length rs"
  by (simp add: seqR_Ok_iff)

text \<open>
  A loop that appends the rows of each element: the rows of all of them in order, or the panic or the first
  error that ends it.
\<close>

definition concatR :: "('x \<Rightarrow> 'a list res) \<Rightarrow> 'x list \<Rightarrow> 'a list res" where
  "concatR f xs = mapR concat (seqR (map f xs))"

lemma concatR_simps [simp]:
  "concatR f [] = Ok []"
  "concatR f (x # xs) = bindR (f x) (\<lambda>as. bindR (concatR f xs) (\<lambda>bs. Ok (as @ bs)))"
proof -
  show "concatR f [] = Ok []" by (simp add: concatR_def)
  show "concatR f (x # xs) = bindR (f x) (\<lambda>as. bindR (concatR f xs) (\<lambda>bs. Ok (as @ bs)))"
    by (cases "f x"; cases "seqR (map f xs)") (simp_all add: concatR_def)
qed

lemma concatR_append:
  "concatR f (xs @ ys) = bindR (concatR f xs) (\<lambda>as. bindR (concatR f ys) (\<lambda>bs. Ok (as @ bs)))"
proof (induction xs)
  case Nil
  then show ?case by (cases "concatR f ys") auto
next
  case (Cons x xs)
  then show ?case by (cases "f x"; cases "concatR f xs"; cases "concatR f ys") auto
qed

lemma concatR_cong: "(\<And>x. x \<in> set xs \<Longrightarrow> f x = g x) \<Longrightarrow> concatR f xs = concatR g xs"
  by (induction xs) auto

lemma concatR_map: "concatR f (map g xs) = concatR (\<lambda>x. f (g x)) xs"
  by (induction xs) auto

lemma concatR_Ok_iff: "concatR f xs = Ok rs \<longleftrightarrow> (\<exists>rss. map f xs = map Ok rss \<and> rs = concat rss)"
  by (simp add: concatR_def mapR_Ok_iff seqR_Ok_iff)

lemma concatR_total: "(\<And>x. x \<in> set xs \<Longrightarrow> f x = Ok (g x)) \<Longrightarrow> concatR f xs = Ok (concat (map g xs))"
  by (induction xs) auto

lemma concatR_isOk: "(\<And>x. x \<in> set xs \<Longrightarrow> \<exists>as. f x = Ok as) \<Longrightarrow> \<exists>rs. concatR f xs = Ok rs"
proof (induction xs)
  case (Cons x xs)
  then obtain as rs where "f x = Ok as" "concatR f xs = Ok rs" by (metis list.set_intros)
  then show ?case by simp
qed simp

lemma concatR_elem: "concatR f xs = Ok rs \<Longrightarrow> x \<in> set xs \<Longrightarrow> \<exists>as. f x = Ok as"
  by (induction xs arbitrary: rs) (auto simp: bindR_Ok_iff)

lemma concatR_mem:
  "concatR f xs = Ok rs \<Longrightarrow> r \<in> set rs \<longleftrightarrow> (\<exists>x \<in> set xs. \<exists>as. f x = Ok as \<and> r \<in> set as)"
  by (induction xs arbitrary: rs) (auto simp: bindR_Ok_iff)

lemma bex_enumerate: "(\<exists>ix \<in> set (enumerate 0 xs). P ix) \<longleftrightarrow> (\<exists>i < length xs. P (i, xs ! i))"
  by (auto simp: in_set_enumerate_eq)

text \<open>Rows whose keys are distinct within an element and carry a tag of it are distinct over all.\<close>

lemma concatR_distinct:
  assumes "concatR f xs = Ok rs" "distinct (map tag xs)"
    and "\<And>x as. x \<in> set xs \<Longrightarrow> f x = Ok as \<Longrightarrow> distinct (map key as)"
    and "\<And>x as r. x \<in> set xs \<Longrightarrow> f x = Ok as \<Longrightarrow> r \<in> set as \<Longrightarrow> keyTag (key r) = tag x"
  shows "distinct (map key rs)"
  using assms
proof (induction xs arbitrary: rs)
  case (Cons x xs)
  from Cons.prems(1) obtain as bs where ab: "f x = Ok as" "concatR f xs = Ok bs" "rs = as @ bs"
    by (auto simp: bindR_Ok_iff)
  have "distinct (map key bs)"
    by (rule Cons.IH [OF ab(2)]) (use Cons.prems in auto)
  moreover have "key r \<noteq> key r'" if "r \<in> set as" "r' \<in> set bs" for r r'
  proof -
    from that(2) ab(2) obtain y cs where "y \<in> set xs" "f y = Ok cs" "r' \<in> set cs"
      by (auto simp: concatR_mem)
    then have "keyTag (key r') = tag y" "tag y \<noteq> tag x" using Cons.prems by (auto simp: image_iff)
    moreover have "keyTag (key r) = tag x" using Cons.prems(4) ab(1) that(1) by simp
    ultimately show ?thesis by metis
  qed
  ultimately show ?case using Cons.prems(3) [of x as] ab by auto
qed simp

lemma concatR_length: "concatR f xs = Ok rs \<Longrightarrow> x \<in> set xs \<Longrightarrow> f x = Ok as \<Longrightarrow> length as \<le> length rs"
  by (induction xs arbitrary: rs) (fastforce simp: bindR_Ok_iff)+

lemma map_snd_enumerate_comp: "map (\<lambda>ix. f (snd ix)) (enumerate n xs) = map f xs"
  using map_map [of f snd "enumerate n xs"] by (simp only: map_snd_enumerate comp_def)

text \<open>What holds of the value of a result, if it has one.\<close>

definition okAll :: "('a \<Rightarrow> bool) \<Rightarrow> 'a res \<Rightarrow> bool" where
  "okAll P r \<longleftrightarrow> (\<forall>a. r = Ok a \<longrightarrow> P a)"

lemma okAll_simps [simp]:
  "okAll P (Ok a) \<longleftrightarrow> P a" "okAll P (Err e)" "okAll P Panic"
  "okAll P (mapR f r) \<longleftrightarrow> okAll (\<lambda>a. P (f a)) r" "okAll P (bindR r g) \<longleftrightarrow> okAll (\<lambda>a. okAll P (g a)) r"
  by (cases r; simp add: okAll_def)+

lemma okAllI: "(\<And>a. r = Ok a \<Longrightarrow> P a) \<Longrightarrow> okAll P r"
  by (simp add: okAll_def)

lemma okAllD: "okAll P r \<Longrightarrow> r = Ok a \<Longrightarrow> P a"
  by (simp add: okAll_def)

lemma okAll_concatR:
  "(\<And>x. x \<in> set xs \<Longrightarrow> okAll (\<lambda>rs. \<forall>r \<in> set rs. Q r) (f x)) \<Longrightarrow> okAll (\<lambda>rs. \<forall>r \<in> set rs. Q r) (concatR f xs)"
  by (auto simp: okAll_def concatR_mem)

section \<open>Lists\<close>

text \<open>
  Several loops of the source number the rows they emit.  \<open>numberedFrom\<close> is the shape of the
  claim made about them: the numbers found in the rows are consecutive from a start.
\<close>

definition numberedFrom :: "('a \<Rightarrow> nat) \<Rightarrow> nat \<Rightarrow> 'a list \<Rightarrow> bool" where
  "numberedFrom idx n xs \<longleftrightarrow> map idx xs = [n ..< n + length xs]"

lemma numberedFrom_Nil [simp]: "numberedFrom idx n []"
  by (simp add: numberedFrom_def)

lemma numberedFrom_Cons [simp]:
  "numberedFrom idx n (x # xs) \<longleftrightarrow> idx x = n \<and> numberedFrom idx (Suc n) xs"
  by (auto simp: numberedFrom_def upt_rec [of n])

lemma numberedFrom_append [simp]:
  "numberedFrom idx n (xs @ ys) \<longleftrightarrow> numberedFrom idx n xs \<and> numberedFrom idx (n + length xs) ys"
  by (induction xs arbitrary: n) auto

lemma numberedFrom_distinct: "numberedFrom idx n xs \<Longrightarrow> distinct (map idx xs)"
  by (simp add: numberedFrom_def)

lemma numberedFrom_nth: "numberedFrom idx n xs \<Longrightarrow> i < length xs \<Longrightarrow> idx (xs ! i) = n + i"
proof -
  assume a: "numberedFrom idx n xs" and i: "i < length xs"
  have "idx (xs ! i) = map idx xs ! i" using i by simp
  also have "\<dots> = n + i" using a i by (simp add: numberedFrom_def)
  finally show ?thesis .
qed

lemma distinct_iff_card: "distinct xs \<longleftrightarrow> card (set xs) = length xs"
  using card_distinct distinct_card by blast

lemma distinct_map_nth_inj:
  "distinct (map f xs) \<Longrightarrow> x \<in> set xs \<Longrightarrow> y \<in> set xs \<Longrightarrow> f x = f y \<Longrightarrow> x = y"
  by (auto simp: distinct_map inj_on_def)

lemma append_sep_inj:
  assumes "c \<notin> set xs" "c \<notin> set ys" "xs @ c # us = ys @ c # vs"
  shows "xs = ys \<and> us = vs"
  using assms
proof (induction xs arbitrary: ys)
  case Nil
  then show ?case by (cases ys) auto
next
  case (Cons x xs)
  then show ?case by (cases ys) auto
qed

lemma append_last_sep_inj:
  assumes "c \<notin> set us" "c \<notin> set vs" "xs @ c # us = ys @ c # vs"
  shows "xs = ys \<and> us = vs"
proof -
  have "rev us @ c # rev xs = rev vs @ c # rev ys"
    using arg_cong [OF assms(3), of rev] by simp
  then have "rev us = rev vs \<and> rev xs = rev ys"
    using assms(1,2) by (intro append_sep_inj) auto
  then show ?thesis by simp
qed

lemma last_filter_Cons:
  "filter P (x # xs) \<noteq> [] \<Longrightarrow>
   last (filter P (x # xs)) = (if filter P xs = [] then x else last (filter P xs))"
  by (auto split: if_splits)

section \<open>Words side by side\<close>

text \<open>
  A wide integer the XDR schema splits into 64-bit words is the concatenation of its words, read
  unsigned or signed.
\<close>

lemma take_bit_uint: "take_bit LENGTH('a) (uint (w :: 'a::len word)) = uint w"
  using uint_bounded [of w] by (intro take_bit_int_eq_self) auto

lemma sint_neg_iff: "sint (w :: 'a::len word) < 0 \<longleftrightarrow> bit w (LENGTH('a) - 1)"
  by (simp add: sint_uint bit_uint_iff)

lemma uint_word_cat:
  fixes v :: "'a::len word" and w :: "'b::len word"
  assumes "LENGTH('c::len) = LENGTH('a) + LENGTH('b)"
  shows "uint (word_cat v w :: 'c word) = push_bit LENGTH('b) (uint v) + uint w"
proof -
  have "uint (word_cat v w :: 'c word) = take_bit LENGTH('c) (concat_bit LENGTH('b) (uint w) (uint v))"
    by (simp add: word_cat_eq' unsigned_of_int)
  also have "concat_bit LENGTH('b) (uint w) (uint v) = push_bit LENGTH('b) (uint v) + uint w"
    by (simp add: concat_bit_eq take_bit_uint)
  also have "take_bit LENGTH('c) \<dots> = \<dots>"
  proof (rule take_bit_int_eq_self)
    have v: "0 \<le> uint v" "uint v \<le> 2 ^ LENGTH('a) - 1" using uint_bounded [of v] by auto
    have w: "0 \<le> uint w" "uint w < 2 ^ LENGTH('b)" using uint_bounded [of w] by auto
    show "0 \<le> push_bit LENGTH('b) (uint v) + uint w" using v w by (simp add: push_bit_eq_mult)
    have "uint v * 2 ^ LENGTH('b) \<le> (2 ^ LENGTH('a) - 1) * 2 ^ LENGTH('b)"
      using v by (intro mult_right_mono) auto
    then have "uint v * 2 ^ LENGTH('b) + uint w < 2 ^ LENGTH('a) * 2 ^ LENGTH('b)"
      using w(2) by (simp only: left_diff_distrib)
    then show "push_bit LENGTH('b) (uint v) + uint w < 2 ^ LENGTH('c)"
      by (simp only: push_bit_eq_mult assms power_add)
  qed
  finally show ?thesis .
qed

lemma sint_word_cat:
  fixes v :: "'a::len word" and w :: "'b::len word"
  assumes "LENGTH('c::len) = LENGTH('a) + LENGTH('b)"
  shows "sint (word_cat v w :: 'c word) = push_bit LENGTH('b) (sint v) + uint w"
proof -
  let ?x = "push_bit LENGTH('b) (sint v) + uint w"
  have "take_bit LENGTH('c) (push_bit LENGTH('b) (uint v)) = take_bit LENGTH('c) (push_bit LENGTH('b) (sint v))"
  proof -
    have "take_bit LENGTH('a) (uint v) = take_bit LENGTH('a) (sint v)"
      by (cases "LENGTH('a)") (simp_all add: sint_uint take_bit_signed_take_bit)
    then show ?thesis by (simp add: assms take_bit_push_bit)
  qed
  then have "take_bit LENGTH('c) (push_bit LENGTH('b) (uint v) + uint w) = take_bit LENGTH('c) ?x"
    by (metis take_bit_add)
  moreover have "(word_cat v w :: 'c word) = word_of_int (push_bit LENGTH('b) (uint v) + uint w)"
    by (simp add: word_cat_eq' concat_bit_eq add.commute take_bit_uint)
  ultimately have "(word_cat v w :: 'c word) = word_of_int ?x"
    by (simp only: word_of_int_eq_iff)
  then have "sint (word_cat v w :: 'c word) = signed_take_bit (LENGTH('c) - 1) ?x"
    by (simp only: signed_of_int) simp
  also have "\<dots> = ?x"
  proof (rule signed_take_bit_int_eq_self)
    obtain a where a: "LENGTH('a) = Suc a" by (metis len_not_eq_0 not0_implies_Suc)
    have v: "- (2 ^ a) \<le> sint v" "sint v \<le> 2 ^ a - 1"
      using sint_greater_eq [of v] sint_less [of v] a by auto
    have w: "0 \<le> uint w" "uint w < 2 ^ LENGTH('b)" using uint_bounded [of w] by auto
    have "- (2 ^ a) * 2 ^ LENGTH('b) \<le> sint v * 2 ^ LENGTH('b)"
      using v by (intro mult_right_mono) auto
    then show "- (2 ^ (LENGTH('c) - 1)) \<le> ?x"
      by (simp add: push_bit_eq_mult assms a power_add) (rule add_increasing2 [OF w(1)])
    have "sint v * 2 ^ LENGTH('b) \<le> (2 ^ a - 1) * 2 ^ LENGTH('b)"
      using v by (intro mult_right_mono) auto
    then have "sint v * 2 ^ LENGTH('b) + uint w < 2 ^ a * 2 ^ LENGTH('b)"
      using w(2) by (simp only: left_diff_distrib)
    then show "?x < 2 ^ (LENGTH('c) - 1)"
      by (simp add: push_bit_eq_mult assms a power_add)
  qed
  finally show ?thesis .
qed

lemma sint_u64: "sint (w :: u64) = (if uint w < 2 ^ 63 then uint w else uint w - 2 ^ 64)"
proof (cases "uint w < 2 ^ 63")
  case True
  moreover have "- (2 ^ 63) \<le> uint w" using uint_ge_0 [of w] by (rule order_trans [rotated]) simp
  ultimately have "signed_take_bit 63 (uint w) = uint w" by (intro signed_take_bit_int_eq_self) auto
  then show ?thesis using True by (simp add: sint_uint)
next
  case False
  have "take_bit (Suc 63) (uint w) = take_bit (Suc 63) (uint w - 2 ^ 64)" by (simp add: take_bit_eq_mod)
  then have "signed_take_bit 63 (uint w) = signed_take_bit 63 (uint w - 2 ^ 64)"
    by (simp only: signed_take_bit_eq_iff_take_bit_eq)
  also have "\<dots> = uint w - 2 ^ 64"
    using False uint_bounded [of w] by (intro signed_take_bit_int_eq_self) auto
  finally show ?thesis using False by (simp add: sint_uint)
qed

text \<open>Numbers from their digits in a base, most significant first, and the bytes of a word.\<close>

lemma foldl_digits:
  fixes x :: nat
  shows "foldl (\<lambda>n d. b * n + d) a (map (\<lambda>k. x div b ^ k mod b) (rev [0 ..< k])) = a * b ^ k + x mod b ^ k"
proof (induction k arbitrary: a)
  case 0
  then show ?case by simp
next
  case (Suc k)
  have "x mod b ^ Suc k = b ^ k * (x div b ^ k mod b) + x mod b ^ k"
    by (metis mod_mult2_eq mult.commute power_Suc)
  then show ?case using Suc.IH by (simp add: algebra_simps)
qed

lemma byte_of_u64: "unat (ucast (drop_bit (8 * k) i) :: byte) = unat (i :: 64 word) div 256 ^ k mod 256"
proof -
  have "unat (drop_bit (8 * k) i) = unat i div 2 ^ (8 * k)"
    using unsigned_less [of i, where ?'a = nat]
    by (simp add: unsigned_drop_bit_eq take_bit_nat_eq_self drop_bit_eq_div [symmetric, where ?'a = nat])
  then show ?thesis by (simp only: unsigned_ucast_eq take_bit_eq_mod power_mult) simp
qed

end
