(* ===== verification/GoStd.thy ===== *)
theory GoStd
  imports Prelude
begin

unbundle bit_operations_syntax

text \<open>
  The parts of Go's standard library the extractors use, written out: decimal and hexadecimal
  formatting (\<open>fmt.Sprintf\<close> with \<open>%d\<close>, \<open>%016x\<close>, \<open>%x\<close>,
  \<open>strconv.FormatInt\<close>, \<open>big.Int.String\<close>, \<open>hex.EncodeToString\<close>),
  \<open>base64.StdEncoding\<close>, \<open>strings.TrimRight(s, "\x00")\<close> and
  \<open>utf8.ValidString\<close>, with the inverse readers that make the printers injective.
\<close>

section \<open>Decimal numbers\<close>

definition digitChar :: "nat \<Rightarrow> char" where
  "digitChar d = char_of (48 + d)"

definition charDigit :: "char \<Rightarrow> nat" where
  "charDigit c = of_char c - 48"

fun showNat :: "nat \<Rightarrow> string" where
  "showNat n = (if n < 10 then [digitChar n] else showNat (n div 10) @ [digitChar (n mod 10)])"

declare showNat.simps [simp del]

definition readNat :: "string \<Rightarrow> nat" where
  "readNat s = foldl (\<lambda>n c. 10 * n + charDigit c) 0 s"

definition isDigit :: "char \<Rightarrow> bool" where
  "isDigit c \<longleftrightarrow> 48 \<le> (of_char c :: nat) \<and> (of_char c :: nat) < 58"

definition showInt :: "int \<Rightarrow> string" where
  "showInt i = (if i < 0 then CHR ''-'' # showNat (nat (- i)) else showNat (nat i))"

definition udec :: "'a::len word \<Rightarrow> string" where
  "udec w = showNat (unat w)"

definition sdec :: "'a::len word \<Rightarrow> string" where
  "sdec w = showInt (sint w)"

lemma of_char_digitChar: "d < 10 \<Longrightarrow> (of_char (digitChar d) :: nat) = 48 + d"
  by (simp add: digitChar_def)

lemma charDigit_digitChar [simp]: "d < 10 \<Longrightarrow> charDigit (digitChar d) = d"
  by (simp add: charDigit_def of_char_digitChar)

lemma isDigit_digitChar [simp]: "d < 10 \<Longrightarrow> isDigit (digitChar d)"
  by (simp add: isDigit_def of_char_digitChar)

lemma readNat_snoc: "readNat (s @ [c]) = 10 * readNat s + charDigit c"
  by (simp add: readNat_def)

lemma readNat_showNat [simp]: "readNat (showNat n) = n"
proof (induction n rule: showNat.induct)
  case (1 n)
  show ?case
  proof (cases "n < 10")
    case True
    then show ?thesis by (simp add: showNat.simps [of n] readNat_def)
  next
    case False
    with "1.IH" show ?thesis by (simp add: showNat.simps [of n] readNat_snoc)
  qed
qed

lemma showNat_inject [simp]: "showNat m = showNat n \<longleftrightarrow> m = n"
  by (metis readNat_showNat)

lemma showNat_digits: "c \<in> set (showNat n) \<Longrightarrow> isDigit c"
proof (induction n rule: showNat.induct)
  case (1 n)
  then show ?case
    by (cases "n < 10") (auto simp: showNat.simps [of n])
qed

lemma showNat_nonempty [simp]: "showNat n \<noteq> []"
  by (simp add: showNat.simps [of n])

lemma isDigit_not_punct:
  "\<not> isDigit (CHR ''-'')" "\<not> isDigit (CHR '':'')" "\<not> isDigit (CHR ''@'')" "\<not> isDigit (CHR ''>'')"
  by (simp_all add: isDigit_def)

lemma showNat_no_minus: "CHR ''-'' \<notin> set (showNat n)"
  using showNat_digits isDigit_not_punct(1) by blast

lemma showInt_inject [simp]: "showInt i = showInt j \<longleftrightarrow> i = j"
proof
  assume eq: "showInt i = showInt j"
  have hd: "hd (showNat n) \<noteq> CHR ''-''" for n
    using showNat_no_minus [of n] hd_in_set [OF showNat_nonempty [of n]] by metis
  have "showNat n \<noteq> CHR ''-'' # s" for n s
    using hd [of n] by auto
  then show "i = j"
    using eq by (cases "i < 0"; cases "j < 0") (auto simp: showInt_def eq_commute [of "CHR ''-'' # _"])
qed simp

lemma showInt_no: "c \<in> set (showInt i) \<Longrightarrow> isDigit c \<or> c = CHR ''-''"
  by (auto simp: showInt_def split: if_splits dest: showNat_digits)

lemma udec_inject [simp]: "udec v = udec w \<longleftrightarrow> v = w"
  by (simp add: udec_def word_eq_iff_unsigned [where ?'a = nat, symmetric])

lemma sdec_inject [simp]: "sdec v = sdec w \<longleftrightarrow> v = w"
  by (simp add: sdec_def word_eq_iff_signed [symmetric])

section \<open>Bytes, strings and hexadecimal\<close>

definition byteChar :: "byte \<Rightarrow> char" where
  "byteChar b = char_of (unat b)"

definition charByte :: "char \<Rightarrow> byte" where
  "charByte c = of_nat (of_char c)"

text \<open>Go's conversions \<open>string(bs)\<close> and \<open>[]byte(s)\<close>.\<close>

definition bytesString :: "byte list \<Rightarrow> string" where
  "bytesString bs = map byteChar bs"

definition stringBytes :: "string \<Rightarrow> byte list" where
  "stringBytes s = map charByte s"

definition hexDigit :: "nat \<Rightarrow> char" where
  "hexDigit d = (if d < 10 then char_of (48 + d) else char_of (87 + d))"

definition hexValue :: "char \<Rightarrow> nat" where
  "hexValue c = (if (of_char c :: nat) < 58 then of_char c - 48 else of_char c - 87)"

definition hexByte :: "byte \<Rightarrow> string" where
  "hexByte b = [hexDigit (unat b div 16), hexDigit (unat b mod 16)]"

text \<open>\<open>hex.EncodeToString\<close>, which is also \<open>%x\<close> of a byte array.\<close>

definition hexEncode :: "byte list \<Rightarrow> string" where
  "hexEncode bs = concat (map hexByte bs)"

fun hexDecode :: "string \<Rightarrow> byte list" where
  "hexDecode (a # b # s) = of_nat (16 * hexValue a + hexValue b) # hexDecode s"
| "hexDecode s = []"

text \<open>\<open>%016x\<close> of a \<open>uint64\<close>: sixteen nibbles, most significant first.\<close>

definition hex16 :: "u64 \<Rightarrow> string" where
  "hex16 w = map (\<lambda>i. hexDigit (unat w div 16 ^ i mod 16)) (rev [0 ..< 16])"

lemma byte_lt: "unat (b :: byte) < 256"
  using unsigned_less [of b, where ?'a = nat] by simp

lemma byteChar_inverse [simp]: "charByte (byteChar b) = b"
  using byte_lt [of b] by (simp add: charByte_def byteChar_def)

lemma bytesString_inverse [simp]: "stringBytes (bytesString bs) = bs"
  by (simp add: stringBytes_def bytesString_def comp_def)

lemma bytesString_stringBytes [simp]: "bytesString (stringBytes s) = s"
proof -
  have "byteChar (charByte c) = c" for c :: char
    by (simp add: byteChar_def charByte_def unat_of_nat)
  then show ?thesis by (simp add: bytesString_def stringBytes_def comp_def)
qed

lemma length_bytesString [simp]: "length (bytesString bs) = length bs"
  by (simp add: bytesString_def)

lemma hexValue_hexDigit [simp]: "d < 16 \<Longrightarrow> hexValue (hexDigit d) = d"
  by (simp add: hexValue_def hexDigit_def)

lemma hexDecode_hexEncode [simp]: "hexDecode (hexEncode bs) = bs"
proof (induction bs)
  case Nil
  then show ?case by (simp add: hexEncode_def)
next
  case (Cons b bs)
  have "unat b div 16 < 16" using byte_lt [of b] by simp
  moreover have "16 * (unat b div 16) + unat b mod 16 = unat b" by simp
  ultimately show ?case
    using Cons.IH by (simp add: hexEncode_def hexByte_def del: of_nat_add of_nat_mult)
qed

lemma hexEncode_inject [simp]: "hexEncode as = hexEncode bs \<longleftrightarrow> as = bs"
  by (metis hexDecode_hexEncode)

lemma length_hexEncode [simp]: "length (hexEncode bs) = 2 * length bs"
  by (induction bs) (simp_all add: hexEncode_def hexByte_def)

lemma hexEncode_Nil_iff [simp]: "hexEncode bs = [] \<longleftrightarrow> bs = []"
  by (cases bs) (simp_all add: hexEncode_def hexByte_def)

lemma length_hex16 [simp]: "length (hex16 w) = 16"
  by (simp add: hex16_def)

text \<open>Reading a string of hex digits as a number, for the width-16 printer.\<close>

definition readHex :: "string \<Rightarrow> nat" where
  "readHex s = foldl (\<lambda>n c. 16 * n + hexValue c) 0 s"

lemma foldl_nibbles:
  "foldl (\<lambda>n c. 16 * n + hexValue c) a (map (\<lambda>i. hexDigit (x div 16 ^ i mod 16)) (rev [0 ..< k]))
   = a * 16 ^ k + x mod 16 ^ k"
proof (induction k arbitrary: a)
  case 0
  then show ?case by simp
next
  case (Suc k)
  have "x mod 16 ^ Suc k = 16 ^ k * (x div 16 ^ k mod 16) + x mod 16 ^ k"
    by (metis mod_mult2_eq mult.commute power_Suc)
  then show ?case using Suc.IH by (simp add: algebra_simps)
qed

lemma readHex_append_hex16:
  "readHex (s @ hex16 w) = readHex s * 2 ^ 64 + unat w"
proof -
  have "unat w < 16 ^ 16" using unsigned_less [of w, where ?'a = nat] by simp
  then show ?thesis
    by (simp add: readHex_def hex16_def foldl_nibbles)
qed

lemma readHex_hex16: "readHex (hex16 w) = unat w"
  using readHex_append_hex16 [of "[]" w] by (simp add: readHex_def)

section \<open>Base64\<close>

definition b64Char :: "nat \<Rightarrow> char" where
  "b64Char n = (if n < 26 then char_of (65 + n) else if n < 52 then char_of (71 + n)
     else if n < 62 then char_of (n - 4) else if n = 62 then CHR ''+'' else CHR ''/'')"

definition b64Value :: "char \<Rightarrow> nat option" where
  "b64Value c = (let k = of_char c :: nat in
     if 65 \<le> k \<and> k < 91 then Some (k - 65) else if 97 \<le> k \<and> k < 123 then Some (k - 71)
     else if 48 \<le> k \<and> k < 58 then Some (k + 4) else if k = 43 then Some 62
     else if k = 47 then Some 63 else None)"

text \<open>\<open>base64.StdEncoding.EncodeToString\<close>.\<close>

fun base64Encode :: "byte list \<Rightarrow> string" where
  "base64Encode [] = []"
| "base64Encode [a] =
     [b64Char (unat a div 4), b64Char (unat a mod 4 * 16), CHR ''='', CHR ''='']"
| "base64Encode [a, b] =
     [b64Char (unat a div 4), b64Char (unat a mod 4 * 16 + unat b div 16),
      b64Char (unat b mod 16 * 4), CHR ''='']"
| "base64Encode (a # b # c # bs) =
     [b64Char (unat a div 4), b64Char (unat a mod 4 * 16 + unat b div 16),
      b64Char (unat b mod 16 * 4 + unat c div 64), b64Char (unat c mod 64)] @ base64Encode bs"

definition b64Quad :: "nat \<Rightarrow> nat \<Rightarrow> nat \<Rightarrow> nat \<Rightarrow> byte list" where
  "b64Quad p q r s =
     [of_nat (p * 4 + q div 16), of_nat (q mod 16 * 16 + r div 4), of_nat (r mod 4 * 64 + s)]"

text \<open>
  \<open>base64.StdEncoding.DecodeString\<close> on input without line breaks (the decoder of the standard
  library also skips CR and LF, which no caller here passes): groups of four, padding at the end only.
\<close>

fun base64Decode :: "string \<Rightarrow> byte list option" where
  "base64Decode [] = Some []"
| "base64Decode (w # x # y # z # s) =
     (if y = CHR ''='' \<and> z = CHR ''='' \<and> s = [] then
        (case (b64Value w, b64Value x) of
           (Some p, Some q) \<Rightarrow> Some (take 1 (b64Quad p q 0 0)) | _ \<Rightarrow> None)
      else if z = CHR ''='' \<and> s = [] then
        (case (b64Value w, b64Value x, b64Value y) of
           (Some p, Some q, Some r) \<Rightarrow> Some (take 2 (b64Quad p q r 0)) | _ \<Rightarrow> None)
      else
        (case (b64Value w, b64Value x, b64Value y, b64Value z) of
           (Some p, Some q, Some r, Some t) \<Rightarrow> map_option ((@) (b64Quad p q r t)) (base64Decode s)
         | _ \<Rightarrow> None))"
| "base64Decode s = None"

lemma b64Value_b64Char [simp]: "n < 64 \<Longrightarrow> b64Value (b64Char n) = Some n"
  by (auto simp: b64Value_def b64Char_def Let_def)

lemma b64Char_not_pad [simp]: "n < 64 \<Longrightarrow> b64Char n \<noteq> CHR ''=''"
  by (auto simp: b64Char_def dest!: arg_cong [where f = "of_char :: char \<Rightarrow> nat"])

lemma byte_div4 [simp]: "unat (b :: byte) div 4 < 64"
  using byte_lt [of b] by simp

lemma byte_mix16 [simp]: "unat (a :: byte) mod 4 * 16 + unat (b :: byte) div 16 < 64"
  using byte_lt [of b] mod_less_divisor [of 4 "unat a"] by linarith

lemma byte_mix4 [simp]: "unat (a :: byte) mod 16 * 4 + unat (b :: byte) div 64 < 64"
  using byte_lt [of b] mod_less_divisor [of 16 "unat a"] by linarith

lemma byte_shift16 [simp]: "unat (a :: byte) mod 4 * 16 < 64"
  using mod_less_divisor [of 4 "unat a"] by linarith

lemma byte_shift4 [simp]: "unat (a :: byte) mod 16 * 4 < 64"
  using mod_less_divisor [of 16 "unat a"] by linarith

lemma div16_mix: "(m * 16 + n div 16) div 16 = m + n div 256" for m n :: nat
  by (simp add: div_mult2_eq [symmetric])

lemma b64Quad_mix:
  "b64Quad (unat a div 4) (unat a mod 4 * 16 + unat b div 16)
     (unat b mod 16 * 4 + unat c div 64) (unat c mod 64) = [a, b, c]"
proof -
  have a: "unat a div 4 * 4 + (unat a mod 4 * 16 + unat b div 16) div 16 = unat a"
    using byte_lt [of b] by simp
  have b: "(unat a mod 4 * 16 + unat b div 16) mod 16 * 16
      + (unat b mod 16 * 4 + unat c div 64) div 4 = unat b"
    using byte_lt [of b] byte_lt [of c] by simp
  have c: "(unat b mod 16 * 4 + unat c div 64) mod 4 * 64 + unat c mod 64 = unat c"
    using byte_lt [of c] by simp
  show ?thesis
    unfolding b64Quad_def a b c by simp
qed

lemma b64Quad_pad1:
  "take 2 (b64Quad (unat a div 4) (unat a mod 4 * 16 + unat b div 16) (unat b mod 16 * 4) 0) = [a, b]"
  using b64Quad_mix [of a b 0] by simp

lemma b64Quad_pad2: "take (Suc 0) (b64Quad (unat a div 4) (unat a mod 4 * 16) 0 0) = [a]"
proof -
  have "unat a mod 4 * 16 div 16 = unat a mod 4" by simp
  then show ?thesis by (simp add: b64Quad_def del: of_nat_add of_nat_mult)
qed

lemma base64Decode_Encode [simp]: "base64Decode (base64Encode bs) = Some bs"
proof (induction bs rule: base64Encode.induct)
  case (2 a)
  then show ?case by (simp add: b64Quad_pad2)
next
  case (3 a b)
  then show ?case by (simp add: b64Quad_pad1)
next
  case (4 a b c bs)
  have "unat c mod 64 < 64" by simp
  with 4 show ?case by (simp add: b64Quad_mix)
qed simp

lemma base64Encode_inject [simp]: "base64Encode as = base64Encode bs \<longleftrightarrow> as = bs"
  by (metis base64Decode_Encode option.inject)

section \<open>Trimming and UTF-8\<close>

text \<open>\<open>strings.TrimRight(s, "\x00")\<close>: drop the NUL bytes at the end.\<close>

definition trimRightNul :: "string \<Rightarrow> string" where
  "trimRightNul s = rev (dropWhile (\<lambda>c. c = CHR 0x00) (rev s))"

text \<open>
  The length of the UTF-8 encoded rune a string starts with, 0 when its first bytes are no valid
  encoding: the table of \<open>unicode/utf8\<close>.
\<close>

definition isCont :: "nat \<Rightarrow> nat \<Rightarrow> char \<Rightarrow> bool" where
  "isCont lo hi c \<longleftrightarrow> lo \<le> (of_char c :: nat) \<and> (of_char c :: nat) \<le> hi"

fun runeLen :: "string \<Rightarrow> nat" where
  "runeLen [] = 0"
| "runeLen (c # s) = (let b = of_char c :: nat; t = isCont 128 191;
     conts = (\<lambda>n. length (takeWhile t (take n (drop 1 s))) = n) in
     if b < 128 then 1
     else if 194 \<le> b \<and> b \<le> 223 then (if s \<noteq> [] \<and> t (hd s) then 2 else 0)
     else if 224 \<le> b \<and> b \<le> 239 then
       (if s \<noteq> [] \<and> isCont (if b = 224 then 160 else 128) (if b = 237 then 159 else 191) (hd s)
            \<and> conts 1 then 3 else 0)
     else if 240 \<le> b \<and> b \<le> 244 then
       (if s \<noteq> [] \<and> isCont (if b = 240 then 144 else 128) (if b = 244 then 143 else 191) (hd s)
            \<and> conts 2 then 4 else 0)
     else 0)"

function utf8Valid :: "string \<Rightarrow> bool" where
  "utf8Valid s = (if s = [] then True
     else if runeLen s = 0 then False else utf8Valid (drop (runeLen s) s))"
  by pat_completeness auto
termination
  by (relation "measure length") (auto simp: length_greater_0_conv [symmetric] simp del: length_greater_0_conv)

declare utf8Valid.simps [simp del]

lemma runeLen_ascii: "(of_char c :: nat) < 128 \<Longrightarrow> runeLen (c # s) = 1"
  by (simp add: Let_def)

lemma utf8Valid_ascii: "(\<forall>c \<in> set s. (of_char c :: nat) < 128) \<Longrightarrow> utf8Valid s"
proof (induction s)
  case Nil
  then show ?case by (simp add: utf8Valid.simps)
next
  case (Cons c s)
  then have "(of_char c :: nat) < 128" by simp
  then have "runeLen (c # s) = 1" by (rule runeLen_ascii)
  then show ?case using Cons by (simp add: utf8Valid.simps [of "c # s"] del: runeLen.simps)
qed

lemma dropWhile_eq_decomp: "\<exists>n. xs = replicate n c @ dropWhile (\<lambda>x. x = c) xs"
proof (induction xs)
  case Nil
  then show ?case by simp
next
  case (Cons x xs)
  then obtain n where "xs = replicate n c @ dropWhile (\<lambda>x. x = c) xs" by blast
  then have "x = c \<Longrightarrow> x # xs = replicate (Suc n) c @ dropWhile (\<lambda>x. x = c) (x # xs)" by simp
  moreover have "x \<noteq> c \<Longrightarrow> x # xs = replicate 0 c @ dropWhile (\<lambda>x. x = c) (x # xs)" by simp
  ultimately show ?case by blast
qed

lemma trimRightNul_decomp: "\<exists>n. s = trimRightNul s @ replicate n (CHR 0x00)"
proof -
  obtain n where "rev s = replicate n (CHR 0x00) @ dropWhile (\<lambda>c. c = CHR 0x00) (rev s)"
    using dropWhile_eq_decomp [of "rev s" "CHR 0x00"] by blast
  then have "rev (rev s) = rev (replicate n (CHR 0x00) @ dropWhile (\<lambda>c. c = CHR 0x00) (rev s))"
    by (rule arg_cong)
  then have "s = trimRightNul s @ replicate n (CHR 0x00)"
    by (simp add: trimRightNul_def)
  then show ?thesis by blast
qed

lemma trimRightNul_no_trailing: "trimRightNul s = [] \<or> last (trimRightNul s) \<noteq> CHR 0x00"
proof (cases "dropWhile (\<lambda>c. c = CHR 0x00) (rev s)")
  case Nil
  then show ?thesis by (simp add: trimRightNul_def)
next
  case (Cons c cs)
  then have "dropWhile (\<lambda>c. c = CHR 0x00) (rev s) \<noteq> []" by simp
  then have "\<not> (\<lambda>c. c = CHR 0x00) (hd (dropWhile (\<lambda>c. c = CHR 0x00) (rev s)))"
    by (rule hd_dropWhile)
  with Cons show ?thesis by (simp add: trimRightNul_def)
qed

end
