(* ===== verification/Ordering.thy ===== *)
theory Ordering
  imports Prelude
begin

text \<open>
  \<open>ordering.go\<close>: reading a Go map in key order, and the dedup-map pattern of the snapshot
  extractors built on it.

  A Go map is an association list with distinct keys.  The position of a binding in the list stands for
  Go's iteration order, which the language leaves open (and randomises): a property of the map is one
  that does not depend on it.
\<close>

type_synonym ('k, 'v) gomap = "('k \<times> 'v) list"

definition gmInv :: "('k, 'v) gomap \<Rightarrow> bool" where
  "gmInv m \<longleftrightarrow> distinct (map fst m)"

definition gmGet :: "('k, 'v) gomap \<Rightarrow> 'k \<Rightarrow> 'v option" where
  "gmGet m = map_of m"

definition gmPut :: "'k \<Rightarrow> 'v \<Rightarrow> ('k, 'v) gomap \<Rightarrow> ('k, 'v) gomap" where
  "gmPut k v m = AList.update k v m"

text \<open>\<open>make(map[K]V)\<close>\<close>

definition gmEmpty :: "('k, 'v) gomap" where
  "gmEmpty = []"

section \<open>Key order\<close>

text \<open>
  \<open>sortedMapValues\<close>: collect the keys in iteration order, sort them, read the values back.
  Every key read back is a key of the map, so \<open>*m[k]\<close> never dereferences nil.
\<close>

definition sortedMapValues :: "('k::linorder, 'v) gomap \<Rightarrow> 'v list" where
  "sortedMapValues m = (let keys = sort (map fst m) in map (\<lambda>k. the (gmGet m k)) keys)"

definition sortedSetKeys :: "('k::linorder, bool) gomap \<Rightarrow> 'k list" where
  "sortedSetKeys m = sort (map fst m)"

lemma gmInv_empty [simp]: "gmInv gmEmpty"
  by (simp add: gmInv_def gmEmpty_def)

lemma gmGet_empty [simp]: "gmGet gmEmpty k = None"
  by (simp add: gmGet_def gmEmpty_def)

lemma gmInv_put [simp]: "gmInv m \<Longrightarrow> gmInv (gmPut k v m)"
  by (simp add: gmInv_def gmPut_def distinct_update)

lemma gmGet_put [simp]: "gmGet (gmPut k v m) = (gmGet m)(k \<mapsto> v)"
  by (simp add: gmGet_def gmPut_def update_conv')

lemma gmGet_dom: "dom (gmGet m) = set (map fst m)"
  by (simp add: gmGet_def dom_map_of_conv_image_fst)

lemma length_gomap: "gmInv m \<Longrightarrow> length m = card (dom (gmGet m))"
  by (metis distinct_card gmGet_dom gmInv_def length_map)

lemma sort_keys_eq: "gmInv m \<Longrightarrow> sort (map fst m) = sorted_list_of_set (dom (gmGet m))"
  using sorted_list_of_set_sort_remdups [of "map fst m"]
  by (simp add: gmInv_def gmGet_dom distinct_remdups_id)

lemma sortedMapValues_eq:
  "gmInv m \<Longrightarrow> sortedMapValues m = map (\<lambda>k. the (gmGet m k)) (sorted_list_of_set (dom (gmGet m)))"
  by (simp add: sortedMapValues_def sort_keys_eq)

lemma sortedSetKeys_eq: "gmInv m \<Longrightarrow> sortedSetKeys m = sorted_list_of_set (dom (gmGet m))"
  by (simp add: sortedSetKeys_def sort_keys_eq)

text \<open>
  Two maps with the same bindings, whatever order Go iterates them in, give the same row slice,
  with one row per key and the keys ascending.
\<close>

theorem sortedMapValues_deterministic:
  assumes "gmInv m" "gmInv m'" "gmGet m = gmGet m'"
  shows "sortedMapValues m = sortedMapValues m'
    \<and> (\<exists>ks. sorted ks \<and> distinct ks \<and> set ks = dom (gmGet m)
         \<and> map Some (sortedMapValues m) = map (gmGet m) ks)"
proof
  show "sortedMapValues m = sortedMapValues m'"
    using assms by (simp add: sortedMapValues_eq)
  let ?ks = "sorted_list_of_set (dom (gmGet m))"
  have fin: "finite (dom (gmGet m))" by (simp add: gmGet_dom)
  have "map Some (sortedMapValues m) = map (gmGet m) ?ks"
    using assms(1) fin by (auto simp: sortedMapValues_eq)
  then show "\<exists>ks. sorted ks \<and> distinct ks \<and> set ks = dom (gmGet m)
         \<and> map Some (sortedMapValues m) = map (gmGet m) ks"
    using fin by (intro exI [of _ ?ks]) simp
qed

theorem sortedMapValues_deterministic_witness:
  "sortedMapValues [(9::int, ''i''), (10, ''x''), (1, ''a'')] = [''a'', ''i'', ''x'']
   \<and> sortedMapValues [(9::int, ''i''), (10, ''x''), (1, ''a'')]
     = sortedMapValues [(10::int, ''x''), (1, ''a''), (9, ''i'')]"
proof -
  let ?m = "[(9::int, ''i''), (10, ''x''), (1, ''a'')]"
  let ?m' = "[(10::int, ''x''), (1, ''a''), (9, ''i'')]"
  have "gmInv ?m" "gmInv ?m'" "gmGet ?m = gmGet ?m'"
    by (auto simp: gmInv_def gmGet_def fun_eq_iff)
  then have "sortedMapValues ?m = sortedMapValues ?m'"
    using sortedMapValues_deterministic by blast
  moreover have "sortedMapValues ?m = [''a'', ''i'', ''x'']" by code_simp
  ultimately show ?thesis by simp
qed

section \<open>The dedup table as an interface\<close>

text \<open>
  What the snapshot extractors ask of their dedup map: writes to a key replace the row, and the rows
  come out once each, in key order.
\<close>

lemma map_of_rev_SomeD:
  "map_of (rev kvs) k = Some v \<Longrightarrow> \<exists>us vs. kvs = us @ (k, v) # vs \<and> k \<notin> fst ` set vs"
proof (induction kvs)
  case Nil
  then show ?case by simp
next
  case (Cons kv kvs)
  show ?case
  proof (cases "map_of (rev kvs) k")
    case None
    then have "k \<notin> fst ` set kvs" by (simp add: map_of_eq_None_iff)
    moreover have "kv = (k, v)"
      using Cons.prems None by (cases kv) (auto simp: map_add_def split: if_splits)
    ultimately show ?thesis by (intro exI [of _ "[]"] exI [of _ kvs]) simp
  next
    case (Some w)
    with Cons obtain us vs where "kvs = us @ (k, v) # vs" "k \<notin> fst ` set vs"
      by (auto simp: map_add_def)
    then show ?thesis by (intro exI [of _ "kv # us"] exI [of _ vs]) simp
  qed
qed

locale dedup_table =
  fixes empty :: "'m"
    and put :: "'k::linorder \<Rightarrow> 'v \<Rightarrow> 'm \<Rightarrow> 'm"
    and get :: "'m \<Rightarrow> 'k \<Rightarrow> 'v option"
    and rows :: "'m \<Rightarrow> 'v list"
    and inv :: "'m \<Rightarrow> bool"
  assumes inv_empty: "inv empty"
    and get_empty: "get empty k = None"
    and inv_put: "inv m \<Longrightarrow> inv (put k v m)"
    and get_put: "inv m \<Longrightarrow> get (put k v m) = (get m)(k \<mapsto> v)"
    and rows_eq: "inv m \<Longrightarrow> rows m = map (\<lambda>k. the (get m k)) (sorted_list_of_set (dom (get m)))"
begin

lemma inv_puts: "inv m \<Longrightarrow> inv (foldl (\<lambda>m kv. put (fst kv) (snd kv) m) m kvs)"
  by (induction kvs arbitrary: m) (auto simp: inv_put)

lemma get_puts:
  "inv m \<Longrightarrow> get (foldl (\<lambda>m kv. put (fst kv) (snd kv) m) m kvs) = get m ++ map_of (rev kvs)"
proof (induction kvs arbitrary: m)
  case Nil
  then show ?case by simp
next
  case (Cons kv kvs)
  then show ?case
    by (cases kv) (simp add: inv_put get_put map_add_assoc [symmetric] fun_eq_iff map_add_def
        split: option.splits)
qed

lemma get_puts_empty:
  "get (foldl (\<lambda>m kv. put (fst kv) (snd kv) m) empty kvs) = map_of (rev kvs)"
  using get_puts [OF inv_empty, of kvs] by (simp add: get_empty fun_eq_iff map_add_def split: option.splits)

lemma rows_puts:
  "rows (foldl (\<lambda>m kv. put (fst kv) (snd kv) m) empty kvs)
   = map (\<lambda>k. the (map_of (rev kvs) k)) (sorted_list_of_set (fst ` set kvs))"
  by (simp add: rows_eq inv_puts inv_empty get_puts_empty dom_map_of_conv_image_fst)

lemma rows_last_write:
  assumes "v \<in> set (rows (foldl (\<lambda>m kv. put (fst kv) (snd kv) m) empty kvs))"
  shows "\<exists>k us vs. kvs = us @ (k, v) # vs \<and> k \<notin> fst ` set vs"
proof -
  from assms obtain k where k: "k \<in> fst ` set kvs" and v: "v = the (map_of (rev kvs) k)"
    by (auto simp: rows_puts)
  from k have "map_of (rev kvs) k \<noteq> None"
    by (simp add: map_of_eq_None_iff)
  with v have "map_of (rev kvs) k = Some v" by auto
  then have "\<exists>us vs. kvs = us @ (k, v) # vs \<and> k \<notin> fst ` set vs"
    by (rule map_of_rev_SomeD)
  then show ?thesis by blast
qed

lemma rows_sorted_by_key:
  assumes "\<And>k v. (k, v) \<in> set kvs \<Longrightarrow> key v = k"
  shows "map key (rows (foldl (\<lambda>m kv. put (fst kv) (snd kv) m) empty kvs))
       = sorted_list_of_set (fst ` set kvs)"
proof -
  have "key (the (map_of (rev kvs) k)) = k" if "k \<in> fst ` set kvs" for k
  proof -
    from that have "map_of (rev kvs) k \<noteq> None" by (simp add: map_of_eq_None_iff)
    then obtain v where "map_of (rev kvs) k = Some v" by auto
    with assms show ?thesis by (auto dest: map_of_SomeD)
  qed
  then show ?thesis by (auto simp: rows_puts intro!: map_idI)
qed

end

interpretation gm: dedup_table gmEmpty gmPut gmGet sortedMapValues gmInv
  by unfold_locales (simp_all add: sortedMapValues_eq)

section \<open>The dedup loop of the snapshot extractors\<close>

text \<open>
  \<open>m := make(map[K]*V); for _, x := range xs { ... m[k] = &row ... }; return sortedMapValues(m)\<close>:
  \<open>f x\<close> is the body of the loop, the writes it makes (none where it takes a
  \<open>continue\<close>), or the panic that ends the extractor.
\<close>

definition putAll :: "('k, 'v) gomap \<Rightarrow> ('k \<times> 'v) list \<Rightarrow> ('k, 'v) gomap" where
  "putAll m kvs = foldl (\<lambda>m kv. gmPut (fst kv) (snd kv) m) m kvs"

fun dedupLoop :: "('x \<Rightarrow> ('k \<times> 'v) list res) \<Rightarrow> ('k, 'v) gomap \<Rightarrow> 'x list \<Rightarrow> ('k, 'v) gomap res" where
  "dedupLoop f m [] = Ok m"
| "dedupLoop f m (x # xs) = bindR (f x) (\<lambda>kvs. dedupLoop f (putAll m kvs) xs)"

definition collectRows :: "('x \<Rightarrow> ('k::linorder \<times> 'v) list res) \<Rightarrow> 'x list \<Rightarrow> 'v list res" where
  "collectRows f xs = mapR sortedMapValues (dedupLoop f gmEmpty xs)"

lemma putAll_putAll: "putAll (putAll m kvs) kvs' = putAll m (kvs @ kvs')"
  by (simp add: putAll_def)

lemma dedupLoop_Ok_iff:
  "dedupLoop f m xs = Ok m' \<longleftrightarrow> (\<exists>ws. map f xs = map Ok ws \<and> m' = putAll m (concat ws))"
proof (induction xs arbitrary: m)
  case Nil
  then show ?case by (auto simp: putAll_def)
next
  case (Cons x xs)
  show ?case
  proof
    assume "dedupLoop f m (x # xs) = Ok m'"
    then obtain w where w: "f x = Ok w" "dedupLoop f (putAll m w) xs = Ok m'"
      by (auto simp: bindR_Ok_iff)
    then obtain ws where "map f xs = map Ok ws" "m' = putAll (putAll m w) (concat ws)"
      using Cons.IH by auto
    with w have "map f (x # xs) = map Ok (w # ws) \<and> m' = putAll m (concat (w # ws))"
      by (simp add: putAll_putAll)
    then show "\<exists>ws. map f (x # xs) = map Ok ws \<and> m' = putAll m (concat ws)" by blast
  next
    assume "\<exists>ws. map f (x # xs) = map Ok ws \<and> m' = putAll m (concat ws)"
    then obtain ws where ws: "map f (x # xs) = map Ok ws" "m' = putAll m (concat ws)" by blast
    then obtain w ws' where "ws = w # ws'" by (cases ws) auto
    have "dedupLoop f (putAll m w) xs = Ok m'"
      unfolding Cons.IH using ws \<open>ws = w # ws'\<close> by (intro exI [of _ ws']) (simp add: putAll_putAll)
    with ws \<open>ws = w # ws'\<close> show "dedupLoop f m (x # xs) = Ok m'" by simp
  qed
qed

lemma collectRows_Ok:
  assumes "collectRows f xs = Ok rs"
  obtains ws where "map f xs = map Ok ws" "rs = sortedMapValues (putAll gmEmpty (concat ws))"
  using assms by (auto simp: collectRows_def mapR_Ok_iff dedupLoop_Ok_iff)

lemma collectRows_total:
  assumes "\<And>x. x \<in> set xs \<Longrightarrow> f x = Ok (g x)"
  shows "collectRows f xs = Ok (sortedMapValues (putAll gmEmpty (concat (map g xs))))"
proof -
  have "map f xs = map Ok (map g xs)" using assms by simp
  then have "dedupLoop f gmEmpty xs = Ok (putAll gmEmpty (concat (map g xs)))"
    unfolding dedupLoop_Ok_iff by blast
  then show ?thesis by (simp add: collectRows_def)
qed

lemma collectRows_last_write:
  assumes "collectRows f xs = Ok rs" "r \<in> set rs"
  shows "\<exists>k x us vs ws. map f xs = map Ok ws \<and> concat ws = us @ (k, r) # vs \<and> k \<notin> fst ` set vs"
  using assms gm.rows_last_write by (fastforce elim!: collectRows_Ok simp: putAll_def)

lemma collectRows_sorted:
  assumes "collectRows f xs = Ok rs"
    and "\<And>x kvs k v. x \<in> set xs \<Longrightarrow> f x = Ok kvs \<Longrightarrow> (k, v) \<in> set kvs \<Longrightarrow> key v = k"
  shows "sorted (map key rs) \<and> distinct (map key rs)"
  using assms(1)
proof (rule collectRows_Ok)
  fix ws assume ws: "map f xs = map Ok ws"
    and rs: "rs = sortedMapValues (putAll gmEmpty (concat ws))"
  have "key v = k" if kv: "(k, v) \<in> set (concat ws)" for k v
  proof -
    from kv obtain kvs where "kvs \<in> set ws" "(k, v) \<in> set kvs" by auto
    then obtain x where "x \<in> set xs" "f x = Ok kvs"
      using arg_cong [OF ws, of set] by (metis (no_types, opaque_lifting) image_iff image_set)
    with assms(2) \<open>(k, v) \<in> set kvs\<close> show ?thesis by blast
  qed
  then have "map key rs = sorted_list_of_set (fst ` set (concat ws))"
    unfolding rs putAll_def by (rule gm.rows_sorted_by_key)
  then show ?thesis by simp
qed

section \<open>Snapshots\<close>

lemma last_map_filter:
  assumes "i < length xs" "f (xs ! i) = Some a" "\<And>j. i < j \<Longrightarrow> j < length xs \<Longrightarrow> f (xs ! j) = None"
  shows "last (List.map_filter f xs) = a"
proof -
  have "List.map_filter f (drop (Suc i) xs) = []"
    using assms(3) by (auto simp: map_filter_def filter_empty_conv in_set_conv_nth)
  moreover have "xs = take i xs @ xs ! i # drop (Suc i) xs" using assms(1) by (rule id_take_nth_drop)
  then have "List.map_filter f xs = List.map_filter f (take i xs @ xs ! i # drop (Suc i) xs)" by simp
  ultimately show ?thesis using assms(2) by (simp add: map_filter_def)
qed

text \<open>
  The contract of a snapshot extractor's loop body: an element that is \<open>good\<close> (its body does not
  panic) writes one row, or none, under the key of the entry it carries, and the key can be read off
  the row.  The index is the position of the element, which fixes the time stamp of the row.
\<close>

locale snapshot =
  fixes step :: "nat \<times> 'x \<Rightarrow> ('k::linorder \<times> 'v) list res"
    and good :: "'x \<Rightarrow> bool"
    and entry :: "'x \<Rightarrow> 'a option"
    and key :: "'a \<Rightarrow> 'k"
    and row :: "nat \<Rightarrow> 'a \<Rightarrow> 'v"
    and rowKey :: "'v \<Rightarrow> 'k"
  assumes step_eq: "good x \<Longrightarrow> step (i, x) = Ok (case entry x of None \<Rightarrow> [] | Some a \<Rightarrow> [(key a, row i a)])"
    and rowKey_row: "good x \<Longrightarrow> entry x = Some a \<Longrightarrow> rowKey (row i a) = key a"
begin

definition writes :: "nat \<times> 'x \<Rightarrow> ('k \<times> 'v) list" where
  "writes ix = (case entry (snd ix) of None \<Rightarrow> [] | Some a \<Rightarrow> [(key a, row (fst ix) a)])"

lemma writes_split:
  assumes "concat (map writes (enumerate n xs)) = us @ (k, r) # vs"
  shows "\<exists>i a. i < length xs \<and> entry (xs ! i) = Some a \<and> k = key a \<and> r = row (n + i) a
    \<and> vs = concat (map writes (enumerate (n + Suc i) (drop (Suc i) xs)))"
  using assms
proof (induction xs arbitrary: n us)
  case (Cons x xs)
  show ?case
  proof (cases "us = [] \<and> entry x \<noteq> None")
    case True
    then obtain a where "entry x = Some a" by blast
    with True Cons.prems show ?thesis by (intro exI [of _ 0] exI [of _ a]) (simp add: writes_def)
  next
    case False
    have p: "writes (n, x) @ concat (map writes (enumerate (Suc n) xs)) = us @ (k, r) # vs"
      using Cons.prems by simp
    obtain us' where "concat (map writes (enumerate (Suc n) xs)) = us' @ (k, r) # vs"
    proof (cases "entry x")
      case None
      with p that show ?thesis by (simp add: writes_def [of "(n, x)"])
    next
      case (Some a)
      with False obtain u us' where "us = u # us'" by (cases us) auto
      with p Some that show ?thesis by (simp add: writes_def [of "(n, x)"])
    qed
    from Cons.IH [OF this] obtain i a where "i < length xs" "entry (xs ! i) = Some a" "k = key a"
      "r = row (Suc n + i) a" "vs = concat (map writes (enumerate (Suc n + Suc i) (drop (Suc i) xs)))"
      by blast
    then show ?thesis by (intro exI [of _ "Suc i"] exI [of _ a]) simp
  qed
qed simp

lemma writes_keys: "fst ` set (concat (map writes (enumerate n xs))) = key ` set (List.map_filter entry xs)"
proof (induction xs arbitrary: n)
  case (Cons x xs)
  show ?case
    using Cons.IH [of "Suc n"] by (cases "entry x") (simp_all add: writes_def [of "(n, x)"] image_Un)
qed simp

lemma writes_rowKey:
  assumes "\<forall>x \<in> set xs. good x" "(k, r) \<in> set (concat (map writes (enumerate n xs)))"
  shows "rowKey r = k"
proof -
  from assms(2) obtain us vs where "concat (map writes (enumerate n xs)) = us @ (k, r) # vs"
    by (meson split_list)
  from writes_split [OF this] obtain i a where "i < length xs" "entry (xs ! i) = Some a" "k = key a"
    "r = row (n + i) a" by blast
  moreover from this(1) have "good (xs ! i)" using assms(1) by simp
  ultimately show ?thesis using rowKey_row by metis
qed

lemma rows:
  assumes good: "\<forall>x \<in> set xs. good x"
  shows "\<exists>rows. collectRows step (enumerate 0 xs) = Ok rows
    \<and> map rowKey rows = sorted_list_of_set (key ` set (List.map_filter entry xs))
    \<and> (\<forall>r \<in> set rows. \<exists>i a. i < length xs \<and> entry (xs ! i) = Some a \<and> r = row i a
         \<and> (\<forall>j a'. i < j \<and> j < length xs \<and> entry (xs ! j) = Some a' \<longrightarrow> key a' \<noteq> key a))"
proof -
  let ?kvs = "concat (map writes (enumerate 0 xs))"
  let ?rows = "sortedMapValues (putAll gmEmpty ?kvs)"
  have "step ix = Ok (writes ix)" if "ix \<in> set (enumerate 0 xs)" for ix
  proof -
    have "snd ix \<in> set xs" using that nth_mem [of "fst ix" xs] by (auto simp: in_set_enumerate_eq)
    with good step_eq [of "snd ix" "fst ix"] show ?thesis by (simp add: writes_def)
  qed
  then have ok: "collectRows step (enumerate 0 xs) = Ok ?rows"
    by (rule collectRows_total)
  have keys: "map rowKey ?rows = sorted_list_of_set (fst ` set ?kvs)"
    unfolding putAll_def by (rule gm.rows_sorted_by_key) (rule writes_rowKey [OF good])
  have last: "\<exists>i a. i < length xs \<and> entry (xs ! i) = Some a \<and> r = row i a
         \<and> (\<forall>j a'. i < j \<and> j < length xs \<and> entry (xs ! j) = Some a' \<longrightarrow> key a' \<noteq> key a)"
    if r: "r \<in> set ?rows" for r
  proof -
    obtain k us vs where split: "?kvs = us @ (k, r) # vs" and fresh: "k \<notin> fst ` set vs"
      using gm.rows_last_write [OF r [unfolded putAll_def]] by blast
    from writes_split [OF split] obtain i a where ia: "i < length xs" "entry (xs ! i) = Some a" "k = key a"
      "r = row i a" and vs: "vs = concat (map writes (enumerate (Suc i) (drop (Suc i) xs)))" by auto
    have "key a' \<noteq> key a" if j: "i < j" "j < length xs" "entry (xs ! j) = Some a'" for j a'
    proof -
      have "xs ! j \<in> set (drop (Suc i) xs)"
        using j by (auto simp: in_set_conv_nth intro!: exI [of _ "j - Suc i"])
      then have "a' \<in> set (List.map_filter entry (drop (Suc i) xs))"
        using j(3) by (force simp: map_filter_def)
      then have "key a' \<in> fst ` set vs" unfolding vs writes_keys by simp
      with fresh ia(3) show ?thesis by metis
    qed
    with ia show ?thesis by blast
  qed
  from ok keys last show ?thesis unfolding writes_keys by blast
qed

end

section \<open>Keyed writes\<close>

text \<open>
  The looser contract: an element writes any number of rows, each under the key its \<open>rowKey\<close> reads off
  it.  What is left is the last row written for each key.
\<close>

locale keyed_writes =
  fixes step :: "'x \<Rightarrow> ('k::linorder \<times> 'v) list res"
    and good :: "'x \<Rightarrow> bool"
    and out :: "'x \<Rightarrow> 'v list"
    and rowKey :: "'v \<Rightarrow> 'k"
  assumes step_out: "good x \<Longrightarrow> step x = Ok (map (\<lambda>r. (rowKey r, r)) (out x))"
begin

lemma collect_eq:
  assumes "\<forall>x \<in> set xs. good x"
  shows "collectRows step xs
    = Ok (sortedMapValues (putAll gmEmpty (map (\<lambda>r. (rowKey r, r)) (concat (map out xs)))))"
proof -
  have "collectRows step xs = Ok (sortedMapValues (putAll gmEmpty
      (concat (map (\<lambda>x. map (\<lambda>r. (rowKey r, r)) (out x)) xs))))"
    using assms step_out by (intro collectRows_total) auto
  moreover have "concat (map (\<lambda>x. map (\<lambda>r. (rowKey r, r)) (out x)) xs)
      = map (\<lambda>r. (rowKey r, r)) (concat (map out xs))"
    by (induction xs) auto
  ultimately show ?thesis by simp
qed

lemma last_writes:
  assumes "\<forall>x \<in> set xs. good x"
  shows "\<exists>rows. collectRows step xs = Ok rows
    \<and> map rowKey rows = sorted_list_of_set (rowKey ` set (concat (map out xs)))
    \<and> (\<forall>r \<in> set rows. \<exists>us vs. concat (map out xs) = us @ r # vs \<and> (\<forall>r' \<in> set vs. rowKey r' \<noteq> rowKey r))"
proof -
  let ?ws = "concat (map out xs)"
  let ?kvs = "map (\<lambda>r. (rowKey r, r)) ?ws"
  let ?rows = "sortedMapValues (putAll gmEmpty ?kvs)"
  have "map rowKey ?rows = sorted_list_of_set (fst ` set ?kvs)"
    unfolding putAll_def by (rule gm.rows_sorted_by_key) auto
  then have keys: "map rowKey ?rows = sorted_list_of_set (rowKey ` set ?ws)" by (simp add: image_image)
  have "\<exists>us vs. ?ws = us @ r # vs \<and> (\<forall>r' \<in> set vs. rowKey r' \<noteq> rowKey r)" if r: "r \<in> set ?rows" for r
  proof -
    obtain k us vs where "?kvs = us @ (k, r) # vs" and fresh: "k \<notin> fst ` set vs"
      using gm.rows_last_write [OF r [unfolded putAll_def]] by blast
    then obtain us' vs' where "?ws = us' @ r # vs'" "k = rowKey r" "vs = map (\<lambda>r. (rowKey r, r)) vs'"
      by (auto simp: map_eq_append_conv map_eq_Cons_conv)
    with fresh have "rowKey r \<notin> rowKey ` set vs'" by (simp add: image_image)
    then have "\<forall>r' \<in> set vs'. rowKey r' \<noteq> rowKey r" by (auto simp: image_iff)
    with \<open>?ws = us' @ r # vs'\<close> show ?thesis by blast
  qed
  with keys show ?thesis using collect_eq [OF assms] by blast
qed

lemma rows_written:
  assumes "\<forall>x \<in> set xs. good x" "collectRows step xs = Ok rows"
  shows "set rows \<subseteq> set (concat (map out xs))"
    "rowKey ` set rows = rowKey ` set (concat (map out xs))"
    "sorted (map rowKey rows) \<and> distinct (map rowKey rows)"
proof -
  obtain rows' where rows': "collectRows step xs = Ok rows'"
    and keys: "map rowKey rows' = sorted_list_of_set (rowKey ` set (concat (map out xs)))"
    and writes: "\<forall>r \<in> set rows'. \<exists>us vs. concat (map out xs) = us @ r # vs \<and> (\<forall>r' \<in> set vs. rowKey r' \<noteq> rowKey r)"
    using last_writes [OF assms(1)] by blast
  from rows' assms(2) have eq: "rows' = rows" by simp
  show "set rows \<subseteq> set (concat (map out xs))"
  proof
    fix r assume "r \<in> set rows"
    then obtain us vs where "concat (map out xs) = us @ r # vs" using writes eq by blast
    then show "r \<in> set (concat (map out xs))" by (metis in_set_conv_decomp)
  qed
  from keys eq have "set (map rowKey rows) = rowKey ` set (concat (map out xs))" by simp
  then show "rowKey ` set rows = rowKey ` set (concat (map out xs))" by simp
  from keys eq show "sorted (map rowKey rows) \<and> distinct (map rowKey rows)" by simp
qed

lemma last_write_rows:
  assumes "\<forall>x \<in> set xs. good x" "collectRows step xs = Ok rows"
    and "concat (map out xs) = us @ r # vs" "\<forall>r' \<in> set vs. rowKey r' \<noteq> rowKey r"
  shows "r \<in> set rows"
proof -
  let ?ws = "concat (map out xs)"
  obtain rows' where "collectRows step xs = Ok rows'"
    and writes: "\<forall>r \<in> set rows'. \<exists>us vs. ?ws = us @ r # vs \<and> (\<forall>r' \<in> set vs. rowKey r' \<noteq> rowKey r)"
    using last_writes [OF assms(1)] by blast
  then have eq: "rows' = rows" using assms(2) by simp
  have "rowKey r \<in> rowKey ` set rows" using rows_written(2) [OF assms(1,2)] assms(3) by simp
  then obtain r' where r': "r' \<in> set rows" "rowKey r' = rowKey r" by auto
  with writes eq obtain us' vs' where d: "?ws = us' @ r' # vs'" "\<forall>x \<in> set vs'. rowKey x \<noteq> rowKey r" by metis
  have "us @ r # vs = us' @ r' # vs'" using assms(3) d(1) by simp
  moreover have "r = r'"
  proof -
    from \<open>us @ r # vs = us' @ r' # vs'\<close> obtain zs where
      "us = us' @ zs \<and> zs @ r # vs = r' # vs' \<or> us' = us @ zs \<and> r # vs = zs @ r' # vs'"
      by (metis append_eq_append_conv2)
    then show ?thesis
    proof
      assume a: "us = us' @ zs \<and> zs @ r # vs = r' # vs'"
      show ?thesis
      proof (cases zs)
        case Nil
        then show ?thesis using a by simp
      next
        case (Cons z zs')
        then have "r \<in> set vs'" using a by (metis append_Cons in_set_conv_decomp list.inject)
        then show ?thesis using d(2) by blast
      qed
    next
      assume a: "us' = us @ zs \<and> r # vs = zs @ r' # vs'"
      show ?thesis
      proof (cases zs)
        case Nil
        then show ?thesis using a by simp
      next
        case (Cons z zs')
        then have "r' \<in> set vs" using a by simp
        then show ?thesis using assms(4) r'(2) by blast
      qed
    qed
  qed
  ultimately show ?thesis using r'(1) by simp
qed

end

text \<open>
  A loop body that never ends in an error value and writes each row under its own key meets the contract
  wherever it does not panic.
\<close>

definition writtenRows :: "('x \<Rightarrow> ('k \<times> 'v) list res) \<Rightarrow> 'x \<Rightarrow> 'v list" where
  "writtenRows step x = (case okOpt (step x) of Some kvs \<Rightarrow> map snd kvs | None \<Rightarrow> [])"

lemma keyed_writesI:
  assumes "\<And>x e. step x \<noteq> Err e" "\<And>x kvs k r. step x = Ok kvs \<Longrightarrow> (k, r) \<in> set kvs \<Longrightarrow> k = rowKey r"
  shows "keyed_writes step (\<lambda>x. step x \<noteq> Panic) (writtenRows step) rowKey"
proof
  fix x assume "step x \<noteq> Panic"
  then obtain kvs where kvs: "step x = Ok kvs" using assms(1) by (cases "step x") auto
  then have "map (\<lambda>kv. (rowKey (snd kv), snd kv)) kvs = kvs"
    using assms(2) [OF kvs] by (intro map_idI) auto
  then show "step x = Ok (map (\<lambda>r. (rowKey r, r)) (writtenRows step x))"
    by (simp add: kvs writtenRows_def comp_def)
qed

end
