(* ===== verification/GoJson.thy ===== *)
theory GoJson
  imports GoStd Ordering "HOL-Library.Multiset"
begin

text \<open>
  The dynamically typed values (\<open>interface{}\<close>) the library builds, and the two ways the standard
  library renders them: \<open>fmt\<close>'s \<open>%v\<close> and \<open>encoding/json\<close>.

  A Go map value holds its bindings in iteration order (see \<^theory_text>\<open>Ordering\<close>); both renderers sort the
  keys first.  Every Go integer type is one constructor, because the renderers print them alike and no
  type switch of the library asks for an integer.  \<open>GEnum\<close> is a pointer to an XDR enum, a type
  with a \<open>String\<close> method: \<open>%v\<close> prints the name, JSON the number.
\<close>

datatype gval =
    GNil
  | GBool bool
  | GInt int
  | GEnum string int
  | GStr string
  | GArr "gval list"
  | GMap "(string \<times> gval) list"

definition sortPairs :: "(string \<times> 'a) list \<Rightarrow> (string \<times> 'a) list" where
  "sortPairs kvs = sort_key fst kvs"

fun joinWith :: "string \<Rightarrow> string list \<Rightarrow> string" where
  "joinWith sep [] = []"
| "joinWith sep [s] = s"
| "joinWith sep (s # ss) = s @ sep @ joinWith sep ss"

definition showBool :: "bool \<Rightarrow> string" where
  "showBool b = (if b then ''true'' else ''false'')"

section \<open>fmt.Sprintf with the verb \<open>%v\<close>\<close>

fun fmtV :: "gval \<Rightarrow> string" where
  "fmtV GNil = ''<nil>''"
| "fmtV (GBool b) = showBool b"
| "fmtV (GInt i) = showInt i"
| "fmtV (GEnum name n) = name"
| "fmtV (GStr s) = s"
| "fmtV (GArr vs) = ''['' @ joinWith '' '' (map fmtV vs) @ '']''"
| "fmtV (GMap kvs) = ''map['' @ joinWith '' '' (map (\<lambda>(k, s). k @ '':'' @ s)
     (sortPairs (map (\<lambda>(k, v). (k, fmtV v)) kvs))) @ '']''"

section \<open>encoding/json\<close>

text \<open>The escapes of \<open>json.Marshal\<close> with HTML escaping on, its default.\<close>

definition jsonEscByte :: "char \<Rightarrow> string" where
  "jsonEscByte c = (let b = of_char c :: nat in
     if b = 92 then [CHR 0x5C, CHR 0x5C]
     else if b = 34 then [CHR 0x5C, CHR 0x22]
     else if b = 8 then CHR 0x5C # ''b'' else if b = 12 then CHR 0x5C # ''f''
     else if b = 10 then CHR 0x5C # ''n'' else if b = 13 then CHR 0x5C # ''r''
     else if b = 9 then CHR 0x5C # ''t''
     else if b < 32 \<or> b = 60 \<or> b = 62 \<or> b = 38
       then CHR 0x5C # ''u00'' @ [hexDigit (b div 16), hexDigit (b mod 16)]
     else [c])"

function jsonEscape :: "string \<Rightarrow> string" where
  "jsonEscape s = (case s of [] \<Rightarrow> []
     | c # cs \<Rightarrow>
        if (of_char c :: nat) < 128 then jsonEscByte c @ jsonEscape cs
        else if runeLen s = 0 then CHR 0x5C # ''ufffd'' @ jsonEscape cs
        else if take 3 s = [CHR 0xE2, CHR 0x80, CHR 0xA8]
          then CHR 0x5C # ''u2028'' @ jsonEscape (drop 3 s)
        else if take 3 s = [CHR 0xE2, CHR 0x80, CHR 0xA9]
          then CHR 0x5C # ''u2029'' @ jsonEscape (drop 3 s)
        else take (runeLen s) s @ jsonEscape (drop (runeLen s) s))"
  by pat_completeness auto
termination
  by (relation "measure length") (auto simp del: runeLen.simps)

declare jsonEscape.simps [simp del]

definition jsonString :: "string \<Rightarrow> string" where
  "jsonString s = [CHR 0x22] @ jsonEscape s @ [CHR 0x22]"

text \<open>An object or an array from rendered members, in the order given.\<close>

definition jsonObject :: "(string \<times> string) list \<Rightarrow> string" where
  "jsonObject ms = ''{'' @ joinWith '','' (map (\<lambda>(k, s). jsonString k @ '':'' @ s) ms) @ ''}''"

definition jsonArray :: "string list \<Rightarrow> string" where
  "jsonArray ss = ''['' @ joinWith '','' ss @ '']''"

text \<open>
  \<open>json.Marshal\<close> of the values above never returns an error: they hold no channel, function,
  NaN or cycle.
\<close>

fun jsonMarshal :: "gval \<Rightarrow> string" where
  "jsonMarshal GNil = ''null''"
| "jsonMarshal (GBool b) = showBool b"
| "jsonMarshal (GInt i) = showInt i"
| "jsonMarshal (GEnum name n) = showInt n"
| "jsonMarshal (GStr s) = jsonString s"
| "jsonMarshal (GArr vs) = jsonArray (map jsonMarshal vs)"
| "jsonMarshal (GMap kvs) = jsonObject (sortPairs (map (\<lambda>(k, v). (k, jsonMarshal v)) kvs))"

section \<open>Iteration order does not show\<close>

text \<open>\<open>normV\<close> forgets the iteration order of every map in a value.\<close>

fun normV :: "gval \<Rightarrow> gval" where
  "normV (GArr vs) = GArr (map normV vs)"
| "normV (GMap kvs) = GMap (sortPairs (map (\<lambda>(k, v). (k, normV v)) kvs))"
| "normV GNil = GNil"
| "normV (GBool b) = GBool b"
| "normV (GInt i) = GInt i"
| "normV (GEnum name n) = GEnum name n"
| "normV (GStr s) = GStr s"

lemma mset_sortPairs [simp]: "mset (sortPairs kvs) = mset kvs"
  by (simp add: sortPairs_def)

lemma set_sortPairs [simp]: "set (sortPairs kvs) = set kvs"
  by (simp add: sortPairs_def)

lemma length_sortPairs [simp]: "length (sortPairs kvs) = length kvs"
  by (simp add: sortPairs_def)

lemma sortPairs_map_snd:
  "sortPairs (map (\<lambda>(k, v). (k, f v)) kvs) = map (\<lambda>(k, v). (k, f v)) (sortPairs kvs)"
proof -
  have ins: "insort_key fst (k, f v) (map (\<lambda>(k, v). (k, f v)) ys)
      = map (\<lambda>(k, v). (k, f v)) (insort_key fst (k, v) ys)" for k v ys
    by (induction ys) auto
  show ?thesis
    by (induction kvs) (auto simp: sortPairs_def ins)
qed

lemma sortPairs_sorted_id: "sorted (map fst kvs) \<Longrightarrow> sortPairs kvs = kvs"
  by (simp add: sortPairs_def sort_key_id_if_sorted)

lemma sorted_sortPairs [simp]: "sorted (map fst (sortPairs kvs))"
  unfolding sortPairs_def by (rule sorted_sort_key)

lemma sortPairs_idem [simp]: "sortPairs (sortPairs kvs) = sortPairs kvs"
  by (rule sortPairs_sorted_id) simp

lemma sortPairs_perm:
  assumes "distinct (map fst kvs)" "mset kvs = mset kvs'"
  shows "sortPairs kvs = sortPairs kvs'"
proof -
  have "sort_key fst kvs = sort_key fst kvs'"
    using assms by (intro sort_key_inj_key_eq) (auto simp: distinct_map)
  then show ?thesis by (simp add: sortPairs_def)
qed

lemma sortPairs_map_sortPairs:
  "sortPairs (map (\<lambda>(k, v). (k, f v)) (sortPairs kvs)) = sortPairs (map (\<lambda>(k, v). (k, f v)) kvs)"
  by (simp add: sortPairs_map_snd)

lemma sortPairs_render_norm:
  assumes "\<And>k v. (k, v) \<in> set kvs \<Longrightarrow> f (normV v) = f v"
  shows "sortPairs (map (\<lambda>(k, v). (k, f v)) (sortPairs (map (\<lambda>(k, v). (k, normV v)) kvs)))
       = sortPairs (map (\<lambda>(k, v). (k, f v)) kvs)"
proof -
  have "map (\<lambda>(k, v). (k, f v)) (map (\<lambda>(k, v). (k, normV v)) kvs) = map (\<lambda>(k, v). (k, f v)) kvs"
    using assms by auto
  then show ?thesis by (simp only: sortPairs_map_sortPairs)
qed

lemma fmtV_normV [simp]: "fmtV (normV v) = fmtV v"
proof (induction v rule: normV.induct)
  case (2 kvs)
  then show ?case
    by (simp only: normV.simps fmtV.simps sortPairs_render_norm)
qed (auto simp: comp_def cong: map_cong)

lemma jsonMarshal_normV [simp]: "jsonMarshal (normV v) = jsonMarshal v"
proof (induction v rule: normV.induct)
  case (2 kvs)
  then show ?case
    by (simp only: normV.simps jsonMarshal.simps sortPairs_render_norm)
qed (auto simp: comp_def cong: map_cong)

text \<open>
  \<open>reorder g g'\<close>: the two values are the same up to the order their maps are iterated in.
  \<open>gWf g\<close>: every map in the value binds a key once.
\<close>

inductive reorder :: "gval \<Rightarrow> gval \<Rightarrow> bool" where
  reorder_refl: "reorder g g"
| reorder_arr: "list_all2 reorder gs gs' \<Longrightarrow> reorder (GArr gs) (GArr gs')"
| reorder_map: "mset kvs = mset kvs' \<Longrightarrow>
    list_all2 (\<lambda>kv kv'. fst kv = fst kv' \<and> reorder (snd kv) (snd kv')) kvs' kvs'' \<Longrightarrow>
    reorder (GMap kvs) (GMap kvs'')"

lemma gval_pair_size [termination_simp]:
  "kv \<in> set kvs \<Longrightarrow> size (snd kv) < Suc (size_list (size_prod size size) kvs)"
  by (induction kvs) auto

fun gWf :: "gval \<Rightarrow> bool" where
  "gWf (GArr vs) \<longleftrightarrow> (\<forall>v \<in> set vs. gWf v)"
| "gWf (GMap kvs) \<longleftrightarrow> gmInv kvs \<and> (\<forall>kv \<in> set kvs. gWf (snd kv))"
| "gWf g \<longleftrightarrow> True"

lemma gWf_put:
  "\<forall>kv \<in> set m. gWf (snd kv) \<Longrightarrow> gWf v \<Longrightarrow> \<forall>kv \<in> set (gmPut k v m). gWf (snd kv)"
  by (induction m) (auto simp: gmPut_def)

lemma gWf_GMap_put: "gWf (GMap m) \<Longrightarrow> gWf v \<Longrightarrow> gWf (GMap (gmPut k v m))"
  using gWf_put [of m v k] by simp

lemma normV_reorder: "reorder g g' \<Longrightarrow> gWf g \<Longrightarrow> normV g = normV g'"
proof (induction rule: reorder.induct)
  case (reorder_refl g)
  then show ?case by simp
next
  case (reorder_arr gs gs')
  then have "list_all2 (\<lambda>g g'. normV g = normV g') gs gs'"
    by (auto simp: list_all2_conv_all_nth)
  then have "map normV gs = map normV gs'" by (simp add: list_all2_conv_all_nth list_eq_iff_nth_eq)
  then show ?case by simp
next
  case (reorder_map kvs kvs' kvs'')
  let ?n = "\<lambda>(k, v). (k, normV v)"
  have wf: "gWf v" if "(k, v) \<in> set kvs'" for k v
    using reorder_map.prems that mset_eq_setD [OF reorder_map.hyps] by auto
  have "list_all2 (\<lambda>kv kv'. ?n kv = ?n kv') kvs' kvs''"
    using reorder_map.IH by (rule list.rel_mono_strong) (auto dest: wf split: prod.splits)
  then have "map ?n kvs' = map ?n kvs''"
    by (simp add: list_all2_conv_all_nth list_eq_iff_nth_eq)
  moreover have "sortPairs (map ?n kvs) = sortPairs (map ?n kvs')"
  proof (rule sortPairs_perm)
    have "map fst (map ?n kvs) = map fst kvs" by auto
    then show "distinct (map fst (map ?n kvs))" using reorder_map.prems by (simp only: gmInv_def gWf.simps)
    show "mset (map ?n kvs) = mset (map ?n kvs')"
      by (simp only: mset_map reorder_map.hyps)
  qed
  ultimately show ?case by simp
qed

lemma render_reorder:
  assumes "reorder g g'" "gWf g"
  shows "fmtV g = fmtV g'" "jsonMarshal g = jsonMarshal g'"
  using normV_reorder [OF assms] fmtV_normV jsonMarshal_normV by metis+

lemma reorder_gWf: "reorder g g' \<Longrightarrow> gWf g \<Longrightarrow> gWf g'"
proof (induction rule: reorder.induct)
  case (reorder_arr gs gs')
  then show ?case by (fastforce simp: list_all2_conv_all_nth in_set_conv_nth)
next
  case (reorder_map kvs kvs' kvs'')
  have keys: "map fst kvs'' = map fst kvs'"
    using reorder_map.IH by (auto simp: list_all2_conv_all_nth list_eq_iff_nth_eq)
  have "distinct (map fst kvs')"
    using reorder_map.prems reorder_map.hyps by (metis gWf.simps(2) gmInv_def mset_eq_imp_distinct_iff mset_map)
  moreover have "\<forall>kv \<in> set kvs''. gWf (snd kv)"
    using reorder_map.IH reorder_map.prems mset_eq_setD [OF reorder_map.hyps]
    by (fastforce simp: list_all2_conv_all_nth in_set_conv_nth)
  ultimately show ?case by (simp add: gmInv_def keys)
qed simp

lemma map_of_sortPairs:
  assumes "distinct (map fst kvs)"
  shows "map_of (sortPairs kvs) = map_of kvs"
proof -
  have "mset (sortPairs kvs) = mset kvs" by (simp add: sortPairs_def)
  then have "mset (map fst (sortPairs kvs)) = mset (map fst kvs)" "set (sortPairs kvs) = set kvs"
    by (metis mset_map, metis mset_eq_setD)
  moreover from this(1) have "distinct (map fst (sortPairs kvs))"
    using assms by (metis mset_eq_imp_distinct_iff)
  ultimately show ?thesis using assms by (intro map_of_inject_set [THEN iffD2])
qed

end
