(* ===== verification/Xdr.thy ===== *)
theory Xdr
  imports GoJson
begin

text \<open>
  The XDR values of ledger entries and contracts.  The XDR types are those of the Stellar protocol, one
  constructor per union arm and a last constructor for a discriminant the code does not know; where the
  source checks an arm pointer for nil, the arm is an \<open>option\<close>.  Byte arrays are
  \<^typ>\<open>byte list\<close>; their fixed length is a hypothesis where a property needs it.
\<close>

type_synonym hash = "byte list"
type_synonym account_id = hash

section \<open>Contract values\<close>

text \<open>\<open>xdr.ClaimableBalanceId\<close>: one arm today.  The arm pointer is dereferenced unchecked.\<close>

datatype cb_id = CbV0 "hash option" | CbOther i32

datatype sc_address =
    AddrAccount "account_id option"
  | AddrContract "hash option"
  | AddrMuxed "(hash \<times> u64) option"  \<comment> \<open>Ed25519 key and id\<close>
  | AddrClaimableBalance "cb_id option"
  | AddrLiquidityPool "hash option"
  | AddrOther i32

datatype sc_error_type =
    SceContract | SceWasmVm | SceContext | SceStorage | SceObject | SceCrypto | SceEvents
  | SceBudget | SceValue | SceAuth | SceOther i32

record sc_error =
  se_Type :: sc_error_type
  se_ContractCode :: "u32 option"
  se_Code :: "i32 option"

datatype executable =
    ExecWasm hash
  | ExecStellarAsset
  | ExecExternalRef sc_address string  \<comment> \<open>owner and tag (CAP-0085)\<close>
  | ExecOther i32

text \<open>
  \<open>xdr.ScVal\<close>.  The arm of every type but two is a pointer the code checks for nil.  A vec or a
  map is a pointer to a pointer: the outer one is checked, the inner one is dereferenced.
\<close>

datatype sc_val =
    ScvBool "bool option"
  | ScvVoid
  | ScvError "sc_error option"
  | ScvU32 "u32 option"
  | ScvI32 "i32 option"
  | ScvU64 "u64 option"
  | ScvI64 "i64 option"
  | ScvTimepoint "u64 option"
  | ScvDuration "u64 option"
  | ScvU128 "(u64 \<times> u64) option"  \<comment> \<open>Hi, Lo\<close>
  | ScvI128 "(i64 \<times> u64) option"
  | ScvU256 "(u64 \<times> u64 \<times> u64 \<times> u64) option"  \<comment> \<open>HiHi, HiLo, LoHi, LoLo\<close>
  | ScvI256 "(i64 \<times> u64 \<times> u64 \<times> u64) option"
  | ScvBytes "byte list option"
  | ScvString "string option"
  | ScvSymbol "string option"
  | ScvVec "sc_val list option option"
  | ScvMap "(sc_val \<times> sc_val) list option option"
  | ScvAddress "sc_address option"
  | ScvContractInstance "(executable \<times> (sc_val \<times> sc_val) list option) option"
  | ScvLedgerKeyContractInstance
  | ScvLedgerKeyNonce "i64 option"
  | ScvExecutableTag "string option"
  | ScvOther i32

datatype scv_type =
    TBool | TVoid | TError | TU32 | TI32 | TU64 | TI64 | TTimepoint | TDuration | TU128 | TI128
  | TU256 | TI256 | TBytes | TString | TSymbol | TVec | TMap | TAddress | TContractInstance
  | TLedgerKeyContractInstance | TLedgerKeyNonce | TExecutableTag | TOther i32

text \<open>The discriminant of a value (\<open>val.Type\<close>).\<close>

fun scvType :: "sc_val \<Rightarrow> scv_type" where
  "scvType (ScvBool _) = TBool" | "scvType ScvVoid = TVoid" | "scvType (ScvError _) = TError"
| "scvType (ScvU32 _) = TU32" | "scvType (ScvI32 _) = TI32" | "scvType (ScvU64 _) = TU64"
| "scvType (ScvI64 _) = TI64" | "scvType (ScvTimepoint _) = TTimepoint"
| "scvType (ScvDuration _) = TDuration" | "scvType (ScvU128 _) = TU128"
| "scvType (ScvI128 _) = TI128" | "scvType (ScvU256 _) = TU256" | "scvType (ScvI256 _) = TI256"
| "scvType (ScvBytes _) = TBytes" | "scvType (ScvString _) = TString"
| "scvType (ScvSymbol _) = TSymbol" | "scvType (ScvVec _) = TVec" | "scvType (ScvMap _) = TMap"
| "scvType (ScvAddress _) = TAddress" | "scvType (ScvContractInstance _) = TContractInstance"
| "scvType ScvLedgerKeyContractInstance = TLedgerKeyContractInstance"
| "scvType (ScvLedgerKeyNonce _) = TLedgerKeyNonce"
| "scvType (ScvExecutableTag _) = TExecutableTag" | "scvType (ScvOther n) = TOther n"

section \<open>Contract events\<close>

datatype event_type = EvSystem | EvContract | EvDiagnostic | EvOther i32

text \<open>
  \<open>xdr.ContractEvent\<close>: the body is a union with the one arm V0 (topics and data), whose pointer
  some callers check.
\<close>

record contract_event =
  ce_ContractId :: "hash option"
  ce_Type :: event_type
  ce_BodyV :: i32
  ce_BodyV0 :: "(sc_val list \<times> sc_val) option"

record diagnostic_event =
  de_InSuccessfulContractCall :: bool
  de_Event :: contract_event

text \<open>What \<open>tx.GetTransactionEvents()\<close> returns: three lists, one of them per operation.\<close>

record tx_events =
  te_DiagnosticEvents :: "diagnostic_event list"
  te_OperationEvents :: "contract_event list list"
  te_TransactionEvents :: "contract_event list"

section \<open>Ledger entries and their changes\<close>

datatype asset =
    AssetNative
  | Asset4 "byte list" account_id
  | Asset12 "byte list" account_id
  | AssetPoolShare
  | AssetOther i32

datatype tl_asset =
    TlNative
  | Tl4 "byte list" account_id
  | Tl12 "byte list" account_id
  | TlPoolShare "hash option"
  | TlOther i32

datatype signer_key = SkEd25519 hash | SkPreAuthTx hash | SkHashX hash | SkPayload hash "byte list"

record account_ext_v2 =
  x2_NumSponsored :: u32
  x2_NumSponsoring :: u32
  x2_SignerSponsoringIDs :: "account_id option list"

record account_ext_v1 =
  x1_Buying :: i64
  x1_Selling :: i64
  x1_V2 :: "account_ext_v2 option"

text \<open>
  \<open>ac_SeqLedger\<close> and \<open>ac_SeqTime\<close> are the results of the SDK's accessors of the same
  name, which walk the extension chain to V3.
\<close>

record account_entry =
  ac_AccountId :: account_id
  ac_Balance :: i64
  ac_SeqNum :: i64
  ac_NumSubEntries :: u32
  ac_HomeDomain :: string
  ac_Thresholds :: "byte \<times> byte \<times> byte \<times> byte"
  ac_Flags :: u32
  ac_Signers :: "(signer_key \<times> u32) list"
  ac_Ext :: "account_ext_v1 option"
  ac_SeqLedger :: u32
  ac_SeqTime :: u64

record trustline_entry =
  tl_AccountId :: account_id
  tl_Asset :: tl_asset
  tl_Balance :: i64
  tl_Limit :: i64
  tl_Flags :: u32
  tl_Liabilities :: "(i64 \<times> i64) option"  \<comment> \<open>extension V1: buying, selling\<close>

record offer_entry =
  of_SellerId :: account_id
  of_OfferId :: i64
  of_Selling :: asset
  of_Buying :: asset
  of_Amount :: i64
  of_PriceN :: i32
  of_PriceD :: i32
  of_Flags :: u32

record data_entry =
  da_AccountId :: account_id
  da_Name :: string
  da_Value :: "byte list"

record claimable_balance_entry =
  cb_BalanceId :: cb_id
  cb_Claimants :: "account_id list"  \<comment> \<open>the destinations of the V0 claimants\<close>
  cb_Asset :: asset
  cb_Amount :: i64

record pool_params =
  pp_AssetA :: asset
  pp_AssetB :: asset
  pp_Fee :: i32
  pp_ReserveA :: i64
  pp_ReserveB :: i64
  pp_TotalPoolShares :: i64
  pp_TrustLineCount :: i64

datatype pool_body = PoolConstantProduct pool_params | PoolOther i32

record pool_entry =
  lp_Id :: hash
  lp_Body :: pool_body

datatype durability = DurTemporary | DurPersistent | DurOther i32

record contract_data_entry =
  cd_Contract :: sc_address
  cd_Key :: sc_val
  cd_Durability :: durability
  cd_Val :: sc_val

record contract_code_entry =
  co_ExtV :: i32
  co_ExtV1 :: bool  \<comment> \<open>the V1 arm pointer is set\<close>
  co_Hash :: hash
  co_Code :: "byte list"

record ledger_cost =
  lc_LedgerMaxDiskReadEntries :: u32
  lc_LedgerMaxDiskReadBytes :: u32
  lc_LedgerMaxWriteLedgerEntries :: u32
  lc_LedgerMaxWriteBytes :: u32
  lc_TxMaxDiskReadEntries :: u32
  lc_TxMaxDiskReadBytes :: u32
  lc_TxMaxWriteLedgerEntries :: u32
  lc_TxMaxWriteBytes :: u32

datatype config_setting =
    CfgContractMaxSizeBytes u32
  | CfgContractCompute i64 i64 i64 u32
      \<comment> \<open>LedgerMaxInstructions, TxMaxInstructions, FeeRatePerInstructionsIncrement, TxMemoryLimit\<close>
  | CfgContractLedgerCost ledger_cost
  | CfgContractLedgerCostExt u32  \<comment> \<open>TxMaxFootprintEntries\<close>
  | CfgOther i32

record ttl_entry =
  tt_KeyHash :: hash
  tt_LiveUntilLedgerSeq :: u32

datatype entry_data =
    DAccount account_entry
  | DTrustline trustline_entry
  | DOffer offer_entry
  | DData data_entry
  | DClaimableBalance claimable_balance_entry
  | DLiquidityPool pool_entry
  | DContractData contract_data_entry
  | DContractCode contract_code_entry
  | DConfigSetting config_setting
  | DTtl ttl_entry

datatype entry_type =
    EAccount | ETrustline | EOffer | EData | EClaimableBalance | ELiquidityPool | EContractData
  | EContractCode | EConfigSetting | ETtl

fun dataType :: "entry_data \<Rightarrow> entry_type" where
  "dataType (DAccount _) = EAccount" | "dataType (DTrustline _) = ETrustline"
| "dataType (DOffer _) = EOffer" | "dataType (DData _) = EData"
| "dataType (DClaimableBalance _) = EClaimableBalance"
| "dataType (DLiquidityPool _) = ELiquidityPool" | "dataType (DContractData _) = EContractData"
| "dataType (DContractCode _) = EContractCode" | "dataType (DConfigSetting _) = EConfigSetting"
| "dataType (DTtl _) = ETtl"

text \<open>\<open>le_Sponsor\<close> is the result of the SDK's \<open>SponsoringID()\<close>.\<close>

record ledger_entry =
  le_LastModified :: u32
  le_Data :: entry_data
  le_Sponsor :: "account_id option"

datatype ledger_key =
    KeyContractData "(sc_address \<times> sc_val \<times> durability) option"
  | KeyContractCode "hash option"
  | KeyTtl hash
  | KeyOther entry_type

fun keyType :: "ledger_key \<Rightarrow> entry_type" where
  "keyType (KeyContractData _) = EContractData"
| "keyType (KeyContractCode _) = EContractCode"
| "keyType (KeyTtl _) = ETtl"
| "keyType (KeyOther t) = t"

datatype change_type = ChCreated | ChUpdated | ChRemoved | ChState | ChRestored

text \<open>\<open>ingest.Change\<close>: the entry before and after, nil where there is none.\<close>

record change =
  ch_Type :: entry_type
  ch_ChangeType :: change_type
  ch_Pre :: "ledger_entry option"
  ch_Post :: "ledger_entry option"

end
