(* ===== verification/XdrTx.thy ===== *)
theory XdrTx
  imports Xdr
begin

text \<open>
  The XDR values of transactions: operations, their results, authorizations, the transaction meta, and
  \<open>ingest.LedgerTransaction\<close> with the accessors of it the extractors call as fields.
\<close>

section \<open>Contract invocations and authorizations\<close>

record invoke_contract_args =
  ic_ContractAddress :: sc_address
  ic_FunctionName :: string
  ic_Args :: "sc_val list"

datatype auth_function = AfContractFn "invoke_contract_args option" | AfOther i32

datatype auth_invocation = AuthInv auth_function "auth_invocation list"

text \<open>The address-bearing arms hold the address of the credentials.\<close>

datatype credentials =
    CrSourceAccount
  | CrAddress sc_address
  | CrAddressV2 sc_address
  | CrAddressWithDelegates sc_address
  | CrOther i32

record auth_entry =
  au_Credentials :: credentials
  au_RootInvocation :: auth_invocation

datatype host_function =
    HfInvokeContract "invoke_contract_args option"
  | HfCreateContract executable
  | HfCreateContractV2 executable
  | HfOther i32

record invoke_op =
  ih_HostFunction :: host_function
  ih_Auth :: "auth_entry list"

section \<open>Operations\<close>

datatype muxed_account = MuxEd25519 hash | MuxMed25519 u64 hash

text \<open>\<open>MuxedAccount.ToAccountId()\<close>: the key without the id.\<close>

fun muxAccountId :: "muxed_account \<Rightarrow> account_id" where
  "muxAccountId (MuxEd25519 k) = k"
| "muxAccountId (MuxMed25519 i k) = k"

record price =
  pr_N :: i32
  pr_D :: i32

record set_options_op =
  so_InflationDest :: "account_id option"
  so_ClearFlags :: "u32 option"
  so_SetFlags :: "u32 option"
  so_MasterWeight :: "u32 option"
  so_LowThreshold :: "u32 option"
  so_MedThreshold :: "u32 option"
  so_HighThreshold :: "u32 option"
  so_HomeDomain :: "string option"
  so_Signer :: "(signer_key \<times> u32) option"

datatype change_trust_line = CtlAsset asset | CtlPoolShare

datatype asset_code = AssetCode4 "byte list" | AssetCode12 "byte list" | AssetCodeOther i32

datatype op_body =
    OpCreateAccount account_id i64  \<comment> \<open>Destination, StartingBalance\<close>
  | OpPayment muxed_account asset i64
  | OpPathPaymentStrictReceive asset i64 muxed_account asset i64
      \<comment> \<open>SendAsset, SendMax, Destination, DestAsset, DestAmount\<close>
  | OpManageSellOffer asset asset i64 price i64  \<comment> \<open>Selling, Buying, Amount, Price, OfferId\<close>
  | OpCreatePassiveSellOffer asset asset i64 price
  | OpSetOptions set_options_op
  | OpChangeTrust change_trust_line i64
  | OpAllowTrust account_id asset_code u32
  | OpAccountMerge muxed_account
  | OpInflation
  | OpManageData string "byte list option"
  | OpBumpSequence i64
  | OpManageBuyOffer asset asset i64 price i64  \<comment> \<open>Selling, Buying, BuyAmount, Price, OfferId\<close>
  | OpPathPaymentStrictSend asset i64 muxed_account asset i64
      \<comment> \<open>SendAsset, SendAmount, Destination, DestAsset, DestMin\<close>
  | OpCreateClaimableBalance asset i64 "account_id list"
  | OpClaimClaimableBalance cb_id
  | OpBeginSponsoringFutureReserves account_id
  | OpEndSponsoringFutureReserves
  | OpRevokeSponsorship
  | OpClawback asset muxed_account i64
  | OpClawbackClaimableBalance cb_id
  | OpSetTrustLineFlags account_id asset u32 u32  \<comment> \<open>Trustor, Asset, ClearFlags, SetFlags\<close>
  | OpLiquidityPoolDeposit hash i64 i64  \<comment> \<open>pool, MaxAmountA, MaxAmountB\<close>
  | OpLiquidityPoolWithdraw hash i64
  | OpInvokeHostFunction invoke_op
  | OpExtendFootprintTtl u32
  | OpRestoreFootprint
  | OpOther i32

record operation =
  op_SourceAccount :: "muxed_account option"
  op_Body :: op_body

section \<open>Operation results\<close>

text \<open>The seller is an account, an Ed25519 key, or a pool; then offer and amounts as in the XDR.\<close>

record claim_amounts =
  ca_AssetSold :: asset
  ca_AmountSold :: i64
  ca_AssetBought :: asset
  ca_AmountBought :: i64

datatype claim_atom =
    ClaimV0 hash i64 claim_amounts  \<comment> \<open>SellerEd25519, OfferId\<close>
  | ClaimOrderBook account_id i64 claim_amounts
  | ClaimLiquidityPool hash claim_amounts
  | ClaimOther i32

text \<open>
  A result of the listed types holds what the code reads of its success arm, none for another code: the
  offers claimed, with the results of the SDK's \<open>SendAmount()\<close> and \<open>DestAmount()\<close> of a path
  payment, the balance a merge moved, and the payouts of an inflation.
\<close>

datatype op_result_tr =
    TrManageSellOffer "claim_atom list option"
  | TrManageBuyOffer "claim_atom list option"
  | TrCreatePassiveSellOffer "claim_atom list option"
  | TrPathPaymentStrictReceive "(claim_atom list \<times> i64) option"
  | TrPathPaymentStrictSend "(claim_atom list \<times> i64) option"
  | TrAccountMerge "i64 option"
  | TrInflation "(account_id \<times> i64) list option"
  | TrOther i32

datatype op_result = OrInner op_result_tr | OrCode i32

section \<open>Transactions\<close>

datatype raw_change = LecCreated ledger_entry | LecOther change_type

record op_meta =
  om_Changes :: "raw_change list"
  om_Events :: "contract_event list"

text \<open>
  \<open>xdr.TransactionMeta\<close>: the Soroban meta of V3 (its events) and of V4, nil where there is none, each
  with the rent fee of its V1 extension, and the operation metas of both.
\<close>

datatype tx_meta =
    MetaV3 "(contract_event list \<times> i64 option) option" "op_meta list"
  | MetaV4 "i64 option option" "op_meta list"
  | MetaOther i32

datatype memo = MemoNone | MemoText string | MemoId u64 | MemoHash hash | MemoReturn hash | MemoOther i32

record soroban_data =
  sb_ReadOnly :: "ledger_key list"
  sb_ReadWrite :: "ledger_key list"
  sb_Instructions :: u32
  sb_DiskReadBytes :: u32
  sb_WriteBytes :: u32
  sb_ResourceFee :: i64

text \<open>
  A fee bump: the source of the inner V1 transaction, nil for another inner type, and the hash of the inner
  transaction under a network passphrase.
\<close>

record fee_bump =
  fb_Fee :: i64
  fb_FeeAccount :: muxed_account
  fb_InnerType :: i32
  fb_InnerV1 :: "muxed_account option"
  fb_InnerHash :: "string \<Rightarrow> hash res"

record preconditions_v2 =
  pc_LedgerBounds :: "(u32 \<times> u32) option"
  pc_MinSeqNum :: "i64 option"
  pc_MinSeqAge :: u64
  pc_ExtraSigners :: "signer_key list"

text \<open>
  The fields only the transactions table reads: the envelope accessors (which resolve a fee bump to its inner
  transaction), the result code's \<open>String()\<close>, and the base64 XDR of the four parts it stores.
\<close>

record tx_info =
  ti_Fee :: i64
  ti_FeeCharged :: i64
  ti_ResultCode :: string
  ti_SeqNum :: i64
  ti_Signatures :: "byte list list"
  ti_TimeBounds :: "(u64 \<times> u64) option"
  ti_Memo :: memo
  ti_Instructions :: "u32 option"
  ti_DiskReadBytes :: "u32 option"
  ti_WriteBytes :: "u32 option"
  ti_SorobanData :: "soroban_data option"
  ti_IsSoroban :: bool
  ti_FeeBump :: "fee_bump option"
  ti_Preconditions :: "preconditions_v2 option"
  ti_EnvelopeB64 :: "string res"
  ti_ResultB64 :: "string res"
  ti_MetaB64 :: "string res"
  ti_FeeChangesB64 :: "string res"

text \<open>\<open>ingest.LedgerTransaction\<close>; \<open>tx_OperationChanges\<close> is \<open>GetOperationChanges\<close>.\<close>

record ledger_tx =
  tx_Hash :: hash
  tx_Index :: u32
  tx_Successful :: bool
  tx_SourceAccount :: muxed_account
  tx_Operations :: "operation list"
  tx_OpResults :: "op_result list option"
  tx_Events :: "tx_events res"
  tx_DiagnosticEvents :: "diagnostic_event list res"
  tx_ContractEvents :: "contract_event list res"
  tx_Changes :: "change list res"
  tx_OperationChanges :: "nat \<Rightarrow> change list res"
  tx_Meta :: tx_meta
  tx_Info :: tx_info

end
