(* ===== verification/Sdk.thy ===== *)
theory Sdk
  imports XdrTx
begin

text \<open>
  The code of \<open>go-stellar-sdk\<close> is not part of the repository: \<open>sdk\<close> collects the
  functions of it the extractors call, and every definition that calls one takes the record as its
  first argument.
\<close>


datatype strkey_version = VAccountID | VContract | VMuxedAccount | VClaimableBalance | VLiquidityPool

text \<open>What \<open>contractevents.NewStellarAssetContractEvent\<close> recognises: parties and 128-bit amount.\<close>

datatype sac_kind =
    SacTransfer string string "i64 \<times> u64"
  | SacMint string "i64 \<times> u64"
  | SacClawback string "i64 \<times> u64"
  | SacBurn string "i64 \<times> u64"
  | SacOther

record sac_event =
  sv_Asset :: asset
  sv_Kind :: sac_kind

text \<open>
  The SDK functions of the model, by what the source calls them: \<open>strkey.Encode\<close>,
  \<open>AccountId.Address()\<close>, \<open>SignerKey.Address()\<close>, \<open>ScAddress.String()\<close>,
  \<open>amount.String\<close>, \<open>toid.New(..).ToInt64()\<close>, the \<open>String()\<close> methods of the XDR
  enums, the numbers of two enums that become columns, \<open>LedgerEntry.LedgerKey()\<close>, the
  \<open>MarshalBinary\<close> methods, the SAC recognisers, the asset conversions,
  \<open>AccountEntry.SignerSummary()\<close>, \<open>strkey.IsValidEd25519PublicKey\<close>, the base64 of the ledger key
  \<open>SetTtl\<close> makes, \<open>keypair.DefaultSignerWeight\<close>, and the accessors of a claim atom of an arm the model
  does not name.
\<close>

record sdk =
  strkeyEncode :: "strkey_version \<Rightarrow> byte list \<Rightarrow> string res"
  accountAddress :: "account_id \<Rightarrow> string"
  signerKeyAddress :: "signer_key \<Rightarrow> string"
  scAddressString :: "sc_address \<Rightarrow> string res"
  amountString :: "i64 \<Rightarrow> string"
  toidInt64 :: "i32 \<Rightarrow> i32 \<Rightarrow> i32 \<Rightarrow> i64 res"
  scvTypeString :: "scv_type \<Rightarrow> string"
  scErrorTypeString :: "sc_error_type \<Rightarrow> string"
  scErrorCodeString :: "i32 \<Rightarrow> string"
  scAddressTypeString :: "i32 \<Rightarrow> string"
  cbIdTypeString :: "i32 \<Rightarrow> string"
  executableTypeString :: "i32 \<Rightarrow> string"
  entryTypeString :: "entry_type \<Rightarrow> string"
  durabilityString :: "durability \<Rightarrow> string"
  entryTypeNum :: "entry_type \<Rightarrow> i32"
  configSettingNum :: "config_setting \<Rightarrow> i32"
  entryLedgerKey :: "ledger_entry \<Rightarrow> ledger_key res"
  marshalLedgerKey :: "ledger_key \<Rightarrow> byte list res"
  marshalScAddress :: "sc_address \<Rightarrow> byte list res"
  marshalScVal :: "sc_val \<Rightarrow> byte list res"
  marshalHash :: "hash \<Rightarrow> byte list res"
  marshalContractData :: "contract_data_entry \<Rightarrow> byte list res"
  marshalContractEvent :: "contract_event \<Rightarrow> byte list res"
  marshalConfigSetting :: "config_setting \<Rightarrow> byte list res"
  sacAsset :: "ledger_entry \<Rightarrow> string \<Rightarrow> asset option"
  sacBalance :: "ledger_entry \<Rightarrow> string \<Rightarrow> (hash \<times> int) option"
  assetCode :: "asset \<Rightarrow> string"
  assetIssuer :: "asset \<Rightarrow> string"
  claimOther :: "i32 \<Rightarrow> (account_id \<times> i64 \<times> claim_amounts) res"
  assetCanonical :: "asset \<Rightarrow> string"
  muxedAddress :: "muxed_account \<Rightarrow> string"
  opTypeNum :: "op_body \<Rightarrow> i32"
  opTypeString :: "op_body \<Rightarrow> string"
  opResultCodeString :: "op_result \<Rightarrow> string"
  hostFunctionTypeString :: "host_function \<Rightarrow> string"
  marshalHexCbId :: "cb_id \<Rightarrow> string res"
  changeTrustAsset :: "change_trust_line \<Rightarrow> asset res"
  assetExtract :: "asset \<Rightarrow> string \<times> string \<times> string"
  allowTrustAsset :: "asset_code \<Rightarrow> account_id \<Rightarrow> asset res"
  trustlineToAsset :: "tl_asset \<Rightarrow> asset res"
  defaultSignerWeight :: int
  signerSummary :: "account_entry \<Rightarrow> (string, i32) gomap"
  sacEvent :: "contract_event \<Rightarrow> string \<Rightarrow> sac_event res"
  amountString128 :: "i64 \<times> u64 \<Rightarrow> string"
  validEd25519 :: "string \<Rightarrow> bool"
  ttlKeyBase64 :: "hash \<Rightarrow> string res"
  marshalSorobanData :: "soroban_data \<Rightarrow> byte list res"

text \<open>
  What the properties ask of the SDK, each a documented behaviour of it.  \<open>strkey.Encode\<close>
  reports a bad payload as an error; its output is base32 text, so it has none of the punctuation the
  library puts between the parts of a key.
\<close>

definition strkeyNoPanic :: "sdk \<Rightarrow> bool" where
  "strkeyNoPanic E \<longleftrightarrow> (\<forall>v bs. strkeyEncode E v bs \<noteq> Panic)"

definition base32Char :: "char \<Rightarrow> bool" where
  "base32Char c \<longleftrightarrow> isDigit c \<or> (65 \<le> (of_char c :: nat) \<and> (of_char c :: nat) < 91)"

definition strkeyText :: "sdk \<Rightarrow> bool" where
  "strkeyText E \<longleftrightarrow> (\<forall>v bs s. strkeyEncode E v bs = Ok s \<longrightarrow> (\<forall>c \<in> set s. base32Char c))"

text \<open>
  A concrete SDK for the examples: addresses are a letter and hex digits instead of base32 with a
  checksum, and the other functions are constants or the obvious ones.
\<close>

definition demoAddr :: "string \<Rightarrow> byte list \<Rightarrow> string" where
  "demoAddr tag bs = tag @ concat (map (\<lambda>b. [char_of (65 + unat b div 16), char_of (65 + unat b mod 16)]) bs)"

definition demoTag :: "strkey_version \<Rightarrow> string" where
  "demoTag v = (case v of VAccountID \<Rightarrow> ''G'' | VContract \<Rightarrow> ''C'' | VMuxedAccount \<Rightarrow> ''M''
     | VClaimableBalance \<Rightarrow> ''B'' | VLiquidityPool \<Rightarrow> ''L'')"

definition demoSdk :: sdk where
  "demoSdk = \<lparr>strkeyEncode = (\<lambda>v bs. Ok (demoAddr (demoTag v) bs)),
    accountAddress = demoAddr ''G'', signerKeyAddress = (\<lambda>k. ''SIGNER''),
    scAddressString = (\<lambda>a. case a of AddrAccount (Some i) \<Rightarrow> Ok (demoAddr ''G'' i)
       | AddrContract (Some c) \<Rightarrow> Ok (demoAddr ''C'' c) | _ \<Rightarrow> Err ''unknown address''),
    amountString = sdec,
    toidInt64 = (\<lambda>l t p. if sint l < 0 \<or> sint t < 0 \<or> sint p < 0 then Panic
       else Ok (word_of_int (sint l * 2 ^ 32 + sint t * 2 ^ 12 + sint p))),
    scvTypeString = (\<lambda>t. ''ScvType''), scErrorTypeString = (\<lambda>t. ''ScErrorType''),
    scErrorCodeString = (\<lambda>c. ''ScErrorCode''), scAddressTypeString = sdec,
    cbIdTypeString = sdec, executableTypeString = sdec,
    entryTypeString = (\<lambda>t. ''LedgerEntryType''), durabilityString = (\<lambda>d. ''Durability''),
    entryTypeNum = (\<lambda>t. 0), configSettingNum = (\<lambda>c. 0),
    entryLedgerKey = (\<lambda>e. Ok (KeyOther (dataType (le_Data e)))),
    marshalLedgerKey = (\<lambda>k. Ok [0]), marshalScAddress = (\<lambda>a. Ok [1]),
    marshalScVal = (\<lambda>v. Ok [2]), marshalHash = Ok, marshalContractData = (\<lambda>d. Ok [3]),
    marshalContractEvent = (\<lambda>e. Ok [4]), marshalConfigSetting = (\<lambda>c. Ok [5]),
    sacAsset = (\<lambda>e p. None), sacBalance = (\<lambda>e p. None),
    assetCode = (\<lambda>a. ''CODE''), assetIssuer = (\<lambda>a. ''ISSUER''),
    claimOther = (\<lambda>n. Panic), assetCanonical = (\<lambda>a. ''asset''),
    muxedAddress = (\<lambda>m. demoAddr ''M'' (muxAccountId m)),
    opTypeNum = (\<lambda>b. 0), opTypeString = (\<lambda>b. ''OperationType''),
    opResultCodeString = (\<lambda>r. ''OperationResultCodeOpInner''),
    hostFunctionTypeString = (\<lambda>f. ''HostFunctionType''),
    marshalHexCbId = (\<lambda>c. Ok ''00''), changeTrustAsset = (\<lambda>l. Ok AssetNative),
    assetExtract = (\<lambda>a. case a of AssetNative \<Rightarrow> (''native'', [], [])
       | _ \<Rightarrow> (''credit_alphanum4'', ''CODE'', ''ISSUER'')),
    allowTrustAsset = (\<lambda>c i. Ok (Asset4 [] i)), trustlineToAsset = (\<lambda>t. Ok AssetNative),
    defaultSignerWeight = 1,
    signerSummary = (\<lambda>a. map (\<lambda>(k, w). (''SIGNER'', w)) (take 1 (ac_Signers a))),
    sacEvent = (\<lambda>e n. Err ''not a Stellar asset event''), amountString128 = (\<lambda>(hi, lo). udec lo),
    validEd25519 = (\<lambda>s. take 1 s = ''G''), ttlKeyBase64 = (\<lambda>h. Ok (hexEncode h)),
    marshalSorobanData = (\<lambda>d. Ok [6])\<rparr>"

lemma demoSdk_noPanic [simp]: "strkeyNoPanic demoSdk"
  by (simp add: strkeyNoPanic_def demoSdk_def)

lemma base32Char_nibble: "n < 16 \<Longrightarrow> base32Char (char_of (65 + n))" for n :: nat
  by (simp add: base32Char_def)

lemma demoSdk_text [simp]: "strkeyText demoSdk"
proof -
  have "base32Char c" if "c \<in> set (demoTag v)" for v c
    using that by (cases v) (auto simp: demoTag_def base32Char_def)
  moreover have "base32Char (char_of (65 + unat b div 16))" "base32Char (char_of (65 + unat b mod 16))"
    for b :: byte
    using byte_lt [of b] by (auto intro!: base32Char_nibble)
  ultimately show ?thesis
    by (auto simp: strkeyText_def demoSdk_def demoAddr_def)
qed

text \<open>A transaction with nothing in it, and a diagnostic event, to build examples from.\<close>

definition demoTxInfo :: tx_info where
  "demoTxInfo = \<lparr>ti_Fee = 100, ti_FeeCharged = 100, ti_ResultCode = ''TransactionResultCodeTxSuccess'', ti_SeqNum = 1,
     ti_Signatures = [], ti_TimeBounds = None, ti_Memo = MemoNone, ti_Instructions = None,
     ti_DiskReadBytes = None, ti_WriteBytes = None, ti_SorobanData = None, ti_IsSoroban = False,
     ti_FeeBump = None, ti_Preconditions = None, ti_EnvelopeB64 = Ok [], ti_ResultB64 = Ok [],
     ti_MetaB64 = Ok [], ti_FeeChangesB64 = Ok []\<rparr>"

definition demoTx :: ledger_tx where
  "demoTx = \<lparr>tx_Hash = [], tx_Index = 1, tx_Successful = True, tx_SourceAccount = MuxEd25519 [],
     tx_Operations = [], tx_OpResults = None, tx_Events = Err ''no events'',
     tx_DiagnosticEvents = Ok [], tx_ContractEvents = Ok [], tx_Changes = Ok [],
     tx_OperationChanges = (\<lambda>i. Ok []), tx_Meta = MetaOther 0, tx_Info = demoTxInfo\<rparr>"

definition demoEvent :: "hash \<Rightarrow> string \<Rightarrow> string \<Rightarrow> diagnostic_event" where
  "demoEvent contract topic name = \<lparr>de_InSuccessfulContractCall = True,
     de_Event = \<lparr>ce_ContractId = Some contract, ce_Type = EvDiagnostic, ce_BodyV = 0,
       ce_BodyV0 = Some ([ScvSymbol (Some topic), ScvSymbol (Some name)], ScvVoid)\<rparr>\<rparr>"

end
