(* ===== verification/ScVal.thy ===== *)
theory ScVal
  imports Sdk
begin

unbundle bit_operations_syntax

text \<open>
  \<open>scval_converter.go\<close>: Soroban values to JSON-like values, the address encodings, and the
  128- and 256-bit integers rendered through \<open>math/big\<close> (unbounded \<^typ>\<open>int\<close> here).
\<close>

section \<open>Wide integers\<close>

definition uint128ToString :: "u64 \<Rightarrow> u64 \<Rightarrow> string" where
  "uint128ToString hi lo = showInt (push_bit 64 (uint hi) + uint lo)"

text \<open>\<open>big.NewInt(0).SetUint64(uint64(hi))\<close>, less \<open>2^64\<close> when the top bit is set.\<close>

definition signedHigh :: "i64 \<Rightarrow> int" where
  "signedHigh hi = (if hi AND push_bit 63 1 \<noteq> 0 then uint hi - push_bit 64 1 else uint hi)"

definition int128ToString :: "i64 \<Rightarrow> u64 \<Rightarrow> string" where
  "int128ToString hi lo = showInt (push_bit 64 (signedHigh hi) + uint lo)"

definition uint256ToString :: "u64 \<times> u64 \<times> u64 \<times> u64 \<Rightarrow> string" where
  "uint256ToString v = (case v of (hiHi, hiLo, loHi, loLo) \<Rightarrow>
     showInt (0 + push_bit 192 (uint hiHi) + push_bit 128 (uint hiLo) + push_bit 64 (uint loHi)
       + uint loLo))"

definition uint256ToHex :: "u64 \<times> u64 \<times> u64 \<times> u64 \<Rightarrow> string" where
  "uint256ToHex v = (case v of (hiHi, hiLo, loHi, loLo) \<Rightarrow>
     hex16 hiHi @ hex16 hiLo @ hex16 loHi @ hex16 loLo)"

definition int256ToString :: "i64 \<times> u64 \<times> u64 \<times> u64 \<Rightarrow> string" where
  "int256ToString v = (case v of (hiHi, hiLo, loHi, loLo) \<Rightarrow>
     showInt (0 + push_bit 192 (signedHigh hiHi) + push_bit 128 (uint hiLo)
       + push_bit 64 (uint loHi) + uint loLo))"

text \<open>
  The source prints the signed high part with \<open>%016x\<close> too, and \<open>fmt\<close> prints a negative
  \<open>xdr.Int64\<close> as a minus sign followed by the digits of its magnitude, padded to width 16 with
  the sign counted.
\<close>

fun showHex :: "nat \<Rightarrow> string" where
  "showHex n = (if n < 16 then [hexDigit n] else showHex (n div 16) @ [hexDigit (n mod 16)])"

declare showHex.simps [simp del]

definition hex16Signed :: "i64 \<Rightarrow> string" where
  "hex16Signed w = (if 0 \<le> sint w then hex16 w
     else let ds = showHex (nat (- sint w)) in
       CHR ''-'' # replicate (15 - length ds) (CHR ''0'') @ ds)"

definition int256ToHex :: "i64 \<times> u64 \<times> u64 \<times> u64 \<Rightarrow> string" where
  "int256ToHex v = (case v of (hiHi, hiLo, loHi, loLo) \<Rightarrow>
     hex16Signed hiHi @ hex16 hiLo @ hex16 loHi @ hex16 loLo)"

section \<open>Addresses\<close>

definition gobj :: "(string \<times> gval) list \<Rightarrow> gval" where
  "gobj kvs = GMap kvs"

text \<open>The eight bytes of the id, most significant first: \<open>byte(id >> (56 - 8*i))\<close>.\<close>

definition muxedIdBytes :: "u64 \<Rightarrow> byte list" where
  "muxedIdBytes i = map (\<lambda>k. ucast (drop_bit (56 - 8 * k) i)) [0 ..< 8]"

definition muxedPayload :: "hash \<Rightarrow> u64 \<Rightarrow> byte list" where
  "muxedPayload ed i = take 32 ed @ replicate (32 - length ed) 0 @ muxedIdBytes i"

definition wrapAddr :: "string \<Rightarrow> string \<Rightarrow> (string \<times> gval) list \<Rightarrow> string res \<Rightarrow> gval res" where
  "wrapAddr kind what extra r = (case r of
     Ok s \<Rightarrow> Ok (gobj ([(''type'', GStr kind), (''address'', GStr s)] @ extra))
   | Err e \<Rightarrow> Err (''error encoding '' @ what @ '' address: '' @ e)
   | Panic \<Rightarrow> Panic)"

fun convertScAddress :: "sdk \<Rightarrow> sc_address \<Rightarrow> gval res" where
  "convertScAddress E (AddrAccount None) = Err ''ScAddressTypeAccount has nil AccountId''"
| "convertScAddress E (AddrAccount (Some a)) =
     wrapAddr ''account'' ''account'' [] (strkeyEncode E VAccountID a)"
| "convertScAddress E (AddrContract None) = Err ''ScAddressTypeContract has nil ContractId''"
| "convertScAddress E (AddrContract (Some c)) =
     wrapAddr ''contract'' ''contract'' [] (strkeyEncode E VContract c)"
| "convertScAddress E (AddrMuxed None) = Err ''ScAddressTypeMuxedAccount has nil MuxedAccount''"
| "convertScAddress E (AddrMuxed (Some (ed, i))) =
     wrapAddr ''muxed_account'' ''muxed'' [(''id'', GInt (uint i))]
       (strkeyEncode E VMuxedAccount (muxedPayload ed i))"
| "convertScAddress E (AddrClaimableBalance None) =
     Err ''ScAddressTypeClaimableBalance has nil ClaimableBalanceId''"
| "convertScAddress E (AddrClaimableBalance (Some (CbV0 None))) = Panic"
| "convertScAddress E (AddrClaimableBalance (Some (CbV0 (Some h)))) =
     wrapAddr ''claimable_balance'' ''claimable balance'' [] (strkeyEncode E VClaimableBalance h)"
| "convertScAddress E (AddrClaimableBalance (Some (CbOther n))) =
     Err (''unsupported ClaimableBalanceId type: '' @ cbIdTypeString E n)"
| "convertScAddress E (AddrLiquidityPool None) =
     Err ''ScAddressTypeLiquidityPool has nil LiquidityPoolId''"
| "convertScAddress E (AddrLiquidityPool (Some p)) =
     wrapAddr ''liquidity_pool'' ''liquidity pool'' [] (strkeyEncode E VLiquidityPool p)"
| "convertScAddress E (AddrOther n) = Err (''unknown ScAddress type: '' @ scAddressTypeString E n)"

section \<open>ConvertScValToJSON\<close>

fun unnil :: "string \<Rightarrow> 'a option \<Rightarrow> ('a \<Rightarrow> gval) \<Rightarrow> gval res" where
  "unnil name None f = Err (name @ '' has nil value'')"
| "unnil name (Some a) f = Ok (f a)"

text \<open>
  The element loop of a vec: an element that fails is replaced by a description of the failure; a
  panic inside an element ends the call.  The converted elements are given.
\<close>

definition vecItem :: "sdk \<Rightarrow> nat \<Rightarrow> sc_val \<Rightarrow> gval res \<Rightarrow> gval" where
  "vecItem E i v r = (case r of Ok g \<Rightarrow> g
   | Err e \<Rightarrow> gobj [(''index'', GInt (int i)), (''error'', GStr e),
       (''type'', GStr (scvTypeString E (scvType v)))]
   | Panic \<Rightarrow> GNil)"

fun vecItems :: "sdk \<Rightarrow> nat \<Rightarrow> (sc_val \<times> gval res) list \<Rightarrow> gval list res" where
  "vecItems E i [] = Ok []"
| "vecItems E i ((v, r) # rest) =
     (if isPanic r then Panic else mapR (Cons (vecItem E i v r)) (vecItems E (Suc i) rest))"

text \<open>The string a converted key is entered under.\<close>

definition entryKeyString :: "gval res \<Rightarrow> string" where
  "entryKeyString r = (case r of Ok k \<Rightarrow> fmtV k | Err e \<Rightarrow> ''error:'' @ e | Panic \<Rightarrow> [])"

definition entryValue :: "sdk \<Rightarrow> sc_val \<Rightarrow> gval res \<Rightarrow> gval" where
  "entryValue E v r = (case r of Ok g \<Rightarrow> g
   | Err e \<Rightarrow> gobj [(''error'', GStr e), (''type'', GStr (scvTypeString E (scvType v)))]
   | Panic \<Rightarrow> GNil)"

definition entryKey :: "gval res \<Rightarrow> gval" where
  "entryKey r = (case r of Ok g \<Rightarrow> g | Err e \<Rightarrow> GNil | Panic \<Rightarrow> GNil)"

text \<open>
  The entry loop of a map: \<open>result[keyStr] = value\<close> (a later entry with the same rendered key
  replaces an earlier one) and \<open>orderedKeys = append(orderedKeys, key)\<close>.
\<close>

fun mapItems :: "sdk \<Rightarrow> (string, gval) gomap \<Rightarrow> gval list \<Rightarrow>
    ((sc_val \<times> sc_val) \<times> gval res \<times> gval res) list \<Rightarrow> ((string, gval) gomap \<times> gval list) res" where
  "mapItems E m ks [] = Ok (m, ks)"
| "mapItems E m ks (((k, v), rk, rv) # rest) =
     (if isPanic rk \<or> isPanic rv then Panic
      else mapItems E (gmPut (entryKeyString rk) (entryValue E v rv) m) (ks @ [entryKey rk]) rest)"

lemma sc_val_pair_size [termination_simp]:
  "(k, v) \<in> set es \<Longrightarrow> size k < Suc (size_list (size_prod size size) es)"
  "(k, v) \<in> set es \<Longrightarrow> size v < Suc (size_list (size_prod size size) es)"
  by (induction es) auto

fun convertScVal :: "sdk \<Rightarrow> sc_val \<Rightarrow> gval res" where
  "convertScVal E (ScvBool b) = unnil ''ScvBool'' b GBool"
| "convertScVal E ScvVoid = Ok GNil"
| "convertScVal E (ScvU32 n) = unnil ''ScvU32'' n (\<lambda>w. GInt (uint w))"
| "convertScVal E (ScvI32 n) = unnil ''ScvI32'' n (\<lambda>w. GInt (sint w))"
| "convertScVal E (ScvU64 n) = unnil ''ScvU64'' n (\<lambda>w. GInt (uint w))"
| "convertScVal E (ScvI64 n) = unnil ''ScvI64'' n (\<lambda>w. GInt (sint w))"
| "convertScVal E (ScvTimepoint n) = unnil ''ScvTimepoint'' n
     (\<lambda>w. gobj [(''type'', GStr ''timepoint''), (''value'', GInt (uint w))])"
| "convertScVal E (ScvDuration n) = unnil ''ScvDuration'' n
     (\<lambda>w. gobj [(''type'', GStr ''duration''), (''value'', GInt (uint w))])"
| "convertScVal E (ScvU128 p) = unnil ''ScvU128'' p (\<lambda>(hi, lo). gobj [(''type'', GStr ''u128''),
     (''hi'', GInt (uint hi)), (''lo'', GInt (uint lo)), (''value'', GStr (uint128ToString hi lo))])"
| "convertScVal E (ScvI128 p) = unnil ''ScvI128'' p (\<lambda>(hi, lo). gobj [(''type'', GStr ''i128''),
     (''hi'', GInt (sint hi)), (''lo'', GInt (uint lo)), (''value'', GStr (int128ToString hi lo))])"
| "convertScVal E (ScvU256 p) = unnil ''ScvU256'' p (\<lambda>(hh, hl, lh, ll). gobj
     [(''type'', GStr ''u256''), (''hi_hi'', GInt (uint hh)), (''hi_lo'', GInt (uint hl)),
      (''lo_hi'', GInt (uint lh)), (''lo_lo'', GInt (uint ll)),
      (''value'', GStr (uint256ToString (hh, hl, lh, ll))),
      (''hex'', GStr (uint256ToHex (hh, hl, lh, ll)))])"
| "convertScVal E (ScvI256 p) = unnil ''ScvI256'' p (\<lambda>(hh, hl, lh, ll). gobj
     [(''type'', GStr ''i256''), (''hi_hi'', GInt (sint hh)), (''hi_lo'', GInt (uint hl)),
      (''lo_hi'', GInt (uint lh)), (''lo_lo'', GInt (uint ll)),
      (''value'', GStr (int256ToString (hh, hl, lh, ll))),
      (''hex'', GStr (int256ToHex (hh, hl, lh, ll)))])"
| "convertScVal E (ScvSymbol s) = unnil ''ScvSymbol'' s GStr"
| "convertScVal E (ScvString s) = unnil ''ScvString'' s GStr"
| "convertScVal E (ScvBytes bs) = unnil ''ScvBytes'' bs (\<lambda>b. gobj [(''type'', GStr ''bytes''),
     (''hex'', GStr (hexEncode b)), (''base64'', GStr (base64Encode b)),
     (''length'', GInt (int (length b)))])"
| "convertScVal E (ScvAddress None) = Err ''ScvAddress has nil value''"
| "convertScVal E (ScvAddress (Some a)) = convertScAddress E a"
| "convertScVal E (ScvVec None) = Err ''ScvVec has nil value''"
| "convertScVal E (ScvVec (Some None)) = Panic"
| "convertScVal E (ScvVec (Some (Some vs))) =
     mapR GArr (vecItems E 0 (map (\<lambda>v. (v, convertScVal E v)) vs))"
| "convertScVal E (ScvMap None) = Err ''ScvMap has nil value''"
| "convertScVal E (ScvMap (Some None)) = Panic"
| "convertScVal E (ScvMap (Some (Some es))) =
     mapR (\<lambda>(m, ks). gobj [(''type'', GStr ''map''), (''entries'', GMap m), (''keys'', GArr ks)])
       (mapItems E gmEmpty [] (map (\<lambda>(k, v). ((k, v), convertScVal E k, convertScVal E v)) es))"
| "convertScVal E (ScvContractInstance i) = unnil ''ScvContractInstance'' i
     (\<lambda>_. gobj [(''type'', GStr ''contract_instance''),
       (''value'', GStr ''complex_contract_instance'')])"
| "convertScVal E ScvLedgerKeyContractInstance =
     Ok (gobj [(''type'', GStr ''ledger_key_contract_instance'')])"
| "convertScVal E (ScvLedgerKeyNonce n) = unnil ''ScvLedgerKeyNonce'' n
     (\<lambda>w. gobj [(''type'', GStr ''ledger_key_nonce''), (''nonce'', GInt (sint w))])"
| "convertScVal E (ScvError e) = unnil ''ScvError'' e
     (\<lambda>x. gobj [(''type'', GStr ''error''),
       (''error_type'', GStr (scErrorTypeString E (se_Type x))),
       (''code'', case se_Code x of None \<Rightarrow> GNil
          | Some c \<Rightarrow> GEnum (scErrorCodeString E c) (sint c))])"
| "convertScVal E (ScvExecutableTag t) = unnil ''ScvExecutableTag'' t
     (\<lambda>s. gobj [(''type'', GStr ''executable_tag''), (''value'', GStr s)])"
| "convertScVal E (ScvOther n) = Err (''unsupported ScVal type: '' @ scvTypeString E (TOther n))"

section \<open>Wide integers are what their words say\<close>

lemma signedHigh_eq: "signedHigh hi = sint hi"
proof -
  have "push_bit 63 (1 :: 64 word) = 2 ^ 63" by (simp add: push_bit_eq_mult)
  then have b: "hi AND push_bit 63 1 \<noteq> 0 \<longleftrightarrow> bit hi 63"
    by (simp only: and_exp_eq_0_iff_not_bit) simp
  have "sint hi = signed_take_bit 63 (uint hi)" by (simp add: sint_uint)
  also have "\<dots> = (if bit hi 63 then uint hi - 2 ^ 64 else uint hi)"
    using take_bit_uint [of hi] by (simp add: signed_take_bit_eq_take_bit_minus bit_uint_iff)
  finally have "sint hi = (if bit hi 63 then uint hi - 2 ^ 64 else uint hi)" .
  moreover have "push_bit 64 (1 :: int) = 2 ^ 64" by (simp add: push_bit_eq_mult)
  ultimately show ?thesis unfolding signedHigh_def b by (simp only:)
qed

lemma uint_cat128: "uint (word_cat hi lo :: 128 word) = push_bit 64 (uint (hi :: u64)) + uint (lo :: u64)"
  by (subst uint_word_cat) simp_all

lemma sint_cat128: "sint (word_cat hi lo :: 128 word) = push_bit 64 (sint (hi :: i64)) + uint (lo :: u64)"
  by (subst sint_word_cat) simp_all

text \<open>The 256-bit value of four words, most significant first.\<close>

definition cat256 :: "u64 \<times> u64 \<times> u64 \<times> u64 \<Rightarrow> 256 word" where
  "cat256 v = (case v of (hh, hl, lh, ll) \<Rightarrow>
     word_cat (word_cat hh hl :: 128 word) (word_cat lh ll :: 128 word))"

lemma uint_cat256:
  "uint (cat256 (hh, hl, lh, ll))
   = push_bit 192 (uint hh) + push_bit 128 (uint hl) + push_bit 64 (uint lh) + uint ll"
  unfolding cat256_def by (simp add: uint_word_cat push_bit_eq_mult)

lemma sint_cat256:
  "sint (cat256 (hh, hl, lh, ll))
   = push_bit 192 (sint hh) + push_bit 128 (uint hl) + push_bit 64 (uint lh) + uint ll"
  unfolding cat256_def by (simp add: uint_word_cat sint_word_cat push_bit_eq_mult)

text \<open>
  The decimal rendering of a 128- or 256-bit integer, signed or unsigned, is the decimal of the
  number its words form, and so is the 64-digit hex rendering of an unsigned 256-bit integer.
\<close>

theorem wide_integers_rendered:
  "uint128ToString uh lo = showInt (uint (word_cat uh lo :: 128 word))
   \<and> int128ToString ih lo = showInt (sint (word_cat ih lo :: 128 word))
   \<and> uint256ToString w = showInt (uint (cat256 w))
   \<and> int256ToString w = showInt (sint (cat256 w))
   \<and> length (uint256ToHex w) = 64
   \<and> readHex (uint256ToHex w) = unat (cat256 w)"
proof (cases w)
  case (fields hh hl lh ll)
  have "int (readHex (uint256ToHex w)) = uint (cat256 w)"
    by (simp add: fields uint256ToHex_def readHex_append_hex16 readHex_hex16 uint_cat256
        append_assoc [symmetric] push_bit_eq_mult del: append_assoc)
  then have "readHex (uint256ToHex w) = unat (cat256 w)"
    by (metis nat_int unat_eq_nat_uint)
  then show ?thesis
    by (simp add: fields uint128ToString_def int128ToString_def uint256ToString_def
        int256ToString_def uint256ToHex_def signedHigh_eq uint_cat128 sint_cat128 uint_cat256
        sint_cat256)
qed

lemma cat256_sign: "0 \<le> sint (cat256 (hh, hl, lh, ll)) \<longleftrightarrow> 0 \<le> sint hh"
proof -
  have "sint hh < 0 \<longleftrightarrow> bit hh 63" by (simp add: sint_neg_iff)
  moreover have "sint (cat256 (hh, hl, lh, ll)) < 0 \<longleftrightarrow> bit (cat256 (hh, hl, lh, ll)) 255"
    by (simp add: sint_neg_iff)
  moreover have "bit (cat256 (hh, hl, lh, ll)) 255 = bit hh 63"
    by (simp add: cat256_def bit_word_cat_iff)
  ultimately show ?thesis by linarith
qed

lemma hd_hex16: "hd (hex16 w) \<noteq> CHR ''-''"
proof -
  have "hexDigit d \<noteq> CHR ''-''" if "d < 16" for d
    using that by (auto simp: hexDigit_def dest!: arg_cong [where f = "of_char :: char \<Rightarrow> nat"])
  then have "hexDigit (unat w div 16 ^ 15 mod 16) \<noteq> CHR ''-''" by simp
  moreover have "rev [0 ..< 16] = 15 # rev [0 ..< 15 :: nat]" by (simp add: upt_rec)
  ultimately show ?thesis unfolding hex16_def by simp
qed

lemma hex16_nonempty [simp]: "hex16 w \<noteq> []"
  using length_hex16 [of w] by (metis list.size(3) zero_neq_numeral)

text \<open>
  The hex rendering of a signed 256-bit integer is the 64 digits of its two's complement form
  exactly when it is not negative; a negative one starts with a minus sign instead.
\<close>

theorem int256_hex:
  "(int256ToHex (hh, hl, lh, ll) = uint256ToHex (hh, hl, lh, ll) \<longleftrightarrow> 0 \<le> sint (cat256 (hh, hl, lh, ll)))
   \<and> (hd (int256ToHex (hh, hl, lh, ll)) = CHR ''-'' \<longleftrightarrow> sint (cat256 (hh, hl, lh, ll)) < 0)"
proof -
  have pos: "int256ToHex (hh, hl, lh, ll) = uint256ToHex (hh, hl, lh, ll)" if "0 \<le> sint hh"
    using that by (simp add: int256ToHex_def uint256ToHex_def hex16Signed_def)
  have hd_pos: "hd (uint256ToHex (hh, hl, lh, ll)) \<noteq> CHR ''-''"
    using hd_hex16 [of hh] by (simp add: uint256ToHex_def)
  have neg: "hd (int256ToHex (hh, hl, lh, ll)) = CHR ''-''" if "sint hh < 0"
    using that by (simp add: int256ToHex_def hex16Signed_def Let_def)
  show ?thesis
    using cat256_sign pos hd_pos neg by (cases "0 \<le> sint hh") (auto simp: not_le [symmetric])
qed

section \<open>What the converter promises\<close>

text \<open>
  The inner pointers the converter dereferences without a check: the vec or map behind its arm, and
  the V0 arm of a claimable balance id.
\<close>

fun derefsNil :: "sc_val \<Rightarrow> bool" where
  "derefsNil (ScvVec (Some None)) = True"
| "derefsNil (ScvVec (Some (Some vs))) \<longleftrightarrow> (\<exists>v \<in> set vs. derefsNil v)"
| "derefsNil (ScvMap (Some None)) = True"
| "derefsNil (ScvMap (Some (Some es))) \<longleftrightarrow> (\<exists>(k, v) \<in> set es. derefsNil k \<or> derefsNil v)"
| "derefsNil (ScvAddress (Some (AddrClaimableBalance (Some (CbV0 None))))) = True"
| "derefsNil v = False"

lemma unnil_OkE:
  assumes "unnil name p f = Ok g"
  obtains a where "p = Some a" "g = f a"
  using assms by (cases p) auto

lemma unnil_not_Panic [simp]: "unnil name p f \<noteq> Panic"
  by (cases p) auto

lemma wrapAddr_Panic_iff [simp]: "wrapAddr k w x r = Panic \<longleftrightarrow> r = Panic"
  by (cases r) (auto simp: wrapAddr_def)

lemma mapR_Panic_iff [simp]: "mapR f r = Panic \<longleftrightarrow> r = Panic"
  by (cases r) auto

lemma vecItems_eq:
  "vecItems E i xs = (if \<exists>x \<in> set xs. snd x = Panic then Panic
     else Ok (map (\<lambda>(j, v, r). vecItem E j v r) (enumerate i xs)))"
  by (induction E i xs rule: vecItems.induct) (auto simp: isPanic_iff)

lemma mapItems_eq:
  "mapItems E m ks xs = (if \<exists>x \<in> set xs. fst (snd x) = Panic \<or> snd (snd x) = Panic then Panic
     else Ok (foldl (\<lambda>m kv. gmPut (fst kv) (snd kv) m) m
            (map (\<lambda>((k, v), rk, rv). (entryKeyString rk, entryValue E v rv)) xs),
          ks @ map (\<lambda>(kv, rk, rv). entryKey rk) xs))"
  by (induction E m ks xs rule: mapItems.induct) (auto simp: isPanic_iff)

lemma convertScAddress_Panic_iff:
  assumes "strkeyNoPanic E"
  shows "convertScAddress E a = Panic \<longleftrightarrow> a = AddrClaimableBalance (Some (CbV0 None))"
  by (cases "(E, a)" rule: convertScAddress.cases) (use assms in \<open>auto simp: strkeyNoPanic_def\<close>)

lemma convertScVal_panicking:
  assumes "strkeyNoPanic E"
  shows "convertScVal E v = Panic \<longleftrightarrow> derefsNil v"
proof (induction v rule: derefsNil.induct)
  case (2 vs)
  then show ?case by (auto simp: vecItems_eq)
next
  case (4 es)
  then have "(convertScVal E (fst kv) = Panic \<or> convertScVal E (snd kv) = Panic)
      \<longleftrightarrow> derefsNil (fst kv) \<or> derefsNil (snd kv)" if "kv \<in> set es" for kv
    using that by (cases kv) auto
  then show ?case by (simp add: mapItems_eq case_prod_beta)
qed (simp_all add: convertScAddress_Panic_iff [OF assms] del: convertScAddress.simps)



text \<open>
  The conversion of a vec never fails because of an element: an element that cannot be converted is
  replaced by a description of its error, every other element by its conversion, in order.
\<close>

theorem convertScVal_vec:
  assumes "strkeyNoPanic E" "\<not> derefsNil (ScvVec (Some (Some vs)))"
  shows "\<exists>gs. convertScVal E (ScvVec (Some (Some vs))) = Ok (GArr gs) \<and> length gs = length vs
    \<and> (\<forall>i g. i < length vs \<and> convertScVal E (vs ! i) = Ok g \<longrightarrow> gs ! i = g)
    \<and> (\<forall>i e. i < length vs \<and> convertScVal E (vs ! i) = Err e \<longrightarrow>
         gs ! i = GMap [(''index'', GInt (int i)), (''error'', GStr e),
           (''type'', GStr (scvTypeString E (scvType (vs ! i))))])"
proof -
  have no: "convertScVal E v \<noteq> Panic" if "v \<in> set vs" for v
    using assms that by (simp add: convertScVal_panicking)
  let ?gs = "map (\<lambda>(j, v, r). vecItem E j v r) (enumerate 0 (map (\<lambda>v. (v, convertScVal E v)) vs))"
  have "convertScVal E (ScvVec (Some (Some vs))) = Ok (GArr ?gs)"
    using no by (simp add: vecItems_eq)
  then show ?thesis
    by (intro exI [of _ ?gs]) (simp add: nth_enumerate_eq vecItem_def gobj_def)
qed

theorem convertScVal_vec_witness:
  "convertScVal demoSdk (ScvVec (Some (Some [ScvU32 (Some 7), ScvU32 None])))
   = Ok (GArr [GInt 7, GMap [(''index'', GInt 1), (''error'', GStr ''ScvU32 has nil value''),
       (''type'', GStr ''ScvType'')]])"
proof -
  let ?vs = "[ScvU32 (Some 7), ScvU32 None]"
  have "\<not> derefsNil (ScvVec (Some (Some ?vs)))" by simp
  then obtain gs where gs: "convertScVal demoSdk (ScvVec (Some (Some ?vs))) = Ok (GArr gs)"
    "length gs = 2" and ok: "\<And>i g. i < 2 \<and> convertScVal demoSdk (?vs ! i) = Ok g \<Longrightarrow> gs ! i = g"
    and err: "\<And>i e. i < 2 \<and> convertScVal demoSdk (?vs ! i) = Err e \<Longrightarrow>
         gs ! i = GMap [(''index'', GInt (int i)), (''error'', GStr e),
           (''type'', GStr (scvTypeString demoSdk (scvType (?vs ! i))))]"
    using convertScVal_vec [OF demoSdk_noPanic, of ?vs] by auto
  have "gs = [gs ! 0, gs ! 1]" using gs(2) by (auto simp: list_eq_iff_nth_eq less_Suc_eq numeral_2_eq_2)
  moreover have "gs ! 0 = GInt 7" using ok [of 0] by simp
  moreover have "gs ! 1 = GMap [(''index'', GInt 1), (''error'', GStr ''ScvU32 has nil value''),
       (''type'', GStr ''ScvType'')]"
    using err [of 1] by (simp add: demoSdk_def)
  ultimately show ?thesis using gs(1) by simp
qed

lemma convertScVal_map_items:
  assumes "strkeyNoPanic E" "\<not> derefsNil (ScvMap (Some (Some es)))"
  shows "\<exists>m. convertScVal E (ScvMap (Some (Some es))) =
      Ok (GMap [(''type'', GStr ''map''), (''entries'', GMap m),
        (''keys'', GArr (map (\<lambda>e. entryKey (convertScVal E (fst e))) es))])
    \<and> gmGet m = map_of (rev (map (\<lambda>(k, v).
        (entryKeyString (convertScVal E k), entryValue E v (convertScVal E v))) es))
    \<and> (length m = length es \<longleftrightarrow> distinct (map (\<lambda>e. entryKeyString (convertScVal E (fst e))) es))"
proof -
  have no: "convertScVal E k \<noteq> Panic" "convertScVal E v \<noteq> Panic" if "(k, v) \<in> set es" for k v
    using assms that by (auto simp: convertScVal_panicking)
  let ?kvs = "map (\<lambda>(k, v). (entryKeyString (convertScVal E k), entryValue E v (convertScVal E v))) es"
  let ?m = "foldl (\<lambda>m kv. gmPut (fst kv) (snd kv) m) gmEmpty ?kvs"
  have "convertScVal E (ScvMap (Some (Some es))) =
      Ok (GMap [(''type'', GStr ''map''), (''entries'', GMap ?m),
        (''keys'', GArr (map (\<lambda>e. entryKey (convertScVal E (fst e))) es))])"
    using no by (auto simp: mapItems_eq gobj_def comp_def cong: map_cong) (simp_all add: case_prod_beta)
  moreover have "gmGet ?m = map_of (rev ?kvs)" by (rule gm.get_puts_empty)
  moreover have "length ?m = length es \<longleftrightarrow> distinct (map (\<lambda>e. entryKeyString (convertScVal E (fst e))) es)"
  proof -
    have "length ?m = card (fst ` set ?kvs)"
      using length_gomap [OF gm.inv_puts [OF gm.inv_empty, of ?kvs]]
      by (simp only: gm.get_puts_empty dom_map_of_conv_image_fst set_rev)
    then have "length ?m = card (set (map fst ?kvs))" by (simp only: set_map)
    moreover have "map fst ?kvs = map (\<lambda>e. entryKeyString (convertScVal E (fst e))) es"
      by auto
    ultimately show ?thesis by (simp only: distinct_iff_card length_map)
  qed
  ultimately show ?thesis by blast
qed

text \<open>
  C16: the conversion of a map lists under \<open>keys\<close> the converted key of every entry, in the order of the entries, null
  for one that cannot be converted, and files each value under the \<open>%v\<close> text of its key, or the text of its
  error: the last entry with a text wins, a value that cannot be converted is an object with its error and type, and
  the map keeps every entry exactly when no two keys have the same text.
\<close>

theorem convertScVal_map:
  assumes "strkeyNoPanic E" "\<not> derefsNil (ScvMap (Some (Some es)))"
  shows "\<exists>m. convertScVal E (ScvMap (Some (Some es))) =
      Ok (GMap [(''type'', GStr ''map''), (''entries'', GMap m),
        (''keys'', GArr (map (\<lambda>(k, v). case convertScVal E k of Ok g \<Rightarrow> g | _ \<Rightarrow> GNil) es))])
    \<and> gmGet m = map_of (rev (map (\<lambda>(k, v).
        (case convertScVal E k of Ok g \<Rightarrow> fmtV g | Err e \<Rightarrow> ''error:'' @ e | Panic \<Rightarrow> [],
         case convertScVal E v of Ok g \<Rightarrow> g
         | Err e \<Rightarrow> GMap [(''error'', GStr e), (''type'', GStr (scvTypeString E (scvType v)))] | Panic \<Rightarrow> GNil)) es))
    \<and> (length m = length es \<longleftrightarrow> distinct (map (\<lambda>(k, v).
        case convertScVal E k of Ok g \<Rightarrow> fmtV g | Err e \<Rightarrow> ''error:'' @ e | Panic \<Rightarrow> []) es))"
  using convertScVal_map_items [OF assms]
  unfolding entryKey_def entryKeyString_def entryValue_def gobj_def case_prod_unfold .

theorem convertScVal_map_witness:
  "\<exists>m. convertScVal demoSdk (ScvMap (Some (Some
        [(ScvU32 (Some 1), ScvBool (Some True)), (ScvSymbol (Some ''1''), ScvVoid)]))) =
      Ok (GMap [(''type'', GStr ''map''), (''entries'', GMap m), (''keys'', GArr [GInt 1, GStr ''1''])])
    \<and> gmGet m ''1'' = Some GNil \<and> length m \<noteq> 2"
proof -
  let ?es = "[(ScvU32 (Some 1), ScvBool (Some True)), (ScvSymbol (Some ''1''), ScvVoid)]"
  have key: "fmtV (GInt 1) = ''1''" by code_simp
  have "\<not> derefsNil (ScvMap (Some (Some ?es)))" by simp
  from convertScVal_map [OF demoSdk_noPanic this] obtain m where
    "convertScVal demoSdk (ScvMap (Some (Some ?es))) = Ok (GMap [(''type'', GStr ''map''),
       (''entries'', GMap m), (''keys'', GArr [GInt 1, GStr ''1''])])"
    "gmGet m ''1'' = Some GNil" "length m \<noteq> 2"
    by (auto simp: key simp del: fmtV.simps(3) convertScVal.simps(23))
  then show ?thesis by blast
qed

lemma gWf_convertScAddress: "convertScAddress E a = Ok g \<Longrightarrow> gWf g"
  by (cases "(E, a)" rule: convertScAddress.cases)
    (auto simp: wrapAddr_def gobj_def gmInv_def split: res.splits)

lemma gWf_puts:
  "\<forall>kv \<in> set kvs. gWf (snd kv) \<Longrightarrow> \<forall>kv \<in> set m. gWf (snd kv) \<Longrightarrow>
   \<forall>kv \<in> set (foldl (\<lambda>m kv. gmPut (fst kv) (snd kv) m) m kvs). gWf (snd kv)"
proof (induction kvs arbitrary: m)
  case (Cons kv kvs)
  then have "\<forall>kv' \<in> set (gmPut (fst kv) (snd kv) m). gWf (snd kv')" by (intro gWf_put) simp_all
  with Cons show ?case by simp
qed simp

lemma gWf_convertScVal: "convertScVal E v = Ok g \<Longrightarrow> gWf g"
proof (induction v arbitrary: g rule: derefsNil.induct)
  case (2 vs)
  then obtain gs where "vecItems E 0 (map (\<lambda>v. (v, convertScVal E v)) vs) = Ok gs" "g = GArr gs"
    by (auto simp: mapR_Ok_iff)
  moreover have "gWf (vecItem E j v (convertScVal E v))" if "v \<in> set vs" for j v
    using 2(1) [OF that] by (auto simp: vecItem_def gobj_def gmInv_def split: res.splits)
  ultimately show ?case
    by (auto simp: vecItems_eq in_set_enumerate_eq split: if_splits)
next
  case (4 es)
  then obtain m ks where m: "mapItems E gmEmpty [] (map (\<lambda>(k, v). ((k, v), convertScVal E k, convertScVal E v)) es) = Ok (m, ks)"
    and g: "g = gobj [(''type'', GStr ''map''), (''entries'', GMap m), (''keys'', GArr ks)]"
    by (auto simp: mapR_Ok_iff)
  have IH: "convertScVal E (fst e) = Ok g \<Longrightarrow> gWf g" "convertScVal E (snd e) = Ok g \<Longrightarrow> gWf g"
    if "e \<in> set es" for e g
    using 4(1,2) [OF that, of "fst e" "snd e"] by simp_all
  have ks: "gWf (entryKey (convertScVal E (fst e)))" if "e \<in> set es" for e
    using IH(1) [OF that] by (auto simp: entryKey_def split: res.splits)
  have vs: "gWf (entryValue E v (convertScVal E (snd e)))" if "e \<in> set es" for e v
    using IH(2) [OF that] by (auto simp: entryValue_def gobj_def gmInv_def split: res.splits)
  have "gWf k" if "k \<in> set ks" for k
    using m that ks by (auto simp: mapItems_eq case_prod_beta split: if_splits)
  moreover have "gmInv m"
    using m by (auto simp: mapItems_eq gm.inv_puts gm.inv_empty split: if_splits)
  moreover have "\<forall>kv \<in> set m. gWf (snd kv)"
  proof -
    let ?kvs = "map (\<lambda>((k, v), rk, rv). (entryKeyString rk, entryValue E v rv))
        (map (\<lambda>(k, v). ((k, v), convertScVal E k, convertScVal E v)) es)"
    have m_eq: "m = foldl (\<lambda>m kv. gmPut (fst kv) (snd kv) m) gmEmpty ?kvs"
      using m by (simp add: mapItems_eq split: if_splits)
    have "\<forall>kv \<in> set ?kvs. gWf (snd kv)" using vs by (auto simp: case_prod_beta)
    moreover have "\<forall>kv \<in> set gmEmpty. gWf (snd kv)" by (simp add: gmEmpty_def)
    ultimately show ?thesis unfolding m_eq by (rule gWf_puts)
  qed
  ultimately show ?case by (auto simp: g gobj_def gmInv_def)
qed (auto simp: gWf_convertScAddress gobj_def gmInv_def elim!: unnil_OkE
     simp del: convertScAddress.simps split: option.splits)

text \<open>
  Whatever order Go iterates the maps of a converted value in, its \<open>%v\<close> text and its JSON are
  the same.
\<close>

lemma convertScVal_deterministic:
  assumes "convertScVal E v = Ok g" "reorder g g'"
  shows "fmtV g = fmtV g' \<and> jsonMarshal g = jsonMarshal g'"
  using render_reorder [OF assms(2) gWf_convertScVal [OF assms(1)]] by simp

lemma convertScVal_deterministic_witness:
  "jsonMarshal (GMap [(''type'', GStr ''duration''), (''value'', GInt 5)])
   = jsonMarshal (GMap [(''value'', GInt 5), (''type'', GStr ''duration'')])"
proof -
  have 1: "convertScVal demoSdk (ScvDuration (Some 5))
      = Ok (GMap [(''type'', GStr ''duration''), (''value'', GInt 5)])"
    by (simp add: gobj_def)
  have 2: "reorder (GMap [(''type'', GStr ''duration''), (''value'', GInt 5)])
      (GMap [(''value'', GInt 5), (''type'', GStr ''duration'')])"
    by (rule reorder_map [where kvs' = "[(''value'', GInt 5), (''type'', GStr ''duration'')]"])
      (auto intro: reorder_refl)
  show ?thesis using convertScVal_deterministic [OF 1 2] by simp
qed

section \<open>Muxed addresses\<close>

lemma muxedIdBytes_value: "foldl (\<lambda>n b. 256 * n + unat b) 0 (muxedIdBytes i) = unat i"
proof -
  have "map (\<lambda>k. 56 - 8 * k) [0 ..< 8] = map (\<lambda>k. 8 * k) (rev [0 ..< 8 :: nat])" by (simp add: upt_rec)
  then have "map unat (map (\<lambda>k. ucast (drop_bit (56 - 8 * k) i) :: byte) [0 ..< 8])
    = map (\<lambda>k. unat i div 256 ^ k mod 256) (rev [0 ..< 8])"
    by (simp add: upt_rec byte_of_u64 [symmetric])
  moreover have "unat i < 256 ^ 8" using unsigned_less [of i, where ?'a = nat] by simp
  moreover have "foldl (\<lambda>n b. 256 * n + unat b) a bs = foldl (\<lambda>n d. 256 * n + d) a (map unat bs)"
    for a and bs :: "8 word list"
    by (simp add: foldl_map)
  ultimately show ?thesis
    using foldl_digits [of 256 0 "unat i" 8] unfolding muxedIdBytes_def by simp
qed

text \<open>
  The payload of a muxed address is 40 bytes, the Ed25519 key followed by the id in big-endian
  order, so both can be read back and two muxed accounts never share a payload.
\<close>

theorem muxedPayload_decodes:
  assumes "length ed = 32"
  shows "length (muxedPayload ed i) = 40 \<and> take 32 (muxedPayload ed i) = ed
    \<and> foldl (\<lambda>n b. 256 * n + unat b) 0 (drop 32 (muxedPayload ed i)) = unat i"
  using assms by (simp add: muxedPayload_def muxedIdBytes_value) (simp add: muxedIdBytes_def)

theorem muxedPayload_decodes_witness:
  "take 32 (muxedPayload (replicate 32 7) 258) = replicate 32 7
   \<and> drop 38 (muxedPayload (replicate 32 7) 258) = [1, 2]"
proof
  show "take 32 (muxedPayload (replicate 32 7) 258) = replicate 32 7"
    using muxedPayload_decodes [of "replicate 32 7" 258] by simp
  show "drop 38 (muxedPayload (replicate 32 7) 258) = [1, 2]" by code_simp
qed

end
