(* ===== verification/ContractError.thy ===== *)
theory ContractError
  imports Sdk
begin

text \<open>
  \<open>contract_error.go\<close>: the first contract error in a transaction's diagnostic events.  The events
  are the result of \<open>tx.UnsafeMeta.GetDiagnosticEvents()\<close>.  \<open>GetError\<close> reads the arm
  pointer, so an error value with a nil arm panics.
\<close>

fun canonicalScErrorType :: "sc_error_type \<Rightarrow> string" where
  "canonicalScErrorType SceContract = ''contract''"
| "canonicalScErrorType SceWasmVm = ''wasm_vm''"
| "canonicalScErrorType SceContext = ''context''"
| "canonicalScErrorType SceStorage = ''storage''"
| "canonicalScErrorType SceObject = ''object''"
| "canonicalScErrorType SceCrypto = ''crypto''"
| "canonicalScErrorType SceEvents = ''events''"
| "canonicalScErrorType SceBudget = ''budget''"
| "canonicalScErrorType SceValue = ''value''"
| "canonicalScErrorType SceAuth = ''auth''"
| "canonicalScErrorType (SceOther n) = ''unknown_'' @ sdec n"

text \<open>Error type, code if any, and \<open>present\<close>.\<close>

type_synonym error_facts = "string \<times> i32 option \<times> bool"

definition scErrorFacts :: "sc_error \<Rightarrow> error_facts" where
  "scErrorFacts e = (let errorType = canonicalScErrorType (se_Type e) in
     if se_Type e = SceContract \<and> se_ContractCode e \<noteq> None
     then (errorType, se_ContractCode e, True)
     else (errorType, None, True))"

fun getError :: "sc_val \<Rightarrow> sc_error option res" where
  "getError (ScvError (Some e)) = Ok (Some e)"
| "getError (ScvError None) = Panic"
| "getError v = Ok None"

fun topicErrors :: "sc_val list \<Rightarrow> sc_error option res" where
  "topicErrors [] = Ok None"
| "topicErrors (t # ts) = bindR (getError t) (\<lambda>r. case r of Some e \<Rightarrow> Ok (Some e) | None \<Rightarrow> topicErrors ts)"

text \<open>
  \<open>body, ok := event.Event.Body.GetV0()\<close>: not ok for another discriminant; for this one the arm pointer is
  dereferenced, so a nil arm panics.
\<close>

definition eventBody :: "contract_event \<Rightarrow> (sc_val list \<times> sc_val) option res" where
  "eventBody ev = (if ce_BodyV ev \<noteq> 0 then Ok None
     else case ce_BodyV0 ev of None \<Rightarrow> Panic | Some body \<Rightarrow> Ok (Some body))"

fun contractErrorLoop :: "diagnostic_event list \<Rightarrow> error_facts res" where
  "contractErrorLoop [] = Ok ([], None, False)"
| "contractErrorLoop (ev # evs) = bindR (eventBody (de_Event ev)) (\<lambda>ob. case ob of
     None \<Rightarrow> contractErrorLoop evs
   | Some (topics, data) \<Rightarrow> bindR (topicErrors (topics @ [data])) (\<lambda>r. case r of
       Some e \<Rightarrow> Ok (scErrorFacts e)
     | None \<Rightarrow> contractErrorLoop evs))"

definition contractErrorFacts :: "ledger_tx \<Rightarrow> error_facts res" where
  "contractErrorFacts tx = (case tx_DiagnosticEvents tx of
     Err e \<Rightarrow> Ok ([], None, False)
   | Panic \<Rightarrow> Panic
   | Ok events \<Rightarrow> contractErrorLoop events)"

section \<open>Which error is reported\<close>

text \<open>
  The values of an event in the order they are looked at, whether they can be looked at without a nil pointer, and
  the errors among a list of values.
\<close>

definition eventValues :: "diagnostic_event \<Rightarrow> sc_val list" where
  "eventValues ev = (case ce_BodyV0 (de_Event ev) of
     Some (ts, d) \<Rightarrow> if ce_BodyV (de_Event ev) = 0 then ts @ [d] else []
   | None \<Rightarrow> [])"

definition eventReadable :: "diagnostic_event \<Rightarrow> bool" where
  "eventReadable ev \<longleftrightarrow> (ce_BodyV (de_Event ev) = 0 \<longrightarrow> ce_BodyV0 (de_Event ev) \<noteq> None)
     \<and> ScvError None \<notin> set (eventValues ev)"

fun errorsOf :: "sc_val list \<Rightarrow> sc_error list" where
  "errorsOf [] = []"
| "errorsOf (ScvError (Some e) # vs) = e # errorsOf vs"
| "errorsOf (v # vs) = errorsOf vs"

lemma errorsOf_append: "errorsOf (us @ vs) = errorsOf us @ errorsOf vs"
  by (induction us rule: errorsOf.induct) auto

lemma topicErrors_eq:
  "ScvError None \<notin> set vs \<Longrightarrow>
   topicErrors vs = Ok (case errorsOf vs of [] \<Rightarrow> None | e # es \<Rightarrow> Some e)"
proof (induction vs)
  case (Cons v vs)
  then show ?case by (cases "[v]" rule: errorsOf.cases) auto
qed simp

lemma contractErrorLoop_step:
  assumes "eventReadable ev"
  shows "contractErrorLoop (ev # evs) = (case errorsOf (eventValues ev) of
     [] \<Rightarrow> contractErrorLoop evs | e # es \<Rightarrow> Ok (scErrorFacts e))"
proof (cases "ce_BodyV (de_Event ev) = 0")
  case False
  then show ?thesis by (simp add: eventValues_def eventBody_def split: option.split)
next
  case True
  with assms obtain ts d where b: "ce_BodyV0 (de_Event ev) = Some (ts, d)" by (auto simp: eventReadable_def)
  have "topicErrors (ts @ [d]) = Ok (case errorsOf (ts @ [d]) of [] \<Rightarrow> None | e # es \<Rightarrow> Some e)"
    using assms b True by (intro topicErrors_eq) (simp add: eventReadable_def eventValues_def)
  with b True show ?thesis by (simp add: eventValues_def eventBody_def split: list.splits)
qed

lemma contractErrorLoop_skip:
  assumes "\<And>ev. ev \<in> set evs \<Longrightarrow> eventReadable ev" "errorsOf (concat (map eventValues evs)) = []"
  shows "contractErrorLoop (evs @ evs') = contractErrorLoop evs'"
  using assms by (induction evs) (simp_all add: contractErrorLoop_step errorsOf_append del: contractErrorLoop.simps(2))

lemma contractErrorLoop_nil_body:
  "ce_BodyV (de_Event ev) = 0 \<Longrightarrow> ce_BodyV0 (de_Event ev) = None \<Longrightarrow> contractErrorLoop (ev # evs) = Panic"
  by (simp add: eventBody_def)

lemma contractErrorLoop_prefix:
  assumes "\<And>ev. ev \<in> set evs \<Longrightarrow> eventReadable ev" "errorsOf (concat (map eventValues evs)) \<noteq> [] \<or> evs' = []"
  shows "contractErrorLoop (evs @ evs') = Ok (case errorsOf (concat (map eventValues evs)) of
     [] \<Rightarrow> ([], None, False) | e # es \<Rightarrow> scErrorFacts e)"
  using assms
proof (induction evs)
  case (Cons ev evs)
  have ev: "eventReadable ev" using Cons.prems by simp
  show ?case
  proof (cases "errorsOf (eventValues ev)")
    case Nil
    with Cons ev show ?thesis by (simp add: contractErrorLoop_step errorsOf_append del: contractErrorLoop.simps)
  next
    case (Cons e es)
    with ev show ?thesis by (simp add: contractErrorLoop_step errorsOf_append del: contractErrorLoop.simps)
  qed
qed simp

text \<open>
  C33: when no nil pointer is among what the loop reads, the facts reported are those of the first error among the
  topics and data of the diagnostic events, in event order; without one nothing is reported, and a number is given
  only for an error the contract itself raised.  An event with a nil body, once the loop reaches it, panics.
\<close>

theorem contractErrorFacts_first:
  assumes "tx_DiagnosticEvents tx = Ok (evs @ evs')"
    and "\<And>ev. ev \<in> set evs \<Longrightarrow> eventReadable ev"
  shows "(errorsOf (concat (map eventValues evs)) \<noteq> [] \<or> evs' = [] \<longrightarrow>
      (\<exists>ty code present. contractErrorFacts tx = Ok (ty, code, present)
        \<and> (present \<longleftrightarrow> errorsOf (concat (map eventValues evs)) \<noteq> [])
        \<and> (present \<longrightarrow> (ty, code, True) = scErrorFacts (hd (errorsOf (concat (map eventValues evs)))))
        \<and> (code \<noteq> None \<longrightarrow> ty = ''contract'')))
    \<and> (errorsOf (concat (map eventValues evs)) = [] \<and> evs' \<noteq> [] \<and> ce_BodyV (de_Event (hd evs')) = 0
        \<and> ce_BodyV0 (de_Event (hd evs')) = None \<longrightarrow> contractErrorFacts tx = Panic)"
proof (intro conjI impI)
  assume "errorsOf (concat (map eventValues evs)) = [] \<and> evs' \<noteq> [] \<and> ce_BodyV (de_Event (hd evs')) = 0
    \<and> ce_BodyV0 (de_Event (hd evs')) = None"
  then show "contractErrorFacts tx = Panic"
    using assms contractErrorLoop_skip [OF assms(2)] contractErrorLoop_nil_body
    by (cases evs') (simp_all add: contractErrorFacts_def)
next
  assume *: "errorsOf (concat (map eventValues evs)) \<noteq> [] \<or> evs' = []"
  have "contractErrorLoop (evs @ evs') = Ok (case errorsOf (concat (map eventValues evs)) of
     [] \<Rightarrow> ([], None, False) | e # es \<Rightarrow> scErrorFacts e)"
    using assms(2) * contractErrorLoop_prefix by fastforce
  then have "contractErrorFacts tx = Ok (case errorsOf (concat (map eventValues evs)) of
     [] \<Rightarrow> ([], None, False) | e # es \<Rightarrow> scErrorFacts e)"
    using assms(1) by (simp add: contractErrorFacts_def)
  then show "\<exists>ty code present. contractErrorFacts tx = Ok (ty, code, present)
        \<and> (present \<longleftrightarrow> errorsOf (concat (map eventValues evs)) \<noteq> [])
        \<and> (present \<longrightarrow> (ty, code, True) = scErrorFacts (hd (errorsOf (concat (map eventValues evs)))))
        \<and> (code \<noteq> None \<longrightarrow> ty = ''contract'')"
    by (cases "errorsOf (concat (map eventValues evs))") (auto simp: scErrorFacts_def Let_def)
qed

definition demoErrorTx :: ledger_tx where
  "demoErrorTx = demoTx\<lparr>tx_Successful := False, tx_DiagnosticEvents := Ok [\<lparr>de_InSuccessfulContractCall = False,
        de_Event = \<lparr>ce_ContractId = None, ce_Type = EvDiagnostic, ce_BodyV = 0,
          ce_BodyV0 = Some ([ScvSymbol (Some ''error''),
             ScvError (Some \<lparr>se_Type = SceContract, se_ContractCode = Some 13, se_Code = None\<rparr>)],
           ScvError (Some \<lparr>se_Type = SceBudget, se_ContractCode = None, se_Code = Some 1\<rparr>))\<rparr>\<rparr>]\<rparr>"

theorem contractErrorFacts_first_witness:
  "contractErrorFacts demoErrorTx = Ok (''contract'', Some 13, True)"
proof -
  obtain ev where evs: "tx_DiagnosticEvents demoErrorTx = Ok ([ev] @ [])" and r: "eventReadable ev"
    and v: "eventValues ev = [ScvSymbol (Some ''error''),
      ScvError (Some \<lparr>se_Type = SceContract, se_ContractCode = Some 13, se_Code = None\<rparr>),
      ScvError (Some \<lparr>se_Type = SceBudget, se_ContractCode = None, se_Code = Some 1\<rparr>)]"
    by (simp add: demoErrorTx_def eventValues_def eventReadable_def)
  from contractErrorFacts_first [OF evs] r show ?thesis
    by (auto simp: v scErrorFacts_def)
qed

end
