(* ===== verification/CallGraph.thy ===== *)
theory CallGraph
  imports ScVal
begin

text \<open>
  \<open>call_graph.go\<close>: the cross-contract calls of an invocation, from the diagnostic events (a walk with
  a call stack) and from the authorization trees (a bounded recursion), merged, deduplicated and
  summarised; and the authorization credentials of an operation.

  Go \<open>int\<close> counters that only count up from 0 are \<^typ>\<open>nat\<close>.  The process-wide counter
  \<open>callGraphSkippedEdges\<close> is threaded through as a number.
\<close>

record contract_call =
  cc_FromContract :: string
  cc_ToContract :: string
  cc_FunctionName :: string
  cc_Arguments :: gval
  cc_CallDepth :: nat
  cc_ExecutionOrder :: nat
  cc_Successful :: bool

record call_graph =
  cg_Calls :: "contract_call list"
  cg_ContractsInvolved :: "string list"
  cg_MaxDepth :: nat

section \<open>Reading an event\<close>

text \<open>\<open>event.Body.V != 0 || event.Body.V0 == nil\<close> leaves no body.\<close>

definition evBody :: "contract_event \<Rightarrow> (sc_val list \<times> sc_val) option" where
  "evBody ev = (if ce_BodyV ev \<noteq> 0 then None else ce_BodyV0 ev)"

definition extractFirstTopic :: "sdk \<Rightarrow> contract_event \<Rightarrow> string res" where
  "extractFirstTopic E ev = (case evBody ev of
     None \<Rightarrow> Ok []
   | Some (topics, data) \<Rightarrow> (case topics of
       [] \<Rightarrow> Ok []
     | t # ts \<Rightarrow> (case convertScVal E t of
         Err e \<Rightarrow> Ok [] | Panic \<Rightarrow> Panic
       | Ok (GStr s) \<Rightarrow> Ok s
       | Ok decoded \<Rightarrow> Ok (fmtV decoded))))"

definition isPrintableASCII :: "byte list \<Rightarrow> bool" where
  "isPrintableASCII bs = (if bs = [] then False else \<not> (\<exists>c \<in> set bs. c < 0x20 \<or> c > 0x7E))"

fun getFunctionNameFromScVal :: "sc_val \<Rightarrow> string" where
  "getFunctionNameFromScVal (ScvSymbol (Some s)) = s"
| "getFunctionNameFromScVal (ScvString (Some s)) = s"
| "getFunctionNameFromScVal (ScvBytes (Some b)) = (if isPrintableASCII b then bytesString b else [])"
| "getFunctionNameFromScVal v = []"

definition extractFunctionName :: "contract_event \<Rightarrow> string" where
  "extractFunctionName ev = (case evBody ev of
     None \<Rightarrow> ''unknown''
   | Some (topics, data) \<Rightarrow>
       if length topics < 2 then ''unknown''
       else let name = getFunctionNameFromScVal (topics ! 1) in
         if name = [] then ''unknown'' else name)"

definition extractArguments :: "sdk \<Rightarrow> contract_event \<Rightarrow> gval res" where
  "extractArguments E ev = (case evBody ev of
     None \<Rightarrow> Ok GNil
   | Some (topics, data) \<Rightarrow> (case convertScVal E data of
       Ok decoded \<Rightarrow> Ok decoded | Err e \<Rightarrow> Ok GNil | Panic \<Rightarrow> Panic))"

section \<open>Searching the arguments for a function name\<close>

fun firstNonEmpty :: "string list \<Rightarrow> string" where
  "firstNonEmpty [] = []"
| "firstNonEmpty (s # ss) = (if s \<noteq> [] then s else firstNonEmpty ss)"

fun findFnNameRecursive :: "gval \<Rightarrow> string" where
  "findFnNameRecursive (GMap kvs) =
     (let search = firstNonEmpty (map snd (sortPairs (map (\<lambda>kv. (fst kv, findFnNameRecursive (snd kv))) kvs)))
      in case gmGet kvs ''fn_name'' of
           Some (GStr str) \<Rightarrow> if str \<noteq> [] then str else search
         | _ \<Rightarrow> search)"
| "findFnNameRecursive (GArr vs) = firstNonEmpty (map findFnNameRecursive vs)"
| "findFnNameRecursive g = []"

definition extractFunctionNameFromArguments :: "gval \<Rightarrow> string" where
  "extractFunctionNameFromArguments args = (if args = GNil then [] else findFnNameRecursive args)"

definition nameless :: "string \<Rightarrow> bool" where
  "nameless s \<longleftrightarrow> s = [] \<or> s = ''unknown''"

text \<open>The final fallback: a nameless call takes the name found in its arguments, if there is one.\<close>

definition refineName :: "string \<Rightarrow> gval \<Rightarrow> string" where
  "refineName fn args = (if nameless fn then
       (let argFn = extractFunctionNameFromArguments args in if argFn \<noteq> [] then argFn else fn)
     else fn)"

section \<open>The walk over the diagnostic events\<close>

text \<open>The call stack has its top first.\<close>

record walk =
  w_Stack :: "string list"
  w_Depth :: nat
  w_Order :: nat
  w_Calls :: "contract_call list"

definition emitCall :: "string \<Rightarrow> string \<Rightarrow> string \<Rightarrow> gval \<Rightarrow> bool \<Rightarrow> walk \<Rightarrow> walk" where
  "emitCall from to fn args succ st = st\<lparr>
     w_Calls := w_Calls st @ [\<lparr>cc_FromContract = from, cc_ToContract = to, cc_FunctionName = fn,
       cc_Arguments = args, cc_CallDepth = w_Depth st + 1, cc_ExecutionOrder = w_Order st,
       cc_Successful = succ\<rparr>],
     w_Order := w_Order st + 1\<rparr>"

text \<open>
  The name of a pattern 1 call: the callee's own \<open>fn_call\<close> first, then the caller's event, then the
  arguments.
\<close>

definition calleeName :: "contract_event \<Rightarrow> contract_event \<Rightarrow> string \<Rightarrow> gval \<Rightarrow> string" where
  "calleeName ev nx nextTopic args =
    (let fn0 = (if nextTopic = ''fn_call'' then extractFunctionName nx else []);
         fn1 = (if nameless fn0 then extractFunctionName ev else fn0)
     in refineName fn1 args)"

text \<open>Pattern 1: a \<open>fn_call\<close> of the main contract, then an event of another contract.\<close>

definition pattern1 ::
    "sdk \<Rightarrow> string \<Rightarrow> diagnostic_event \<Rightarrow> diagnostic_event option \<Rightarrow> string \<Rightarrow> string \<Rightarrow> walk \<Rightarrow> walk res" where
  "pattern1 E main ev nextEv eid firstTopic st =
    (if firstTopic = ''fn_call'' \<and> eid = main then (case nextEv of
       None \<Rightarrow> Ok st
     | Some nx \<Rightarrow> (case ce_ContractId (de_Event nx) of
         None \<Rightarrow> Ok st
       | Some ncid \<Rightarrow> (case strkeyEncode E VContract ncid of
           Err e \<Rightarrow> Ok st | Panic \<Rightarrow> Panic
         | Ok nextId \<Rightarrow>
             if nextId = eid then Ok st
             else bindR (extractFirstTopic E (de_Event nx)) (\<lambda>nextTopic.
               bindR (extractArguments E (de_Event ev)) (\<lambda>args.
                 Ok (emitCall eid nextId (calleeName (de_Event ev) (de_Event nx) nextTopic args) args
                       (de_InSuccessfulContractCall ev) st))))))
     else Ok st)"

text \<open>Pattern 2: a \<open>fn_call\<close> of a contract other than the one on top of the stack.\<close>

definition pattern2 :: "sdk \<Rightarrow> string \<Rightarrow> diagnostic_event \<Rightarrow> string \<Rightarrow> string \<Rightarrow> walk \<Rightarrow> walk res" where
  "pattern2 E main ev eid firstTopic st =
    (if firstTopic = ''fn_call'' \<and> eid \<noteq> main then
       let from = (if w_Stack st \<noteq> [] then hd (w_Stack st) else main) in
       if from \<noteq> eid then
         let fn = extractFunctionName (de_Event ev) in
         bindR (extractArguments E (de_Event ev)) (\<lambda>args.
           Ok (emitCall from eid (refineName fn args) args (de_InSuccessfulContractCall ev) st))
       else Ok st
     else Ok st)"

definition updateStack :: "string \<Rightarrow> string \<Rightarrow> walk \<Rightarrow> walk" where
  "updateStack firstTopic eid st =
    (if firstTopic = ''fn_call'' then
       if eid \<noteq> [] \<and> (w_Stack st = [] \<or> hd (w_Stack st) \<noteq> eid)
       then st\<lparr>w_Stack := eid # w_Stack st, w_Depth := w_Depth st + 1\<rparr> else st
     else if firstTopic = ''fn_return'' \<and> length (w_Stack st) > 1 then
       let st' = st\<lparr>w_Stack := tl (w_Stack st)\<rparr> in
       if w_Depth st' > 0 then st'\<lparr>w_Depth := w_Depth st' - 1\<rparr> else st'
     else st)"

definition diagStep ::
    "sdk \<Rightarrow> string \<Rightarrow> diagnostic_event \<Rightarrow> diagnostic_event option \<Rightarrow> walk \<Rightarrow> walk res" where
  "diagStep E main ev nextEv st = (case ce_ContractId (de_Event ev) of
     None \<Rightarrow> Ok st
   | Some cid \<Rightarrow> (case strkeyEncode E VContract cid of
       Err e \<Rightarrow> Ok st | Panic \<Rightarrow> Panic
     | Ok eid \<Rightarrow> bindR (extractFirstTopic E (de_Event ev)) (\<lambda>firstTopic.
         bindR (pattern1 E main ev nextEv eid firstTopic st) (\<lambda>st1.
         bindR (pattern2 E main ev eid firstTopic st1) (\<lambda>st2.
           Ok (updateStack firstTopic eid st2))))))"

definition headOpt :: "'a list \<Rightarrow> 'a option" where
  "headOpt xs = (case xs of [] \<Rightarrow> None | x # xs' \<Rightarrow> Some x)"

fun diagWalk :: "sdk \<Rightarrow> string \<Rightarrow> diagnostic_event list \<Rightarrow> walk \<Rightarrow> walk res" where
  "diagWalk E main [] st = Ok st"
| "diagWalk E main (ev # evs) st =
     bindR (diagStep E main ev (headOpt evs) st) (diagWalk E main evs)"

definition initWalk :: "string \<Rightarrow> walk" where
  "initWalk main = \<lparr>w_Stack = [main], w_Depth = 0, w_Order = 0, w_Calls = []\<rparr>"

definition extractCrossContractCalls :: "sdk \<Rightarrow> ledger_tx \<Rightarrow> string \<Rightarrow> contract_call list res" where
  "extractCrossContractCalls E tx main = (case tx_Events tx of
     Err e \<Rightarrow> Ok []
   | Panic \<Rightarrow> Panic
   | Ok evs \<Rightarrow> if te_DiagnosticEvents evs = [] then Ok []
       else mapR w_Calls (diagWalk E main (te_DiagnosticEvents evs) (initWalk main)))"

section \<open>The walk over the authorization trees\<close>

record auth_walk =
  aw_Calls :: "contract_call list"
  aw_Order :: nat
  aw_Skipped :: nat

text \<open>
  The address as a contract strkey, with the skip counter moved when it is none.  \<open>GetContractId\<close>
  reads the arm pointer of a contract address.
\<close>

fun scAddressContractStrKey :: "sdk \<Rightarrow> sc_address \<Rightarrow> auth_walk \<Rightarrow> (string option \<times> auth_walk) res" where
  "scAddressContractStrKey E (AddrContract None) st = Panic"
| "scAddressContractStrKey E (AddrContract (Some c)) st = (case strkeyEncode E VContract c of
     Ok s \<Rightarrow> Ok (Some s, st)
   | Err e \<Rightarrow> Ok (None, st\<lparr>aw_Skipped := aw_Skipped st + 1\<rparr>)
   | Panic \<Rightarrow> Panic)"
| "scAddressContractStrKey E a st = Ok (None, st\<lparr>aw_Skipped := aw_Skipped st + 1\<rparr>)"

text \<open>The call of one node: the caller of its sub-invocations and the new state.\<close>

definition authNode :: "sdk \<Rightarrow> auth_function \<Rightarrow> string \<Rightarrow> nat \<Rightarrow> auth_walk \<Rightarrow> (string \<times> auth_walk) res" where
  "authNode E f from depth st = (case f of
     AfContractFn (Some args) \<Rightarrow>
       bindR (scAddressContractStrKey E (ic_ContractAddress args) st) (\<lambda>(r, st1).
         case r of
           Some to \<Rightarrow>
             if to \<noteq> from then
               Ok (to, st1\<lparr>aw_Calls := aw_Calls st1 @ [\<lparr>cc_FromContract = from, cc_ToContract = to,
                   cc_FunctionName = ic_FunctionName args, cc_Arguments = GNil,
                   cc_CallDepth = depth, cc_ExecutionOrder = aw_Order st1, cc_Successful = True\<rparr>],
                 aw_Order := aw_Order st1 + 1\<rparr>)
             else Ok (from, st1)
         | None \<Rightarrow> Ok (from, st1))
   | _ \<Rightarrow> Ok (from, st))"

text \<open>A node deeper than 10 is cut off with everything below it.\<close>

fun authInvocation :: "sdk \<Rightarrow> string \<Rightarrow> nat \<Rightarrow> auth_invocation \<Rightarrow> auth_walk \<Rightarrow> auth_walk res"
and authInvocations :: "sdk \<Rightarrow> string \<Rightarrow> nat \<Rightarrow> auth_invocation list \<Rightarrow> auth_walk \<Rightarrow> auth_walk res" where
  "authInvocation E from depth (AuthInv f subs) st =
     (if depth > 10 then Ok st
      else bindR (authNode E f from depth st) (\<lambda>(from', st').
        authInvocations E from' (depth + 1) subs st'))"
| "authInvocations E from depth [] st = Ok st"
| "authInvocations E from depth (iv # ivs) st =
     bindR (authInvocation E from depth iv st) (authInvocations E from depth ivs)"

definition extractCallsFromAuthEntries ::
    "sdk \<Rightarrow> auth_entry list \<Rightarrow> string \<Rightarrow> nat \<Rightarrow> (contract_call list \<times> nat) res" where
  "extractCallsFromAuthEntries E entries main skipped =
     mapR (\<lambda>st. (aw_Calls st, aw_Skipped st))
       (authInvocations E main 1 (map au_RootInvocation entries)
          \<lparr>aw_Calls = [], aw_Order = 0, aw_Skipped = skipped\<rparr>)"

section \<open>Merging\<close>

definition callKey :: "contract_call \<Rightarrow> string" where
  "callKey c = cc_FromContract c @ ''->'' @ cc_ToContract c @ '':'' @ cc_FunctionName c @ ''@''
     @ showNat (cc_CallDepth c)"

text \<open>\<open>seen\<close> is the set of keys met so far.\<close>

fun dedupCalls :: "string list \<Rightarrow> contract_call list \<Rightarrow> contract_call list" where
  "dedupCalls seen [] = []"
| "dedupCalls seen (c # cs) =
     (if callKey c \<in> set seen then dedupCalls seen cs
      else c # dedupCalls (callKey c # seen) cs)"

definition deduplicateCalls :: "contract_call list \<Rightarrow> contract_call list" where
  "deduplicateCalls cs = dedupCalls [] cs"

definition summarise ::
    "contract_call list \<Rightarrow> (string, bool) gomap \<Rightarrow> nat \<Rightarrow> (string, bool) gomap \<times> nat" where
  "summarise cs contracts maxDepth = foldl (\<lambda>(m, d) c.
     (gmPut (cc_ToContract c) True (gmPut (cc_FromContract c) True m),
      if cc_CallDepth c > d then cc_CallDepth c else d)) (contracts, maxDepth) cs"

text \<open>
  The result and the skip counter.  A host function other than a contract invocation has no call graph.
\<close>

definition extractCallGraph ::
    "sdk \<Rightarrow> ledger_tx \<Rightarrow> operation \<Rightarrow> nat \<Rightarrow> (call_graph option \<times> nat) res" where
  "extractCallGraph E tx op skipped = (case op_Body op of
     OpInvokeHostFunction iop \<Rightarrow> (case ih_HostFunction iop of
       HfInvokeContract (Some invoke) \<Rightarrow> (case scAddressString E (ic_ContractAddress invoke) of
           Err e \<Rightarrow> Err (''failed to get main contract ID: '' @ e)
         | Panic \<Rightarrow> Panic
         | Ok main \<Rightarrow>
             bindR (extractCrossContractCalls E tx main) (\<lambda>diagnosticCalls.
             bindR (extractCallsFromAuthEntries E (ih_Auth iop) main skipped) (\<lambda>(authCalls, skipped').
               let allCalls = deduplicateCalls (diagnosticCalls @ authCalls);
                   (contracts, maxDepth) = summarise allCalls (gmPut main True gmEmpty) 0;
                   involved = sortedSetKeys contracts
               in if allCalls = [] then Ok (None, skipped')
                  else Ok (Some \<lparr>cg_Calls = allCalls, cg_ContractsInvolved = involved,
                         cg_MaxDepth = maxDepth\<rparr>, skipped'))))
     | _ \<Rightarrow> Ok (None, skipped))
   | _ \<Rightarrow> Ok (None, skipped))"

section \<open>Authorization credentials\<close>

definition addressOrEmpty :: "sdk \<Rightarrow> sc_address \<Rightarrow> string res" where
  "addressOrEmpty E a = (case scAddressString E a of Ok s \<Rightarrow> Ok s | Err e \<Rightarrow> Ok [] | Panic \<Rightarrow> Panic)"

fun describeCredentials :: "sdk \<Rightarrow> credentials \<Rightarrow> (string \<times> string) res" where
  "describeCredentials E CrSourceAccount = Ok (''SOURCE_ACCOUNT'', [])"
| "describeCredentials E (CrAddress a) = mapR (Pair ''ADDRESS'') (addressOrEmpty E a)"
| "describeCredentials E (CrAddressV2 a) = mapR (Pair ''ADDRESS_V2'') (addressOrEmpty E a)"
| "describeCredentials E (CrAddressWithDelegates a) =
     mapR (Pair ''ADDRESS_WITH_DELEGATES'') (addressOrEmpty E a)"
| "describeCredentials E (CrOther n) = Ok (''UNKNOWN_'' @ sdec n, [])"

fun credentialsLoop :: "sdk \<Rightarrow> auth_entry list \<Rightarrow> string list \<Rightarrow> string list \<Rightarrow> (string list \<times> string list) res" where
  "credentialsLoop E [] types addrs = Ok (types, addrs)"
| "credentialsLoop E (e # es) types addrs =
     bindR (describeCredentials E (au_Credentials e)) (\<lambda>(t, a).
       credentialsLoop E es (types @ [t]) (addrs @ [a]))"

text \<open>The two slices, both nil when there is no entry.\<close>

definition extractAuthCredentials ::
    "sdk \<Rightarrow> auth_entry list \<Rightarrow> (string list option \<times> string list option) res" where
  "extractAuthCredentials E entries =
     (if entries = [] then Ok (None, None)
      else mapR (\<lambda>(ts, as). (Some ts, Some as)) (credentialsLoop E entries [] []))"

section \<open>The call as JSON\<close>

text \<open>
  \<open>json.Marshal(result.Calls)\<close>: the tags of \<open>ContractCall\<close> in declaration order,
  \<open>arguments\<close> left out when nil (\<open>omitempty\<close>).
\<close>

definition callJSON :: "contract_call \<Rightarrow> string" where
  "callJSON c = jsonObject ([(''from_contract'', jsonString (cc_FromContract c)),
     (''to_contract'', jsonString (cc_ToContract c)), (''function'', jsonString (cc_FunctionName c))]
     @ (if cc_Arguments c = GNil then [] else [(''arguments'', jsonMarshal (cc_Arguments c))])
     @ [(''call_depth'', showNat (cc_CallDepth c)), (''execution_order'', showNat (cc_ExecutionOrder c)),
        (''successful'', showBool (cc_Successful c))])"

definition callGraphToJSON ::
    "call_graph option \<Rightarrow> string option \<times> string list option \<times> nat option" where
  "callGraphToJSON result = (case result of
     None \<Rightarrow> (None, None, None)
   | Some g \<Rightarrow> if cg_Calls g = [] then (None, None, None)
       else (Some (jsonArray (map callJSON (cg_Calls g))), Some (cg_ContractsInvolved g),
             Some (cg_MaxDepth g)))"

section \<open>A source of calls\<close>

text \<open>
  What the merge relies on in each of its two sources: the calls are numbered consecutively from 0,
  they cross a contract boundary, and their depth starts at 1 and stays under a bound.
\<close>

locale call_source =
  fixes calls :: "'i \<Rightarrow> contract_call list res"
    and bound :: "'i \<Rightarrow> nat"
  assumes ordered: "calls i = Ok cs \<Longrightarrow> numberedFrom cc_ExecutionOrder 0 cs"
    and crossing: "calls i = Ok cs \<Longrightarrow> c \<in> set cs \<Longrightarrow> cc_FromContract c \<noteq> cc_ToContract c"
    and depth: "calls i = Ok cs \<Longrightarrow> c \<in> set cs \<Longrightarrow> 1 \<le> cc_CallDepth c \<and> cc_CallDepth c \<le> bound i"
begin

lemma order_unique: "calls i = Ok cs \<Longrightarrow> distinct (map cc_ExecutionOrder cs)"
  by (rule numberedFrom_distinct [OF ordered])

lemma order_is_position: "calls i = Ok cs \<Longrightarrow> k < length cs \<Longrightarrow> cc_ExecutionOrder (cs ! k) = k"
  using numberedFrom_nth [OF ordered] by simp

lemma two_contracts: "calls i = Ok cs \<Longrightarrow> cs \<noteq> [] \<Longrightarrow> \<exists>a b. a \<noteq> b \<and> {a, b} \<subseteq> cc_FromContract ` set cs \<union> cc_ToContract ` set cs"
  using crossing [of i cs "hd cs"] by (intro exI [of _ "cc_FromContract (hd cs)"] exI [of _ "cc_ToContract (hd cs)"]) auto

end

section \<open>The call stack of the diagnostic walk\<close>

text \<open>The states the walk can be in after \<open>n\<close> events, whatever the events are.\<close>

inductive walkReach :: "sdk \<Rightarrow> string \<Rightarrow> nat \<Rightarrow> walk \<Rightarrow> bool" for E main where
  reach_init: "walkReach E main 0 (initWalk main)"
| reach_step: "walkReach E main n st \<Longrightarrow> diagStep E main ev nx st = Ok st' \<Longrightarrow>
    walkReach E main (Suc n) st'"

lemma diagWalk_reach:
  "walkReach E main n st \<Longrightarrow> diagWalk E main evs st = Ok st' \<Longrightarrow> walkReach E main (n + length evs) st'"
proof (induction evs arbitrary: n st)
  case (Cons ev evs)
  then obtain st1 where "diagStep E main ev (headOpt evs) st = Ok st1" "diagWalk E main evs st1 = Ok st'"
    by (auto simp: bindR_Ok_iff)
  with Cons.prems(1) have "walkReach E main (Suc n) st1" by (blast intro: reach_step)
  from Cons.IH [OF this \<open>diagWalk E main evs st1 = Ok st'\<close>] show ?case by simp
qed simp

definition walkCalls :: "nat \<Rightarrow> walk \<Rightarrow> bool" where
  "walkCalls n st \<longleftrightarrow> numberedFrom cc_ExecutionOrder 0 (w_Calls st) \<and> w_Order st = length (w_Calls st)
     \<and> (\<forall>c \<in> set (w_Calls st). cc_FromContract c \<noteq> cc_ToContract c
          \<and> 1 \<le> cc_CallDepth c \<and> cc_CallDepth c \<le> n)"

definition walkStack :: "string \<Rightarrow> nat \<Rightarrow> walk \<Rightarrow> bool" where
  "walkStack main n st \<longleftrightarrow> length (w_Stack st) = w_Depth st + 1 \<and> w_Depth st \<le> n
     \<and> last (w_Stack st) = main \<and> successively (\<noteq>) (w_Stack st)"

lemma emitCall_walkCalls:
  assumes "walkCalls n st" "w_Depth st \<le> n" "from \<noteq> to"
  shows "walkCalls (Suc n) (emitCall from to fn args succ st)"
  using assms by (auto simp: walkCalls_def emitCall_def)

lemma walkCalls_mono: "walkCalls n st \<Longrightarrow> walkCalls (Suc n) st"
  by (auto simp: walkCalls_def)

lemma pattern1_Ok:
  assumes "pattern1 E main ev nx eid t st = Ok st'"
  shows "st' = st \<or> (\<exists>to fn args succ. eid = main \<and> eid \<noteq> to \<and> st' = emitCall eid to fn args succ st)"
  using assms by (auto simp: pattern1_def bindR_Ok_iff split: if_split_asm option.splits res.splits) metis

lemma pattern2_Ok:
  assumes "pattern2 E main ev eid t st = Ok st'"
  shows "st' = st \<or> (\<exists>from fn args succ. eid \<noteq> main \<and> from \<noteq> eid \<and> st' = emitCall from eid fn args succ st)"
  using assms by (auto simp: pattern2_def bindR_Ok_iff Let_def split: if_split_asm)

lemma emitCall_stack [simp]:
  "w_Stack (emitCall f t fn a s st) = w_Stack st" "w_Depth (emitCall f t fn a s st) = w_Depth st"
  by (simp_all add: emitCall_def)

lemma updateStack_calls [simp]:
  "w_Calls (updateStack t e st) = w_Calls st" "w_Order (updateStack t e st) = w_Order st"
  by (simp_all add: updateStack_def Let_def)

lemma updateStack_walkStack: "walkStack main n st \<Longrightarrow> walkStack main (Suc n) (updateStack t e st)"
  by (cases "w_Stack st")
    (auto simp: walkStack_def updateStack_def Let_def successively_Cons split: if_splits)

lemma diagStep_inv:
  assumes "diagStep E main ev nx st = Ok st'" "walkCalls n st" "walkStack main n st"
  shows "walkCalls (Suc n) st' \<and> walkStack main (Suc n) st'"
proof -
  have same: "walkCalls (Suc n) st \<and> walkStack main (Suc n) st"
    using assms(2,3) by (auto simp: walkCalls_def walkStack_def)
  show ?thesis
  proof (cases "st' = st")
    case True
    with same show ?thesis by simp
  next
    case False
    with assms(1) obtain eid t st1 st2 where
      1: "pattern1 E main ev nx eid t st = Ok st1" and 2: "pattern2 E main ev eid t st1 = Ok st2"
      and st': "st' = updateStack t eid st2"
      by (auto simp: diagStep_def bindR_Ok_iff split: option.splits res.splits)
    have d: "w_Depth st \<le> n" using assms(3) by (simp add: walkStack_def)
    have "walkStack main n st1 \<and> (walkCalls (Suc n) st1 \<and> (eid = main \<or> st1 = st))"
      using pattern1_Ok [OF 1] assms(2,3) d
      by (auto simp: walkStack_def intro: emitCall_walkCalls walkCalls_mono)
    then have "walkStack main n st2 \<and> walkCalls (Suc n) st2"
      using pattern2_Ok [OF 2] assms(2,3) d
      by (auto simp: walkStack_def intro: emitCall_walkCalls walkCalls_mono)
    then show ?thesis
      unfolding st' using updateStack_walkStack by (auto simp: walkCalls_def)
  qed
qed

lemma walkReach_inv: "walkReach E main n st \<Longrightarrow> walkCalls n st \<and> walkStack main n st"
proof (induction rule: walkReach.induct)
  case reach_init
  then show ?case by (simp add: walkCalls_def walkStack_def initWalk_def)
next
  case (reach_step n st ev nx st')
  then show ?case using diagStep_inv by blast
qed

definition diagnosticEventCount :: "ledger_tx \<Rightarrow> nat" where
  "diagnosticEventCount tx = (case tx_Events tx of Ok evs \<Rightarrow> length (te_DiagnosticEvents evs) | _ \<Rightarrow> 0)"

lemma extractCrossContractCalls_inv:
  assumes "extractCrossContractCalls E tx main = Ok cs"
  shows "\<exists>st. walkCalls (diagnosticEventCount tx) st \<and> w_Calls st = cs"
proof (cases "cs = []")
  case True
  then show ?thesis by (intro exI [of _ "initWalk main"]) (simp add: walkCalls_def initWalk_def)
next
  case False
  with assms obtain evs st where "tx_Events tx = Ok evs"
    "diagWalk E main (te_DiagnosticEvents evs) (initWalk main) = Ok st" "cs = w_Calls st"
    by (auto simp: extractCrossContractCalls_def mapR_Ok_iff split: res.splits if_splits)
  moreover from this(2) have "walkReach E main (0 + length (te_DiagnosticEvents evs)) st"
    by (rule diagWalk_reach [OF reach_init])
  then have "walkCalls (length (te_DiagnosticEvents evs)) st" using walkReach_inv by fastforce
  ultimately show ?thesis by (auto simp: diagnosticEventCount_def)
qed

interpretation diag: call_source
  "\<lambda>(E, tx, main). extractCrossContractCalls E tx main" "\<lambda>(E, tx, main). diagnosticEventCount tx"
  by unfold_locales (auto dest!: extractCrossContractCalls_inv simp: walkCalls_def)

section \<open>The authorization walk\<close>

definition authCallsInv :: "auth_walk \<Rightarrow> bool" where
  "authCallsInv st \<longleftrightarrow> numberedFrom cc_ExecutionOrder 0 (aw_Calls st) \<and> aw_Order st = length (aw_Calls st)
     \<and> (\<forall>c \<in> set (aw_Calls st). cc_FromContract c \<noteq> cc_ToContract c
          \<and> 1 \<le> cc_CallDepth c \<and> cc_CallDepth c \<le> 10 \<and> cc_Successful c)"

lemma scAddressContractStrKey_Ok:
  assumes "scAddressContractStrKey E a st = Ok (r, st')"
  shows "aw_Calls st' = aw_Calls st \<and> aw_Order st' = aw_Order st
    \<and> aw_Skipped st' = aw_Skipped st + (if r = None then 1 else 0)"
  using assms
  by (cases "(E, a, st)" rule: scAddressContractStrKey.cases) (auto split: res.splits)

text \<open>What a node does: nothing but the skip counter, or one call from the caller to its own contract.\<close>

lemma authNode_Ok:
  assumes "authNode E f from depth st = Ok (from', st')"
  shows "aw_Skipped st \<le> aw_Skipped st' \<and>
    ((from' = from \<and> aw_Calls st' = aw_Calls st \<and> aw_Order st' = aw_Order st)
     \<or> (\<exists>fn. from' \<noteq> from \<and> aw_Order st' = aw_Order st + 1
          \<and> aw_Calls st' = aw_Calls st @ [\<lparr>cc_FromContract = from, cc_ToContract = from',
              cc_FunctionName = fn, cc_Arguments = GNil, cc_CallDepth = depth,
              cc_ExecutionOrder = aw_Order st, cc_Successful = True\<rparr>]))"
proof (cases "\<exists>args. f = AfContractFn (Some args)")
  case False
  with assms show ?thesis by (auto simp: authNode_def split: auth_function.splits option.splits)
next
  case True
  then obtain args where f: "f = AfContractFn (Some args)" by blast
  with assms obtain r st1 where s: "scAddressContractStrKey E (ic_ContractAddress args) st = Ok (r, st1)"
    by (auto simp: authNode_def bindR_Ok_iff)
  with scAddressContractStrKey_Ok [OF s] assms f show ?thesis
    by (cases r) (auto simp: authNode_def split: if_split_asm)
qed

lemma authNode_inv:
  assumes "authNode E f from depth st = Ok (from', st')" "authCallsInv st" "1 \<le> depth" "depth \<le> 10"
  shows "authCallsInv st' \<and> aw_Skipped st \<le> aw_Skipped st'"
  using authNode_Ok [OF assms(1)] assms(2-4) by (auto simp: authCallsInv_def)

lemma authInvocation_inv:
  "authInvocation E from depth i st = Ok st' \<Longrightarrow> authCallsInv st \<Longrightarrow> 1 \<le> depth \<Longrightarrow>
     authCallsInv st' \<and> aw_Skipped st \<le> aw_Skipped st'"
  "authInvocations E from depth is st = Ok st' \<Longrightarrow> authCallsInv st \<Longrightarrow> 1 \<le> depth \<Longrightarrow>
     authCallsInv st' \<and> aw_Skipped st \<le> aw_Skipped st'"
proof (induction E "from" depth i st and E "from" depth "is" st arbitrary: st' and st'
    rule: authInvocation_authInvocations.induct)
  case (1 E "from" depth f subs st)
  show ?case
  proof (cases "depth > 10")
    case True
    with 1 show ?thesis by simp
  next
    case False
    with 1(2) obtain from1 st1 where n: "authNode E f from depth st = Ok (from1, st1)"
      and r: "authInvocations E from1 (depth + 1) subs st1 = Ok st'"
      by (auto simp: bindR_Ok_iff)
    from authNode_inv [OF n 1(3,4)] False have "authCallsInv st1" "aw_Skipped st \<le> aw_Skipped st1" by auto
    with 1(1) [OF False r] show ?thesis by simp
  qed
next
  case (3 E "from" depth iv ivs st)
  then show ?case by (fastforce simp: bindR_Ok_iff)
qed simp

lemma extractCallsFromAuthEntries_inv:
  assumes "extractCallsFromAuthEntries E entries main k = Ok (cs, k')"
  shows "\<exists>st. authCallsInv st \<and> aw_Calls st = cs \<and> k \<le> k'"
proof -
  from assms obtain st where st: "authInvocations E main 1 (map au_RootInvocation entries)
      \<lparr>aw_Calls = [], aw_Order = 0, aw_Skipped = k\<rparr> = Ok st" "cs = aw_Calls st" "k' = aw_Skipped st"
    by (auto simp: extractCallsFromAuthEntries_def mapR_Ok_iff)
  from authInvocation_inv(2) [OF st(1)] have "authCallsInv st \<and> k \<le> aw_Skipped st"
    by (simp add: authCallsInv_def)
  with st show ?thesis by blast
qed

interpretation auth: call_source
  "\<lambda>(E, entries, main, k). mapR fst (extractCallsFromAuthEntries E entries main k)" "\<lambda>i. 10"
  by unfold_locales (auto simp: mapR_Ok_iff authCallsInv_def dest!: extractCallsFromAuthEntries_inv)

section \<open>When the walks return\<close>

text \<open>The values the diagnostic walk converts: the first topic and the data of an event.\<close>

definition evSafe :: "diagnostic_event \<Rightarrow> bool" where
  "evSafe ev \<longleftrightarrow> (case evBody (de_Event ev) of None \<Rightarrow> True
     | Some (ts, d) \<Rightarrow> (ts = [] \<or> \<not> derefsNil (hd ts)) \<and> \<not> derefsNil d)"

lemma extractFirstTopic_total:
  assumes "strkeyNoPanic E" "evSafe ev"
  obtains s where "extractFirstTopic E (de_Event ev) = Ok s"
  using assms convertScVal_panicking [OF assms(1)]
  by (fastforce simp: extractFirstTopic_def evSafe_def split: option.splits list.splits res.splits gval.splits)

lemma extractArguments_total:
  assumes "strkeyNoPanic E" "evSafe ev"
  obtains g where "extractArguments E (de_Event ev) = Ok g"
  using assms convertScVal_panicking [OF assms(1)]
  by (fastforce simp: extractArguments_def evSafe_def split: option.splits res.splits)

lemma diagStep_total:
  assumes "strkeyNoPanic E" "evSafe ev" "\<And>x. nx = Some x \<Longrightarrow> evSafe x"
  shows "\<exists>st'. diagStep E main ev nx st = Ok st'"
proof -
  have sk: "strkeyEncode E v bs \<noteq> Panic" for v bs using assms(1) by (simp add: strkeyNoPanic_def)
  obtain t where t: "extractFirstTopic E (de_Event ev) = Ok t" using extractFirstTopic_total [OF assms(1,2)] .
  obtain g where g: "extractArguments E (de_Event ev) = Ok g" using extractArguments_total [OF assms(1,2)] .
  have 1: "\<exists>st1. pattern1 E main ev nx eid t st = Ok st1" for eid
  proof (cases nx)
    case (Some x)
    obtain t' where "extractFirstTopic E (de_Event x) = Ok t'"
      using extractFirstTopic_total [OF assms(1) assms(3) [OF Some]] .
    with Some g sk show ?thesis by (auto simp: pattern1_def split: option.splits res.splits)
  qed (simp add: pattern1_def)
  have 2: "\<exists>st2. pattern2 E main ev eid t st1 = Ok st2" for eid st1
    using g by (simp add: pattern2_def Let_def)
  show ?thesis
  proof (cases "ce_ContractId (de_Event ev)")
    case (Some cid)
    show ?thesis
    proof (cases "strkeyEncode E VContract cid")
      case (Ok eid)
      obtain st1 where "pattern1 E main ev nx eid t st = Ok st1" using 1 by blast
      moreover obtain st2 where "pattern2 E main ev eid t st1 = Ok st2" using 2 by blast
      ultimately show ?thesis using Some Ok t by (simp add: diagStep_def)
    qed (use Some sk in \<open>simp_all add: diagStep_def\<close>)
  qed (simp add: diagStep_def)
qed

lemma diagWalk_total:
  assumes "strkeyNoPanic E" "\<And>ev. ev \<in> set evs \<Longrightarrow> evSafe ev"
  shows "\<exists>st'. diagWalk E main evs st = Ok st'"
  using assms(2)
proof (induction evs arbitrary: st)
  case (Cons ev evs)
  have "evSafe x" if "headOpt evs = Some x" for x
    using that Cons.prems by (cases evs) (auto simp: headOpt_def)
  with Cons.prems [of ev] obtain st1 where "diagStep E main ev (headOpt evs) st = Ok st1"
    using diagStep_total [OF assms(1), of ev "headOpt evs" main st] by auto
  with Cons show ?case by simp
qed simp

text \<open>
  C24: the diagnostic walk returns on every transaction whose events hold no nil inner pointer, and the
  calls it returns are numbered 0, 1, 2, ... in order, each from one contract to another, at a depth
  between 1 and the number of diagnostic events.
\<close>

theorem diagnostic_calls:
  assumes "strkeyNoPanic E" "tx_Events tx = Ok evs" "\<forall>ev \<in> set (te_DiagnosticEvents evs). evSafe ev"
  shows "\<exists>cs. extractCrossContractCalls E tx main = Ok cs
    \<and> map cc_ExecutionOrder cs = [0 ..< length cs]
    \<and> (\<forall>c \<in> set cs. cc_FromContract c \<noteq> cc_ToContract c \<and> 1 \<le> cc_CallDepth c
         \<and> cc_CallDepth c \<le> length (te_DiagnosticEvents evs))"
proof -
  obtain st where "diagWalk E main (te_DiagnosticEvents evs) (initWalk main) = Ok st"
    using diagWalk_total [OF assms(1)] assms(3) by blast
  then obtain cs where cs: "extractCrossContractCalls E tx main = Ok cs"
    using assms(2) by (cases "te_DiagnosticEvents evs = []") (auto simp: extractCrossContractCalls_def)
  have "diagnosticEventCount tx = length (te_DiagnosticEvents evs)"
    using assms(2) by (simp add: diagnosticEventCount_def)
  then show ?thesis
    using diag.ordered [of "(E, tx, main)"] diag.crossing [of "(E, tx, main)"]
      diag.depth [of "(E, tx, main)"] cs
    by (auto simp: numberedFrom_def)
qed

definition demoCallTx :: ledger_tx where
  "demoCallTx = demoTx\<lparr>tx_Events := Ok \<lparr>te_DiagnosticEvents =
     [demoEvent [0] ''fn_call'' ''swap'', demoEvent [1] ''fn_call'' ''transfer'',
      demoEvent [2] ''fn_call'' ''balance'', demoEvent [2] ''fn_return'' ''balance'',
      demoEvent [1] ''fn_return'' ''transfer''],
     te_OperationEvents = [], te_TransactionEvents = []\<rparr>\<rparr>"

theorem diagnostic_calls_witness:
  "\<exists>cs. extractCrossContractCalls demoSdk demoCallTx ''CAA'' = Ok cs \<and> length cs = 3
    \<and> map cc_ExecutionOrder cs = [0, 1, 2] \<and> (\<forall>c \<in> set cs. cc_CallDepth c \<le> 5)"
proof -
  obtain evs where evs: "tx_Events demoCallTx = Ok evs" "length (te_DiagnosticEvents evs) = 5"
    and safe: "\<forall>ev \<in> set (te_DiagnosticEvents evs). evSafe ev"
    by (simp add: demoCallTx_def evSafe_def evBody_def demoEvent_def)
  have "mapR length (extractCrossContractCalls demoSdk demoCallTx ''CAA'') = Ok 3" by code_simp
  with diagnostic_calls [OF demoSdk_noPanic evs(1) safe, of "''CAA''"] evs(2) show ?thesis
    by (auto simp: upt_rec)
qed

text \<open>
  C25: in every state the diagnostic walk can reach, the call stack has the main contract at its bottom,
  no contract directly above itself, and one entry more than the current depth, which is at most the
  number of events read.
\<close>

theorem walk_stack_invariant:
  assumes "walkReach E main n st"
  shows "last (w_Stack st) = main \<and> successively (\<noteq>) (w_Stack st)
    \<and> length (w_Stack st) = w_Depth st + 1 \<and> w_Depth st \<le> n"
  using walkReach_inv [OF assms] by (simp add: walkStack_def)

theorem walk_stack_invariant_witness:
  "\<exists>st. diagStep demoSdk ''CAA'' (demoEvent [1] ''fn_call'' ''f'') None (initWalk ''CAA'') = Ok st
    \<and> w_Stack st = [''CAB'', ''CAA''] \<and> last (w_Stack st) = ''CAA'' \<and> w_Depth st = 1"
proof -
  have "mapR w_Stack (diagStep demoSdk ''CAA'' (demoEvent [1] ''fn_call'' ''f'') None (initWalk ''CAA''))
      = Ok [''CAB'', ''CAA'']" by code_simp
  then obtain st where st: "diagStep demoSdk ''CAA'' (demoEvent [1] ''fn_call'' ''f'') None (initWalk ''CAA'') = Ok st"
    and stack: "w_Stack st = [''CAB'', ''CAA'']" by (auto simp: mapR_Ok_iff)
  have "walkReach demoSdk ''CAA'' (Suc 0) st" using reach_init st by (rule reach_step)
  from walk_stack_invariant [OF this] st stack show ?thesis by auto
qed

section \<open>The authorization walk returns\<close>

fun authSafe :: "auth_invocation \<Rightarrow> bool" where
  "authSafe (AuthInv f subs) \<longleftrightarrow>
     (case f of AfContractFn (Some args) \<Rightarrow> ic_ContractAddress args \<noteq> AddrContract None | _ \<Rightarrow> True)
     \<and> (\<forall>s \<in> set subs. authSafe s)"

lemma authNode_total:
  assumes "strkeyNoPanic E" "authSafe (AuthInv f subs)"
  shows "\<exists>r. authNode E f from depth st = Ok r"
proof (cases "\<exists>args. f = AfContractFn (Some args)")
  case True
  then obtain args where f: "f = AfContractFn (Some args)" by blast
  have "\<exists>r. scAddressContractStrKey E (ic_ContractAddress args) st = Ok r"
    using assms f by (cases "(E, ic_ContractAddress args, st)" rule: scAddressContractStrKey.cases)
      (auto simp: strkeyNoPanic_def split: res.splits)
  with f show ?thesis by (auto simp: authNode_def split: option.splits)
qed (auto simp: authNode_def split: auth_function.splits option.splits)

lemma authInvocation_total:
  assumes E: "strkeyNoPanic E"
  shows "authSafe i \<Longrightarrow> \<exists>st'. authInvocation E from depth i st = Ok st'"
    and "\<forall>i \<in> set is. authSafe i \<Longrightarrow> \<exists>st'. authInvocations E from depth is st = Ok st'"
  using E
proof (induction E "from" depth i st and E "from" depth "is" st
    rule: authInvocation_authInvocations.induct)
  case (1 E "from" depth f subs st)
  show ?case
  proof (cases "depth > 10")
    case False
    from authNode_total [OF 1(3,2)] obtain from1 st1
      where n: "authNode E f from depth st = Ok (from1, st1)" by fastforce
    with 1(1) [OF False, of from1 st1] 1(2,3) False show ?thesis by simp
  qed simp
next
  case (3 E "from" depth iv ivs st)
  then obtain st1 where "authInvocation E from depth iv st = Ok st1" by auto
  with 3 show ?case by auto
qed simp

text \<open>
  The authorization walk returns on every list of entries whose contract addresses are present; its
  calls are numbered 0, 1, 2, ..., go from one contract to another at a depth between 1 and 10, are
  recorded as successful, and the skip counter never goes down.
\<close>

theorem authorization_calls:
  assumes "strkeyNoPanic E" "\<forall>e \<in> set entries. authSafe (au_RootInvocation e)"
  shows "\<exists>cs k'. extractCallsFromAuthEntries E entries main k = Ok (cs, k')
    \<and> map cc_ExecutionOrder cs = [0 ..< length cs]
    \<and> (\<forall>c \<in> set cs. cc_FromContract c \<noteq> cc_ToContract c \<and> 1 \<le> cc_CallDepth c
         \<and> cc_CallDepth c \<le> 10 \<and> cc_Successful c)
    \<and> k \<le> k'"
proof -
  have "\<forall>i \<in> set (map au_RootInvocation entries). authSafe i" using assms(2) by simp
  from authInvocation_total(2) [OF assms(1) this] obtain cs k'
    where cs: "extractCallsFromAuthEntries E entries main k = Ok (cs, k')"
    unfolding extractCallsFromAuthEntries_def by (metis mapR.simps(1))
  with extractCallsFromAuthEntries_inv [OF this] show ?thesis
    by (auto simp: authCallsInv_def numberedFrom_def)
qed

definition demoAuth :: "auth_entry list" where
  "demoAuth = [\<lparr>au_Credentials = CrSourceAccount, au_RootInvocation =
     AuthInv (AfContractFn (Some \<lparr>ic_ContractAddress = AddrContract (Some [1]), ic_FunctionName = ''swap'', ic_Args = []\<rparr>))
      [AuthInv (AfContractFn (Some \<lparr>ic_ContractAddress = AddrContract (Some [2]), ic_FunctionName = ''transfer'', ic_Args = []\<rparr>)) [],
       AuthInv (AfContractFn (Some \<lparr>ic_ContractAddress = AddrAccount None, ic_FunctionName = ''x'', ic_Args = []\<rparr>)) []]\<rparr>]"

theorem authorization_calls_witness:
  "\<exists>cs. extractCallsFromAuthEntries demoSdk demoAuth ''CAA'' 4 = Ok (cs, 5)
    \<and> map cc_ExecutionOrder cs = [0, 1] \<and> (\<forall>c \<in> set cs. cc_CallDepth c \<le> 10)"
proof -
  have safe: "\<forall>e \<in> set demoAuth. authSafe (au_RootInvocation e)" by (simp add: demoAuth_def)
  have "mapR (\<lambda>(cs, k). (length cs, k)) (extractCallsFromAuthEntries demoSdk demoAuth ''CAA'' 4) = Ok (2, 5)"
    by code_simp
  with authorization_calls [OF demoSdk_noPanic safe, of "''CAA''" 4] show ?thesis
    by (auto simp: upt_rec)
qed

section \<open>Deduplication\<close>

lemma dedupCalls_nths:
  "dedupCalls seen cs
   = nths cs {i. i < length cs \<and> callKey (cs ! i) \<notin> set seen \<union> callKey ` set (take i cs)}"
proof (induction cs arbitrary: seen)
  case (Cons c cs)
  have eq: "{j. Suc j < length (c # cs) \<and> callKey ((c # cs) ! Suc j) \<notin> set seen \<union> callKey ` set (take (Suc j) (c # cs))}
     = {j. j < length cs \<and> callKey (cs ! j) \<notin> set (callKey c # seen) \<union> callKey ` set (take j cs)}"
    by auto
  show ?case
  proof (cases "callKey c \<in> set seen")
    case True
    then have "set (callKey c # seen) = set seen" by auto
    then have "{j. j < length cs \<and> callKey (cs ! j) \<notin> set (callKey c # seen) \<union> callKey ` set (take j cs)}
        = {j. j < length cs \<and> callKey (cs ! j) \<notin> set seen \<union> callKey ` set (take j cs)}" by simp
    with True Cons.IH [of seen] eq show ?thesis by (simp add: nths_Cons del: set_simps)
  next
    case False
    then show ?thesis using Cons.IH [of "callKey c # seen"] by (simp add: nths_Cons conj_left_commute)
  qed
qed simp

lemma dedupCalls_keys:
  "callKey ` set (dedupCalls seen cs) = callKey ` set cs - set seen"
  "distinct (map callKey (dedupCalls seen cs))"
proof (induction cs arbitrary: seen)
  case Nil
  { case 1 then show ?case by simp }
  { case 2 then show ?case by simp }
next
  case (Cons c cs)
  { case 1 then show ?case by (auto simp: Cons.IH(1)) }
  { case 2
    have "callKey c \<notin> callKey ` set (dedupCalls (callKey c # seen) cs)" by (simp add: Cons.IH(1))
    then show ?case by (simp add: Cons.IH(2)) }
qed

text \<open>
  Deduplication keeps exactly the calls whose key no earlier call has, in their order; no key is lost
  and none is kept twice.
\<close>

theorem deduplicateCalls_first:
  "deduplicateCalls cs = nths cs {i. i < length cs \<and> callKey (cs ! i) \<notin> callKey ` set (take i cs)}
   \<and> distinct (map callKey (deduplicateCalls cs))
   \<and> callKey ` set (deduplicateCalls cs) = callKey ` set cs"
  by (simp add: deduplicateCalls_def dedupCalls_nths [symmetric] dedupCalls_keys)
     (simp add: dedupCalls_nths)

text \<open>
  A key determines its call's caller, callee, function and depth, as long as the contracts are
  strkeys: no function name, whatever punctuation it has, makes two different calls collide.
\<close>

theorem callKey_injective:
  assumes "\<forall>ch \<in> set (cc_FromContract c) \<union> set (cc_ToContract c) \<union> set (cc_FromContract d) \<union> set (cc_ToContract d).
      base32Char ch"
  shows "callKey c = callKey d \<longleftrightarrow> cc_FromContract c = cc_FromContract d \<and> cc_ToContract c = cc_ToContract d
    \<and> cc_FunctionName c = cc_FunctionName d \<and> cc_CallDepth c = cc_CallDepth d"
proof
  have no: "\<not> base32Char (CHR ''-'')" "\<not> base32Char (CHR '':'')" by (auto simp: base32Char_def isDigit_def)
  assume eq: "callKey c = callKey d"
  have "cc_FromContract c = cc_FromContract d
      \<and> CHR ''>'' # cc_ToContract c @ '':'' @ cc_FunctionName c @ ''@'' @ showNat (cc_CallDepth c)
      = CHR ''>'' # cc_ToContract d @ '':'' @ cc_FunctionName d @ ''@'' @ showNat (cc_CallDepth d)"
    by (rule append_sep_inj [of "CHR ''-''"]) (use assms no eq in \<open>auto simp: callKey_def\<close>)
  moreover from this have "cc_ToContract c = cc_ToContract d
      \<and> cc_FunctionName c @ ''@'' @ showNat (cc_CallDepth c) = cc_FunctionName d @ ''@'' @ showNat (cc_CallDepth d)"
    by (intro append_sep_inj [of "CHR '':''"]) (use assms no in auto)
  moreover from this have "cc_FunctionName c = cc_FunctionName d \<and> showNat (cc_CallDepth c) = showNat (cc_CallDepth d)"
    by (intro append_last_sep_inj [of "CHR ''@''"]) (auto dest: showNat_digits simp: isDigit_not_punct)
  ultimately show "cc_FromContract c = cc_FromContract d \<and> cc_ToContract c = cc_ToContract d
    \<and> cc_FunctionName c = cc_FunctionName d \<and> cc_CallDepth c = cc_CallDepth d"
    by simp
qed (simp add: callKey_def)

definition demoCall :: "string \<Rightarrow> nat \<Rightarrow> contract_call" where
  "demoCall fn depth = \<lparr>cc_FromContract = ''CAA'', cc_ToContract = ''CAB'', cc_FunctionName = fn,
     cc_Arguments = GNil, cc_CallDepth = depth, cc_ExecutionOrder = 0, cc_Successful = True\<rparr>"

theorem callKey_injective_witness:
  "callKey (demoCall ''f@1'' 2) \<noteq> callKey (demoCall ''f'' 12)"
proof -
  have "\<forall>ch \<in> set (cc_FromContract (demoCall ''f@1'' 2)) \<union> set (cc_ToContract (demoCall ''f@1'' 2))
      \<union> set (cc_FromContract (demoCall ''f'' 12)) \<union> set (cc_ToContract (demoCall ''f'' 12)). base32Char ch"
    by (simp add: demoCall_def base32Char_def isDigit_def)
  from callKey_injective [OF this] show ?thesis by (simp add: demoCall_def)
qed

section \<open>The merged graph\<close>

lemma summarise_eq:
  assumes "summarise cs m d = (m', d')" "gmInv m"
  shows "gmInv m' \<and> dom (gmGet m') = dom (gmGet m) \<union> cc_FromContract ` set cs \<union> cc_ToContract ` set cs
    \<and> d' = Max (insert d (cc_CallDepth ` set cs))"
  using assms
proof (induction cs arbitrary: m d)
  case Nil
  then show ?case by (simp add: summarise_def)
next
  case (Cons c cs)
  have ins: "Max (insert (if x > d then x else d) S) = Max (insert d (insert x S))" if "finite S" for x :: nat and S
    using that by (cases "S = {}") (auto simp: max_def)
  from Cons.prems(1) have "summarise cs (gmPut (cc_ToContract c) True (gmPut (cc_FromContract c) True m))
      (if cc_CallDepth c > d then cc_CallDepth c else d) = (m', d')"
    by (simp add: summarise_def)
  from Cons.IH [OF this] Cons.prems(2) show ?case by (auto simp: ins simp del: Max_insert)
qed

lemma set_deduplicateCalls: "set (deduplicateCalls cs) \<subseteq> set cs"
  by (simp add: deduplicateCalls_def dedupCalls_nths set_nths_subset)

lemma merged_calls:
  assumes "extractCrossContractCalls E tx main = Ok ds"
    and "extractCallsFromAuthEntries E entries main k = Ok (as, k')"
    and "c \<in> set (deduplicateCalls (ds @ as))"
  shows "cc_FromContract c \<noteq> cc_ToContract c \<and> 1 \<le> cc_CallDepth c
    \<and> cc_CallDepth c \<le> max 10 (diagnosticEventCount tx)"
proof -
  have "c \<in> set ds \<or> c \<in> set as" using assms(3) set_deduplicateCalls [of "ds @ as"] by auto
  then show ?thesis
    using diag.crossing [of "(E, tx, main)" ds c] diag.depth [of "(E, tx, main)" ds c]
      auth.crossing [of "(E, entries, main, k)" as c] auth.depth [of "(E, entries, main, k)" as c] assms(1,2)
    by auto
qed

lemma extractCallGraph_Some:
  assumes "extractCallGraph E tx op k = Ok (Some g, k')"
  obtains iop invoke main ds as contracts where
    "op_Body op = OpInvokeHostFunction iop" "ih_HostFunction iop = HfInvokeContract (Some invoke)"
    "scAddressString E (ic_ContractAddress invoke) = Ok main"
    "extractCrossContractCalls E tx main = Ok ds"
    "extractCallsFromAuthEntries E (ih_Auth iop) main k = Ok (as, k')"
    "cg_Calls g = deduplicateCalls (ds @ as)" "cg_Calls g \<noteq> []"
    "summarise (cg_Calls g) (gmPut main True gmEmpty) 0 = (contracts, cg_MaxDepth g)"
    "cg_ContractsInvolved g = sortedSetKeys contracts"
proof -
  from assms obtain iop invoke main where
    1: "op_Body op = OpInvokeHostFunction iop" "ih_HostFunction iop = HfInvokeContract (Some invoke)"
    "scAddressString E (ic_ContractAddress invoke) = Ok main"
    by (auto simp: extractCallGraph_def split: op_body.splits host_function.splits option.splits res.splits)
  with assms obtain ds as k1 where
    2: "extractCrossContractCalls E tx main = Ok ds"
    "extractCallsFromAuthEntries E (ih_Auth iop) main k = Ok (as, k1)"
    by (auto simp: extractCallGraph_def bindR_Ok_iff)
  obtain contracts d where
    3: "summarise (deduplicateCalls (ds @ as)) (gmPut main True gmEmpty) 0 = (contracts, d)"
    by fastforce
  have "deduplicateCalls (ds @ as) \<noteq> [] \<and> k1 = k'
    \<and> g = \<lparr>cg_Calls = deduplicateCalls (ds @ as), cg_ContractsInvolved = sortedSetKeys contracts, cg_MaxDepth = d\<rparr>"
    using assms 1 2 3 by (simp add: extractCallGraph_def Let_def split: if_splits)
  with that 1 2 3 show ?thesis by auto
qed

text \<open>The contracts and the depth of a list of calls.\<close>

lemma summary_facts:
  assumes "summarise cs (gmPut main True gmEmpty) 0 = (contracts, depth)" "cs \<noteq> []"
    and "\<And>c. c \<in> set cs \<Longrightarrow> cc_FromContract c \<noteq> cc_ToContract c \<and> 1 \<le> cc_CallDepth c \<and> cc_CallDepth c \<le> bound"
  shows "sorted (sortedSetKeys contracts)" "distinct (sortedSetKeys contracts)"
    "set (sortedSetKeys contracts) = {main} \<union> cc_FromContract ` set cs \<union> cc_ToContract ` set cs"
    "2 \<le> length (sortedSetKeys contracts)" "depth = Max (cc_CallDepth ` set cs)" "1 \<le> depth" "depth \<le> bound"
proof -
  let ?S = "{main} \<union> cc_FromContract ` set cs \<union> cc_ToContract ` set cs"
  from summarise_eq [OF assms(1)] have s: "gmInv contracts" "dom (gmGet contracts) = ?S"
    and d: "depth = Max (insert 0 (cc_CallDepth ` set cs))" by auto
  have i: "sortedSetKeys contracts = sorted_list_of_set ?S" using s by (simp add: sortedSetKeys_eq)
  let ?c = "hd cs"
  have hd: "?c \<in> set cs" using assms(2) by simp
  show "sorted (sortedSetKeys contracts)" unfolding i by (rule sorted_sorted_list_of_set)
  show dist: "distinct (sortedSetKeys contracts)" unfolding i by (rule distinct_sorted_list_of_set)
  show keys: "set (sortedSetKeys contracts) = ?S" unfolding i by (rule set_sorted_list_of_set) simp
  have "card {cc_FromContract ?c, cc_ToContract ?c} \<le> card ?S" using hd by (intro card_mono) auto
  with assms(3) [OF hd] show "2 \<le> length (sortedSetKeys contracts)" using distinct_card [OF dist] unfolding keys by simp
  show d': "depth = Max (cc_CallDepth ` set cs)" using d assms(2) by (simp add: Max_insert)
  show "1 \<le> depth" unfolding d' using hd assms(3) [OF hd] by (meson Max_ge finite_imageI finite_set image_eqI le_trans)
  show "depth \<le> bound" unfolding d' using assms(2,3) by (subst Max_le_iff) auto
qed

text \<open>
  C14: the calls of a call graph that is returned are those of the diagnostic events followed by those of the
  authorization entries, of each key the first one, and there is at least one; its contract list is exactly the main
  contract with every caller and callee, ascending and without repetition, and holds at least two contracts; its
  depth is the largest of its calls, and bounded by the events or by 10.
\<close>

theorem extractCallGraph_summary:
  assumes "extractCallGraph E tx op k = Ok (Some g, k')"
  shows "\<exists>iop invoke main ds as. op_Body op = OpInvokeHostFunction iop
    \<and> ih_HostFunction iop = HfInvokeContract (Some invoke)
    \<and> scAddressString E (ic_ContractAddress invoke) = Ok main
    \<and> extractCrossContractCalls E tx main = Ok ds \<and> extractCallsFromAuthEntries E (ih_Auth iop) main k = Ok (as, k')
    \<and> cg_Calls g = nths (ds @ as) {i. i < length (ds @ as) \<and> callKey ((ds @ as) ! i) \<notin> callKey ` set (take i (ds @ as))}
    \<and> callKey ` set (cg_Calls g) = callKey ` (set ds \<union> set as)
    \<and> cg_Calls g \<noteq> [] \<and> distinct (map callKey (cg_Calls g))
    \<and> sorted (cg_ContractsInvolved g) \<and> distinct (cg_ContractsInvolved g)
    \<and> set (cg_ContractsInvolved g)
        = {main} \<union> cc_FromContract ` set (cg_Calls g) \<union> cc_ToContract ` set (cg_Calls g)
    \<and> 2 \<le> length (cg_ContractsInvolved g)
    \<and> cg_MaxDepth g = Max (cc_CallDepth ` set (cg_Calls g))
    \<and> 1 \<le> cg_MaxDepth g \<and> cg_MaxDepth g \<le> max 10 (diagnosticEventCount tx)"
proof -
  from assms obtain iop invoke main ds as contracts where
    op: "op_Body op = OpInvokeHostFunction iop" "ih_HostFunction iop = HfInvokeContract (Some invoke)"
      "scAddressString E (ic_ContractAddress invoke) = Ok main"
    and src: "extractCrossContractCalls E tx main = Ok ds"
      "extractCallsFromAuthEntries E (ih_Auth iop) main k = Ok (as, k')"
    and calls: "cg_Calls g = deduplicateCalls (ds @ as)" "cg_Calls g \<noteq> []"
    and sum: "summarise (cg_Calls g) (gmPut main True gmEmpty) 0 = (contracts, cg_MaxDepth g)"
    and inv: "cg_ContractsInvolved g = sortedSetKeys contracts"
    by (rule extractCallGraph_Some)
  have each: "cc_FromContract c \<noteq> cc_ToContract c \<and> 1 \<le> cc_CallDepth c
    \<and> cc_CallDepth c \<le> max 10 (diagnosticEventCount tx)" if "c \<in> set (cg_Calls g)" for c
    using merged_calls [OF src] that calls(1) by simp
  have first: "cg_Calls g = nths (ds @ as) {i. i < length (ds @ as) \<and> callKey ((ds @ as) ! i) \<notin> callKey ` set (take i (ds @ as))}"
    and keys: "distinct (map callKey (cg_Calls g))" and all: "callKey ` set (cg_Calls g) = callKey ` (set ds \<union> set as)"
    using deduplicateCalls_first [of "ds @ as"] unfolding calls(1) set_append by (fact conjunct1, fact conjunct1 [OF conjunct2], fact conjunct2 [OF conjunct2])
  have facts: "sorted (cg_ContractsInvolved g)" "distinct (cg_ContractsInvolved g)"
    "set (cg_ContractsInvolved g) = {main} \<union> cc_FromContract ` set (cg_Calls g) \<union> cc_ToContract ` set (cg_Calls g)"
    "2 \<le> length (cg_ContractsInvolved g)" "cg_MaxDepth g = Max (cc_CallDepth ` set (cg_Calls g))"
    "1 \<le> cg_MaxDepth g" "cg_MaxDepth g \<le> max 10 (diagnosticEventCount tx)"
    unfolding inv by (rule summary_facts [OF sum calls(2) each]; assumption)+
  show ?thesis
    by (rule exI [of _ iop], rule exI [of _ invoke], rule exI [of _ main], rule exI [of _ ds], rule exI [of _ as], intro conjI)
      (fact op src first all calls(2) keys facts)+
qed

definition demoInvoke :: operation where
  "demoInvoke = \<lparr>op_SourceAccount = None, op_Body = OpInvokeHostFunction
     \<lparr>ih_HostFunction = HfInvokeContract (Some \<lparr>ic_ContractAddress = AddrContract (Some [0]),
        ic_FunctionName = ''swap'', ic_Args = []\<rparr>), ih_Auth = demoAuth\<rparr>\<rparr>"

theorem extractCallGraph_summary_witness:
  "\<exists>g. extractCallGraph demoSdk demoCallTx demoInvoke 0 = Ok (Some g, 1)
    \<and> cg_ContractsInvolved g = [''CAA'', ''CAB'', ''CAC''] \<and> length (cg_Calls g) = 4
    \<and> cg_MaxDepth g = Max (cc_CallDepth ` set (cg_Calls g)) \<and> cg_MaxDepth g = 2"
proof -
  have "mapR (\<lambda>(r, k). (map_option (\<lambda>g. (cg_ContractsInvolved g, length (cg_Calls g), cg_MaxDepth g)) r, k))
      (extractCallGraph demoSdk demoCallTx demoInvoke 0)
    = Ok (Some ([''CAA'', ''CAB'', ''CAC''], 4, 2), 1)" by code_simp
  then obtain g where g: "extractCallGraph demoSdk demoCallTx demoInvoke 0 = Ok (Some g, 1)"
    "cg_ContractsInvolved g = [''CAA'', ''CAB'', ''CAC'']" "length (cg_Calls g) = 4" "cg_MaxDepth g = 2"
    by (auto simp: mapR_Ok_iff eq_commute [of "Some _"])
  from extractCallGraph_summary [OF g(1)] g show ?thesis by auto
qed

section \<open>The name search does not see iteration order\<close>

lemma normV_GStr_iff: "normV v = GStr s \<longleftrightarrow> v = GStr s"
  by (cases v) auto

lemma gmGet_normV:
  assumes "gmInv kvs"
  shows "gmGet (sortPairs (map (\<lambda>(k, v). (k, normV v)) kvs)) k = map_option normV (gmGet kvs k)"
proof -
  let ?kvs = "map (\<lambda>(k, v). (k, normV v)) kvs"
  have d: "distinct (map fst ?kvs)" using assms by (simp add: gmInv_def comp_def case_prod_beta)
  have "map_of (sortPairs ?kvs) = map_of ?kvs" using d by (rule map_of_sortPairs)
  then show ?thesis by (simp add: gmGet_def map_of_map)
qed

lemma findFnNameRecursive_normV: "gWf g \<Longrightarrow> findFnNameRecursive (normV g) = findFnNameRecursive g"
proof (induction g rule: findFnNameRecursive.induct)
  case (1 kvs)
  let ?n = "sortPairs (map (\<lambda>(k, v). (k, normV v)) kvs)"
  have f: "(\<lambda>kv. (fst kv, findFnNameRecursive (snd kv))) = (\<lambda>(k, v). (k, findFnNameRecursive v))" by auto
  have "sortPairs (map (\<lambda>(k, v). (k, findFnNameRecursive v)) ?n)
      = sortPairs (map (\<lambda>(k, v). (k, findFnNameRecursive v)) kvs)"
    using 1 by (intro sortPairs_render_norm) fastforce
  moreover have "gmGet ?n ''fn_name'' = map_option normV (gmGet kvs ''fn_name'')"
    using 1(2) by (intro gmGet_normV) simp
  ultimately show ?case
    by (auto simp: f normV_GStr_iff Let_def split: option.splits gval.splits)
next
  case (2 vs)
  then have "map (\<lambda>v. findFnNameRecursive (normV v)) vs = map findFnNameRecursive vs" by simp
  then show ?case by (simp add: comp_def cong: map_cong)
qed simp_all

text \<open>
  The function name found in the arguments of a call does not depend on the order Go iterates the maps
  of the converted arguments in.
\<close>

theorem argument_name_deterministic:
  assumes "convertScVal E v = Ok g" "reorder g g'"
  shows "extractFunctionNameFromArguments g = extractFunctionNameFromArguments g'"
proof -
  have wf: "gWf g" using gWf_convertScVal [OF assms(1)] .
  have n: "normV g = normV g'" using normV_reorder [OF assms(2) wf] .
  have "gWf g'" using reorder_gWf [OF assms(2) wf] .
  then have "findFnNameRecursive g = findFnNameRecursive g'"
    using findFnNameRecursive_normV wf n by metis
  moreover have "g = GNil \<longleftrightarrow> g' = GNil" using assms(2) by (auto elim: reorder.cases)
  ultimately show ?thesis by (simp add: extractFunctionNameFromArguments_def)
qed

definition demoArgs :: sc_val where
  "demoArgs = ScvMap (Some (Some [(ScvSymbol (Some ''fn_name''), ScvSymbol (Some ''swap'')),
     (ScvSymbol (Some ''b''), ScvVoid)]))"

theorem argument_name_deterministic_witness:
  "extractFunctionNameFromArguments (GMap [(''entries'', GMap [(''b'', GNil), (''fn_name'', GStr ''swap'')]),
     (''keys'', GArr [GStr ''fn_name'', GStr ''b'']), (''type'', GStr ''map'')]) = ''swap''"
proof -
  let ?inner = "[(''fn_name'', GStr ''swap''), (''b'', GNil)]"
  let ?inner' = "[(''b'', GNil), (''fn_name'', GStr ''swap'')]"
  let ?keys = "GArr [GStr ''fn_name'', GStr ''b'']"
  let ?g = "GMap [(''type'', GStr ''map''), (''entries'', GMap ?inner), (''keys'', ?keys)]"
  let ?g' = "GMap [(''entries'', GMap ?inner'), (''keys'', ?keys), (''type'', GStr ''map'')]"
  have conv: "convertScVal demoSdk demoArgs = Ok ?g"
    by (simp add: demoArgs_def gobj_def gmEmpty_def gmPut_def entryKeyString_def entryKey_def entryValue_def)
  have "reorder (GMap ?inner) (GMap ?inner')"
    by (rule reorder_map [where kvs' = ?inner']) (auto intro: reorder_refl)
  then have "reorder ?g ?g'"
    by (intro reorder_map [where kvs' = "[(''entries'', GMap ?inner), (''keys'', ?keys), (''type'', GStr ''map'')]"])
      (auto intro: reorder_refl)
  moreover have "extractFunctionNameFromArguments ?g = ''swap''" by code_simp
  ultimately show ?thesis using argument_name_deterministic [OF conv] by metis
qed

section \<open>Credentials\<close>

lemma credentialsLoop_Ok:
  "credentialsLoop E es ts as = Ok (ts', as') \<Longrightarrow>
   \<exists>us vs. ts' = ts @ us \<and> as' = as @ vs \<and> map (\<lambda>e. describeCredentials E (au_Credentials e)) es = map Ok (zip us vs)
     \<and> length us = length es \<and> length vs = length es"
proof (induction es arbitrary: ts as)
  case (Cons e es)
  then obtain t a where d: "describeCredentials E (au_Credentials e) = Ok (t, a)"
    and r: "credentialsLoop E es (ts @ [t]) (as @ [a]) = Ok (ts', as')"
    by (auto simp: bindR_Ok_iff)
  from Cons.IH [OF r] obtain us vs where "ts' = ts @ t # us" "as' = as @ a # vs"
    "map (\<lambda>e. describeCredentials E (au_Credentials e)) es = map Ok (zip us vs)"
    "length us = length es" "length vs = length es" by auto
  with d show ?case by (intro exI [of _ "t # us"] exI [of _ "a # vs"]) simp
qed simp

text \<open>
  The two credential slices are nil exactly when the operation has no authorization entry; otherwise
  they have one position per entry, and position \<open>i\<close> of both describes entry \<open>i\<close>.
\<close>

theorem extractAuthCredentials_positions:
  assumes "extractAuthCredentials E entries = Ok (types, addrs)"
  shows "(types = None \<longleftrightarrow> entries = []) \<and> (addrs = None \<longleftrightarrow> entries = [])
    \<and> (\<forall>ts as. types = Some ts \<and> addrs = Some as \<longrightarrow> length ts = length entries \<and> length as = length entries
        \<and> (\<forall>i < length entries. describeCredentials E (au_Credentials (entries ! i)) = Ok (ts ! i, as ! i)))"
proof (cases "entries = []")
  case True
  with assms show ?thesis by (simp add: extractAuthCredentials_def)
next
  case False
  with assms obtain ts as where l: "credentialsLoop E entries [] [] = Ok (ts, as)"
    and r: "types = Some ts" "addrs = Some as"
    by (auto simp: extractAuthCredentials_def mapR_Ok_iff)
  from credentialsLoop_Ok [OF l] have len: "length ts = length entries" "length as = length entries"
    and m: "map (\<lambda>e. describeCredentials E (au_Credentials e)) entries = map Ok (zip ts as)" by auto
  have "describeCredentials E (au_Credentials (entries ! i)) = Ok (ts ! i, as ! i)" if "i < length entries" for i
    using arg_cong [OF m, of "\<lambda>xs. xs ! i"] that len by simp
  with False r len show ?thesis by simp
qed

theorem extractAuthCredentials_positions_witness:
  "extractAuthCredentials demoSdk [\<lparr>au_Credentials = CrOther 9, au_RootInvocation = AuthInv (AfOther 1) []\<rparr>]
   = Ok (Some [''UNKNOWN_9''], Some [[]])"
proof -
  let ?es = "[\<lparr>au_Credentials = CrOther 9, au_RootInvocation = AuthInv (AfOther 1) []\<rparr>]"
  have nine: "''UNKNOWN_'' @ sdec (9 :: i32) = ''UNKNOWN_9''" by code_simp
  obtain t a where r: "extractAuthCredentials demoSdk ?es = Ok (t, a)"
    by (simp add: extractAuthCredentials_def)
  from extractAuthCredentials_positions [OF r] obtain ts as where "t = Some ts" "a = Some as"
    "length ts = 1" "length as = 1" "ts ! 0 = ''UNKNOWN_9''" "as ! 0 = []"
    using nine by auto
  then show ?thesis using r by (auto simp: length_Suc_conv)
qed

end
