(* ===== verification/Wasm.thy ===== *)
theory Wasm
  imports GoStd
begin

unbundle bit_operations_syntax

text \<open>
  The WASM reader of \<open>soroban.go\<close>: LEB128 numbers and the section walk that counts what a contract's
  code declares.  Go's \<open>int\<close> is 64 bits: the sum \<open>offset + int(sectionSize)\<close> wraps, and the slice
  expression that follows panics when the wrapped sum is below the offset.
\<close>

section \<open>decodeLEB128\<close>

text \<open>The state of the loop: bytes read, shift, result so far; the bytes left are the argument.\<close>

fun lebLoop :: "byte list \<Rightarrow> nat \<Rightarrow> nat \<Rightarrow> i64 \<Rightarrow> i64 \<times> nat" where
  "lebLoop [] bytesRead shift result = (0, bytesRead)"
| "lebLoop (b # bs) bytesRead shift result =
     (if 10 \<le> bytesRead then (0, bytesRead)
      else let result = result OR push_bit shift (ucast (b AND 0x7F)) in
        if b AND 0x80 = 0 then
          (if shift < 64 \<and> b AND 0x40 \<noteq> 0 then result OR - push_bit (shift + 7) 1 else result, bytesRead + 1)
        else lebLoop bs (bytesRead + 1) (shift + 7) result)"

definition decodeLEB128 :: "byte list \<Rightarrow> i64 \<times> nat" where
  "decodeLEB128 data = lebLoop data 0 0 0"

definition countWASMElements :: "byte list \<Rightarrow> i64" where
  "countWASMElements data = (if data = [] then 0 else fst (decodeLEB128 data))"

section \<open>parseWASMMetadata\<close>

record wasm_metadata =
  wm_NInstructions :: "i64 option"
  wm_NFunctions :: "i64 option"
  wm_NGlobals :: "i64 option"
  wm_NTableEntries :: "i64 option"
  wm_NTypes :: "i64 option"
  wm_NDataSegments :: "i64 option"
  wm_NElemSegments :: "i64 option"
  wm_NImports :: "i64 option"
  wm_NExports :: "i64 option"
  wm_NDataSegmentBytes :: "i64 option"

definition emptyMetadata :: wasm_metadata where
  "emptyMetadata = \<lparr>wm_NInstructions = None, wm_NFunctions = None, wm_NGlobals = None,
     wm_NTableEntries = None, wm_NTypes = None, wm_NDataSegments = None, wm_NElemSegments = None,
     wm_NImports = None, wm_NExports = None, wm_NDataSegmentBytes = None\<rparr>"

definition applySection :: "byte \<Rightarrow> byte list \<Rightarrow> wasm_metadata \<Rightarrow> wasm_metadata" where
  "applySection sectionType sectionData m = (let count = countWASMElements sectionData;
       size = of_nat (length sectionData) in
     if sectionType = 1 then m\<lparr>wm_NTypes := Some count\<rparr>
     else if sectionType = 2 then m\<lparr>wm_NImports := Some count\<rparr>
     else if sectionType = 3 then m\<lparr>wm_NFunctions := Some count\<rparr>
     else if sectionType = 4 then m\<lparr>wm_NTableEntries := Some count\<rparr>
     else if sectionType = 6 then m\<lparr>wm_NGlobals := Some count\<rparr>
     else if sectionType = 7 then m\<lparr>wm_NExports := Some count\<rparr>
     else if sectionType = 9 then m\<lparr>wm_NElemSegments := Some count\<rparr>
     else if sectionType = 10 then (if sint count > 0 then m\<lparr>wm_NInstructions := Some size\<rparr> else m)
     else if sectionType = 11 then m\<lparr>wm_NDataSegments := Some count, wm_NDataSegmentBytes := Some size\<rparr>
     else m)"

text \<open>The 64-bit sum of two Go ints.\<close>

definition addInt :: "int \<Rightarrow> int \<Rightarrow> int" where
  "addInt a b = sint (word_of_int (a + b) :: i64)"

lemma lebLoop_snd: "bytesRead \<le> snd (lebLoop bs bytesRead shift result) \<and>
    snd (lebLoop bs bytesRead shift result) \<le> bytesRead + length bs"
  by (induction bs bytesRead shift result rule: lebLoop.induct) (auto simp: Let_def)

lemma decodeLEB128_snd: "snd (decodeLEB128 data) \<le> length data"
  using lebLoop_snd [of 0 data 0 0] by (simp add: decodeLEB128_def)

text \<open>
  The section loop.  \<open>offset\<close> stays between 8 and the length of the code, so the two index
  expressions before the slice are in range.
\<close>

function parseSections :: "byte list \<Rightarrow> nat \<Rightarrow> wasm_metadata \<Rightarrow> wasm_metadata res" where
  "parseSections code offset m =
     (if \<not> offset < length code then Ok m
      else if length code \<le> offset + 1 then Ok m
      else let sectionType = code ! offset;
               (sectionSize, bytesRead) = decodeLEB128 (drop (offset + 1) code);
               start = offset + 1 + bytesRead;
               end = addInt (int start) (sint sectionSize)
           in if sint sectionSize < 0 \<or> end > int (length code) then Ok m
              else if end < int start then Panic
              else parseSections code (nat end)
                (applySection sectionType (take (nat end - start) (drop start code)) m))"
  by pat_completeness auto
termination
  by (relation "measure (\<lambda>(code, offset, m). length code - offset)") auto

declare parseSections.simps [simp del]

definition parseWASMMetadata :: "byte list \<Rightarrow> wasm_metadata res" where
  "parseWASMMetadata code =
     (if length code < 8 then Ok emptyMetadata
      else if code ! 0 \<noteq> 0x00 \<or> code ! 1 \<noteq> 0x61 \<or> code ! 2 \<noteq> 0x73 \<or> code ! 3 \<noteq> 0x6D then Ok emptyMetadata
      else parseSections code 8 emptyMetadata)"

section \<open>What decodeLEB128 computes\<close>

text \<open>
  The signed LEB128 value of a byte sequence: groups of seven bits, least significant first, the last
  one read as a signed seven-bit number.
\<close>

fun slebValue :: "byte list \<Rightarrow> int" where
  "slebValue [] = 0"
| "slebValue [b] = (let v = uint b mod 128 in if 64 \<le> v then v - 128 else v)"
| "slebValue (b # bs) = uint b mod 128 + 128 * slebValue bs"

text \<open>Every byte but the last has its high bit set.\<close>

definition isLeb :: "byte list \<Rightarrow> bool" where
  "isLeb bs \<longleftrightarrow> bs \<noteq> [] \<and> (\<forall>b \<in> set (butlast bs). 128 \<le> uint b) \<and> uint (last bs) < 128"

lemma byte_and_127: "uint (b AND 0x7F :: byte) = uint b mod 128"
proof -
  have "uint (b AND 0x7F) = uint b AND 127" by (simp add: unsigned_and_eq)
  also have "\<dots> = take_bit 7 (uint b)" by (simp add: take_bit_eq_mask mask_eq_exp_minus_1)
  finally show ?thesis by (simp add: take_bit_eq_mod)
qed

lemma bit_byte_iff: "n < 8 \<Longrightarrow> bit (b :: byte) n \<longleftrightarrow> odd (uint b div 2 ^ n)"
proof -
  assume "n < 8"
  then have "bit b n \<longleftrightarrow> bit (uint b) n" by (simp add: bit_uint_iff)
  then show ?thesis by (simp only: bit_iff_odd)
qed

lemma odd_top_bit: "0 \<le> x \<Longrightarrow> x < 2 * d \<Longrightarrow> odd (x div d) \<longleftrightarrow> d \<le> x" for x d :: int
proof (cases "d \<le> x")
  case True
  assume "x < 2 * d"
  with True have "x div d = 1" by (intro int_div_pos_eq [of _ _ _ "x - d"]) auto
  with True show ?thesis by simp
qed (simp add: div_pos_pos_trivial)

lemma byte_and_128: "b AND 0x80 = 0 \<longleftrightarrow> uint (b :: byte) < 128"
proof -
  have "b AND 2 ^ 7 = 0 \<longleftrightarrow> \<not> bit b 7" by (simp only: and_exp_eq_0_iff_not_bit)
  also have "bit b 7 \<longleftrightarrow> odd (uint b div 2 ^ 7)" by (rule bit_byte_iff) simp
  also have "odd (uint b div 2 ^ 7) \<longleftrightarrow> 128 \<le> uint b"
    using uint_bounded [of b] odd_top_bit [of "uint b" 128] by simp
  finally show ?thesis by (simp add: not_le)
qed

lemma byte_and_64: "uint (b :: byte) < 128 \<Longrightarrow> b AND 0x40 = 0 \<longleftrightarrow> uint b < 64"
proof -
  assume lt: "uint b < 128"
  have "b AND 2 ^ 6 = 0 \<longleftrightarrow> \<not> bit b 6" by (simp only: and_exp_eq_0_iff_not_bit)
  also have "bit b 6 \<longleftrightarrow> odd (uint b div 2 ^ 6)" by (rule bit_byte_iff) simp
  also have "odd (uint b div 2 ^ 6) \<longleftrightarrow> 64 \<le> uint b"
    using lt uint_ge_0 [of b] odd_top_bit [of "uint b" 64] by simp
  finally show ?thesis by (simp add: not_le)
qed

text \<open>Bits that do not overlap add up.\<close>

lemma or_push_bit:
  fixes r v :: i64
  assumes "take_bit n r = r"
  shows "r OR push_bit n v = r + push_bit n v"
proof -
  have "\<not> bit r k" if "n \<le> k" for k
    using assms that by (metis bit_take_bit_iff linorder_not_less)
  then show ?thesis by (intro disjunctive_add_eq_or [symmetric]) (auto simp: bit_eq_iff bit_simps)
qed

lemma or_neg_push_bit:
  fixes r :: i64
  assumes "take_bit n r = r"
  shows "r OR - push_bit n 1 = r + word_of_int (- (2 ^ n))"
proof -
  have "- push_bit n 1 = push_bit n (- 1 :: i64)" by (simp add: push_bit_minus_one_eq_not_mask mask_eq_exp_minus_1 push_bit_eq_mult)
  moreover have "push_bit n (- 1 :: i64) = word_of_int (- (2 ^ n))" by (simp add: push_bit_eq_mult)
  ultimately show ?thesis using or_push_bit [OF assms, of "- 1"] by simp
qed

lemma take_bit_step:
  fixes r :: i64 and b :: byte
  assumes "take_bit n r = r"
  shows "take_bit (n + 7) (r + push_bit n (ucast (b AND 0x7F))) = r + push_bit n (ucast (b AND 0x7F))"
proof -
  have "take_bit (n + 7) (r OR push_bit n (ucast (b AND 0x7F))) = r OR push_bit n (ucast (b AND 0x7F))"
  proof (rule bit_word_eqI)
    fix k assume "k < LENGTH(64)"
    have r: "\<not> bit r k" if "n \<le> k" using assms that by (metis bit_take_bit_iff linorder_not_less)
    have "\<not> bit (b AND 0x7F) j" if "7 \<le> j" for j
    proof -
      have "bit (b AND 0x7F) j \<longleftrightarrow> bit b j \<and> bit (0x7F :: byte) j" by (simp only: bit_and_iff)
      moreover have "(0x7F :: byte) = mask 7" by (simp add: mask_eq_exp_minus_1)
      ultimately show ?thesis using that by (simp only: bit_mask_iff) simp
    qed
    then show "bit (take_bit (n + 7) (r OR push_bit n (ucast (b AND 0x7F)))) k
        = bit (r OR push_bit n (ucast (b AND 0x7F))) k"
      using r by (auto simp: bit_simps)
  qed
  then show ?thesis by (simp add: or_push_bit [OF assms])
qed

lemma push_group:
  "push_bit n (ucast (b AND 0x7F)) = (word_of_int (2 ^ n * (uint b mod 128)) :: i64)" for b :: byte
proof -
  have "(ucast (b AND 0x7F) :: i64) = word_of_int (uint b mod 128)"
    by (simp only: ucast_eq byte_and_127)
  then show ?thesis by (simp only: push_bit_eq_mult) (simp add: mult.commute)
qed

lemma lebLoop_eq:
  assumes "isLeb bs" "k + length bs \<le> 10" "take_bit (7 * k) r = r"
  shows "lebLoop (bs @ rest) k (7 * k) r = (r + word_of_int (2 ^ (7 * k) * slebValue bs), k + length bs)"
  using assms
proof (induction bs arbitrary: k r rule: slebValue.induct)
  case 1
  then show ?case by (simp add: isLeb_def)
next
  case (2 b)
  let ?r' = "r + push_bit (7 * k) (ucast (b AND 0x7F))"
  from 2 have lt: "uint b < 128" and k: "k < 10" "7 * k < 64" by (auto simp: isLeb_def)
  have m: "uint b mod 128 = uint b" using lt by simp
  have step: "lebLoop ([b] @ rest) k (7 * k) r
      = (if 64 \<le> uint b then ?r' OR - push_bit (7 * k + 7) 1 else ?r', k + 1)"
    using k byte_and_128 [of b] byte_and_64 [OF lt] lt
    by (simp add: or_push_bit [OF 2(3)] Let_def not_le [symmetric])
  have r': "?r' = r + word_of_int (2 ^ (7 * k) * uint b)" by (simp only: push_group m)
  have "?r' OR - push_bit (7 * k + 7) 1 = ?r' + word_of_int (- (2 ^ (7 * k + 7)))"
    by (rule or_neg_push_bit [OF take_bit_step [OF 2(3)]])
  also have "\<dots> = r + word_of_int (2 ^ (7 * k) * (uint b - 128))"
    unfolding r' by (simp only: add.assoc of_int_add [symmetric]) (simp add: power_add right_diff_distrib)
  finally show ?case using step r' by (simp add: m Let_def)
next
  case (3 b b' bs)
  let ?r' = "r + push_bit (7 * k) (ucast (b AND 0x7F))"
  from 3(2) have b: "128 \<le> uint b" and leb: "isLeb (b' # bs)" by (auto simp: isLeb_def split: if_splits)
  have "lebLoop ((b # b' # bs) @ rest) k (7 * k) r = lebLoop ((b' # bs) @ rest) (k + 1) (7 * (k + 1)) ?r'"
    using 3(3) b byte_and_128 [of b] by (simp add: or_push_bit [OF 3(4)] Let_def add.commute)
  also have "\<dots> = (?r' + word_of_int (2 ^ (7 * (k + 1)) * slebValue (b' # bs)), k + 1 + length (b' # bs))"
    using 3(3) take_bit_step [OF 3(4), of b] by (intro 3(1) leb) (simp_all add: add.commute)
  also have "?r' + word_of_int (2 ^ (7 * (k + 1)) * slebValue (b' # bs))
      = r + word_of_int (2 ^ (7 * k) * slebValue (b # b' # bs))"
    by (simp only: push_group add.assoc of_int_add [symmetric]) (simp add: power_add algebra_simps)
  finally show ?case by simp
qed

section \<open>Encoders\<close>

text \<open>Signed LEB128, the encoding the reader is written for.\<close>

function slebEncode :: "int \<Rightarrow> byte list" where
  "slebEncode i = (if - 64 \<le> i \<and> i < 64 then [word_of_int (i mod 128)]
     else word_of_int (128 + i mod 128) # slebEncode (i div 128))"
  by pat_completeness auto
termination
  by (relation "measure (\<lambda>i. nat (if i < 0 then - i - 1 else i))") auto

declare slebEncode.simps [simp del]

text \<open>Unsigned LEB128, the encoding the WASM binary format uses for sizes and counts.\<close>

function ulebEncode :: "nat \<Rightarrow> byte list" where
  "ulebEncode n = (if n < 128 then [of_nat n] else of_nat (128 + n mod 128) # ulebEncode (n div 128))"
  by pat_completeness auto
termination
  by (relation "measure id") auto

declare ulebEncode.simps [simp del]

lemma uint_byte_of_int: "0 \<le> i \<Longrightarrow> i < 256 \<Longrightarrow> uint (word_of_int i :: byte) = i"
  by (simp add: unsigned_of_int take_bit_eq_mod)

lemma uint_byte_of_nat: "n < 256 \<Longrightarrow> uint (of_nat n :: byte) = int n"
  by (simp add: unsigned_of_nat take_bit_eq_mod)

lemma slebEncode_nonempty [simp]: "slebEncode i \<noteq> []"
  by (simp add: slebEncode.simps [of i])

lemma ulebEncode_nonempty [simp]: "ulebEncode n \<noteq> []"
  by (simp add: ulebEncode.simps [of n])

lemma isLeb_Cons: "bs \<noteq> [] \<Longrightarrow> isLeb (b # bs) \<longleftrightarrow> 128 \<le> uint b \<and> isLeb bs"
  by (auto simp: isLeb_def)

lemma slebValue_Cons: "bs \<noteq> [] \<Longrightarrow> slebValue (b # bs) = uint b mod 128 + 128 * slebValue bs"
  by (cases bs) auto

lemma isLeb_slebEncode: "isLeb (slebEncode i)"
proof (induction i rule: slebEncode.induct)
  case (1 i)
  have "uint (word_of_int (i mod 128) :: byte) = i mod 128"
    "uint (word_of_int (128 + i mod 128) :: byte) = 128 + i mod 128"
    by (rule uint_byte_of_int; simp; use pos_mod_bound [of 128 i] in linarith)+
  then show ?case
    using 1 by (subst slebEncode.simps) (auto simp: isLeb_Cons, simp_all add: isLeb_def)
qed

lemma slebValue_slebEncode: "slebValue (slebEncode i) = i"
proof (induction i rule: slebEncode.induct)
  case (1 i)
  have u: "uint (word_of_int (i mod 128) :: byte) = i mod 128"
    "uint (word_of_int (128 + i mod 128) :: byte) = 128 + i mod 128"
    by (rule uint_byte_of_int; simp; use pos_mod_bound [of 128 i] in linarith)+
  show ?case
  proof (cases "- 64 \<le> i \<and> i < 64")
    case True
    then have "i mod 128 = (if i < 0 then i + 128 else i)"
      using mod_pos_pos_trivial [of "i + 128" 128] mod_pos_pos_trivial [of i 128] by auto
    with True u show ?thesis by (subst slebEncode.simps) (simp add: Let_def)
  next
    case False
    then have "slebEncode i = word_of_int (128 + i mod 128) # slebEncode (i div 128)"
      by (subst slebEncode.simps) auto
    with 1 False u show ?thesis by (simp add: slebValue_Cons del: of_int_add)
  qed
qed

lemma length_slebEncode:
  "0 < k \<Longrightarrow> - (64 * 128 ^ (k - 1)) \<le> i \<Longrightarrow> i < 64 * 128 ^ (k - 1) \<Longrightarrow> length (slebEncode i) \<le> k"
proof (induction k arbitrary: i)
  case (Suc k)
  show ?case
  proof (cases "- 64 \<le> i \<and> i < 64")
    case True
    then show ?thesis by (simp add: slebEncode.simps [of i])
  next
    case False
    then have k: "k \<noteq> 0" using Suc.prems by (cases k) auto
    then obtain j where j: "k = Suc j" by (cases k) auto
    have "- (64 * 128 ^ j) \<le> i div 128" "i div 128 < 64 * 128 ^ j"
      using Suc.prems j by auto
    then have "length (slebEncode (i div 128)) \<le> k" using Suc.IH [of "i div 128"] j by simp
    with False show ?thesis by (simp add: slebEncode.simps [of i])
  qed
qed simp

lemma decodeLEB128_leb:
  "isLeb bs \<Longrightarrow> length bs \<le> 10 \<Longrightarrow> decodeLEB128 (bs @ rest) = (word_of_int (slebValue bs), length bs)"
  using lebLoop_eq [of bs 0 0 rest] by (simp add: decodeLEB128_def)

text \<open>
  C30: every \<open>int64\<close> is read back from its signed LEB128 encoding, with the number of bytes it takes (at
  most ten), whatever follows it.
\<close>

theorem decodeLEB128_roundtrip:
  "decodeLEB128 (slebEncode (sint w) @ rest) = (w, length (slebEncode (sint w)))
   \<and> length (slebEncode (sint w)) \<le> 10"
proof -
  have "- (2 ^ 63) \<le> sint w" "sint w < 2 ^ 63"
    using sint_greater_eq [of w] sint_less [of w] by simp_all
  then have "length (slebEncode (sint w)) \<le> 10"
    by (intro length_slebEncode) simp_all
  then show ?thesis
    using decodeLEB128_leb [OF isLeb_slebEncode] by (simp add: slebValue_slebEncode)
qed

lemma ulebEncode_facts:
  "isLeb (ulebEncode n)
   \<and> slebValue (ulebEncode n) = int n - (if 64 \<le> uint (last (ulebEncode n)) then 128 ^ length (ulebEncode n) else 0)"
proof (induction n rule: ulebEncode.induct)
  case (1 n)
  show ?case
  proof (cases "n < 128")
    case True
    then have "ulebEncode n = [of_nat n]" by (simp add: ulebEncode.simps [of n])
    with True show ?thesis by (simp add: isLeb_def uint_byte_of_nat Let_def)
  next
    case False
    have u: "uint (of_nat (128 + n mod 128) :: byte) = 128 + int (n mod 128)"
      using uint_byte_of_nat [of "128 + n mod 128"] mod_less_divisor [of 128 n] by linarith
    have "int n = int (n mod 128) + 128 * int (n div 128)"
      using mult_div_mod_eq [of 128 n] by linarith
    moreover have "ulebEncode n = of_nat (128 + n mod 128) # ulebEncode (n div 128)"
      using False by (simp add: ulebEncode.simps [of n])
    moreover have "(128 + int (n mod 128)) mod 128 = int (n mod 128)" by (simp add: zmod_int)
    ultimately show ?thesis
      using 1 False u by (simp add: isLeb_Cons slebValue_Cons right_diff_distrib del: of_nat_add)
  qed
qed

lemma length_ulebEncode: "0 < k \<Longrightarrow> n < 128 ^ k \<Longrightarrow> length (ulebEncode n) \<le> k"
proof (induction k arbitrary: n)
  case (Suc k)
  show ?case
  proof (cases "n < 128")
    case True
    then show ?thesis by (simp add: ulebEncode.simps [of n])
  next
    case False
    then have "k \<noteq> 0" "n div 128 < 128 ^ k"
      using Suc.prems by (auto intro: gr0I simp: less_mult_imp_div_less mult.commute)
    then have "length (ulebEncode (n div 128)) \<le> k" using Suc.IH by simp
    with False show ?thesis by (simp add: ulebEncode.simps [of n])
  qed
qed simp

lemma ulebEncode_bound: "n < 128 ^ length (ulebEncode n)"
proof (induction n rule: ulebEncode.induct)
  case (1 n)
  show ?case
  proof (cases "n < 128")
    case False
    then have "n < 128 * (n div 128 + 1)" by simp
    also have "\<dots> \<le> 128 * 128 ^ length (ulebEncode (n div 128))" using 1 False by simp
    finally show ?thesis using False by (simp add: ulebEncode.simps [of n])
  qed (simp add: ulebEncode.simps [of n])
qed

lemma ulebEncode_bound_int: "int n < 128 ^ length (ulebEncode n)"
  using ulebEncode_bound [of n] by (metis of_nat_less_iff of_nat_numeral of_nat_power)

lemma read_uleb:
  assumes "n < 2 ^ 63"
  shows "snd (decodeLEB128 (ulebEncode n @ rest)) = length (ulebEncode n)"
    and "sint (fst (decodeLEB128 (ulebEncode n @ rest)))
      = int n - (if 64 \<le> uint (last (ulebEncode n)) then 128 ^ length (ulebEncode n) else 0)"
proof -
  have n: "n < 128 ^ 9" using assms by simp
  then have len: "length (ulebEncode n) \<le> 9" by (intro length_ulebEncode) simp_all
  have d: "decodeLEB128 (ulebEncode n @ rest) = (word_of_int (slebValue (ulebEncode n)), length (ulebEncode n))"
    using ulebEncode_facts [of n] len by (intro decodeLEB128_leb) simp_all
  then show "snd (decodeLEB128 (ulebEncode n @ rest)) = length (ulebEncode n)" by simp
  let ?v = "int n - (if 64 \<le> uint (last (ulebEncode n)) then 128 ^ length (ulebEncode n) else 0)"
  have p: "(128 :: int) ^ length (ulebEncode n) \<le> 128 ^ 9" using len by (intro power_increasing) simp_all
  have "- (2 ^ 63) \<le> ?v" using p by simp
  moreover have "?v < 2 ^ 63" using assms by (auto intro: le_less_trans [of _ "int n"])
  ultimately have "sint (word_of_int ?v :: i64) = ?v"
    by (simp only: signed_of_int) (simp add: signed_take_bit_int_eq_self)
  with d ulebEncode_facts [of n] show "sint (fst (decodeLEB128 (ulebEncode n @ rest))) = ?v" by simp
qed

text \<open>
  C39: a size or count below \<open>2^63\<close> in WASM's own (unsigned) encoding is read correctly exactly when the
  last of its seven-bit groups is below 64; otherwise it is read as a negative number.
\<close>

theorem decodeLEB128_unsigned:
  assumes "n < 2 ^ 63"
  shows "snd (decodeLEB128 (ulebEncode n @ rest)) = length (ulebEncode n)
    \<and> (sint (fst (decodeLEB128 (ulebEncode n @ rest))) = int n \<longleftrightarrow> uint (last (ulebEncode n)) < 64)
    \<and> (sint (fst (decodeLEB128 (ulebEncode n @ rest))) < 0 \<longleftrightarrow> 64 \<le> uint (last (ulebEncode n)))"
  using read_uleb [OF assms] ulebEncode_bound_int [of n] by auto

theorem decodeLEB128_unsigned_witness:
  "\<not> sint (fst (decodeLEB128 ([0x40] @ []))) = 64 \<and> sint (fst (decodeLEB128 ([0x3F] @ []))) = 63"
proof -
  have e: "ulebEncode 64 = [0x40]" "ulebEncode 63 = [0x3F]" by (simp_all add: ulebEncode.simps)
  have "(64 :: nat) < 2 ^ 63" "(63 :: nat) < 2 ^ 63" by simp_all
  then show ?thesis
    using decodeLEB128_unsigned [of 64 "[]"] decodeLEB128_unsigned [of 63 "[]"] unfolding e by simp
qed

section \<open>Modules\<close>

definition encSection :: "byte \<times> byte list \<Rightarrow> byte list" where
  "encSection s = fst s # ulebEncode (length (snd s)) @ snd s"

definition encModule :: "byte list \<Rightarrow> (byte \<times> byte list) list \<Rightarrow> byte list" where
  "encModule version sections = [0x00, 0x61, 0x73, 0x6D] @ version @ concat (map encSection sections)"

text \<open>A section whose size survives the signed reading.\<close>

definition sizeReadable :: "byte \<times> byte list \<Rightarrow> bool" where
  "sizeReadable s \<longleftrightarrow> uint (last (ulebEncode (length (snd s)))) < 64"

lemma addInt_small: "0 \<le> a + b \<Longrightarrow> a + b < 2 ^ 63 \<Longrightarrow> addInt a b = a + b"
  unfolding addInt_def by (simp only: signed_of_int) (simp add: signed_take_bit_int_eq_self)

lemma parseSections_encoded:
  assumes "length (pre @ concat (map encSection secs)) < 2 ^ 63"
  shows "parseSections (pre @ concat (map encSection secs)) (length pre) m
    = Ok (foldl (\<lambda>m s. applySection (fst s) (snd s) m) m (takeWhile sizeReadable secs))"
  using assms
proof (induction secs arbitrary: pre m)
  case Nil
  then show ?case by (simp add: parseSections.simps)
next
  case (Cons s secs)
  let ?n = "length (snd s)" and ?rest = "concat (map encSection secs)"
  let ?u = "ulebEncode ?n"
  define code where "code = pre @ concat (map encSection (s # secs))"
  have code: "code = pre @ fst s # ?u @ snd s @ ?rest" by (simp add: code_def encSection_def)
  have small: "length code < 2 ^ 63" using Cons.prems by (simp add: code_def)
  have n: "?n < 2 ^ 63" using small code by simp
  have u: "?u \<noteq> []" by simp
  have dec: "decodeLEB128 (drop (Suc (length pre)) code)
      = (fst (decodeLEB128 (?u @ snd s @ ?rest)), length ?u)"
    unfolding code using read_uleb(1) [OF n] by (simp add: prod_eq_iff)
  have lt: "\<not> length code \<le> Suc (length pre)" using u unfolding code by (cases ?u) auto
  show ?case unfolding code_def [symmetric]
  proof (cases "sizeReadable s")
    case False
    then have "sint (fst (decodeLEB128 (?u @ snd s @ ?rest))) < 0"
      using read_uleb(2) [OF n] ulebEncode_bound_int [of ?n] by (simp add: sizeReadable_def)
    with False dec lt show "parseSections code (length pre) m = Ok (foldl (\<lambda>m s. applySection (fst s) (snd s) m) m
        (takeWhile sizeReadable (s # secs)))"
      by (subst parseSections.simps) simp
  next
    case True
    let ?start = "Suc (length pre + length ?u)"
    have v: "sint (fst (decodeLEB128 (?u @ snd s @ ?rest))) = int ?n"
      using read_uleb(2) [OF n] True by (simp add: sizeReadable_def)
    have le: "?start + ?n \<le> length code" unfolding code by simp
    have e: "addInt (int ?start) (int ?n) = int (?start + ?n)"
      using small le by (subst addInt_small) simp_all
    have "drop ?start code = snd s @ ?rest" "code ! length pre = fst s" unfolding code by simp_all
    moreover have "nat (1 + (int (length pre) + int (length ?u) + int ?n)) = Suc (length pre + length ?u + ?n)"
      by linarith
    ultimately have "parseSections code (length pre) m
        = parseSections code (?start + ?n) (applySection (fst s) (snd s) m)"
      using lt le e v dec by (subst parseSections.simps) (simp add: Let_def)
    also have "\<dots> = parseSections ((pre @ encSection s) @ ?rest) (length (pre @ encSection s))
        (applySection (fst s) (snd s) m)"
      by (simp add: code_def encSection_def add.commute add.left_commute)
    also have "\<dots> = Ok (foldl (\<lambda>m s. applySection (fst s) (snd s) m) (applySection (fst s) (snd s) m)
        (takeWhile sizeReadable secs))"
      using Cons.prems by (intro Cons.IH) simp
    finally show "parseSections code (length pre) m = Ok (foldl (\<lambda>m s. applySection (fst s) (snd s) m) m
        (takeWhile sizeReadable (s # secs)))" using True by simp
  qed
qed

text \<open>
  C31: on a module in the WASM binary format, the counts are those of the sections up to the first one
  whose size the signed reader turns negative, and nothing after it is looked at.
\<close>

theorem parseWASMMetadata_module:
  assumes "length version = 4" "length (encModule version sections) < 2 ^ 63"
  shows "parseWASMMetadata (encModule version sections)
    = Ok (foldl (\<lambda>m s. applySection (fst s) (snd s) m) emptyMetadata (takeWhile sizeReadable sections))"
proof -
  let ?pre = "[0x00, 0x61, 0x73, 0x6D] @ version"
  have m: "encModule version sections = ?pre @ concat (map encSection sections)" by (simp add: encModule_def)
  have "length ?pre = 8" using assms(1) by simp
  then show ?thesis
    using parseSections_encoded [of ?pre sections emptyMetadata] assms(2)
    unfolding m parseWASMMetadata_def by simp
qed

text \<open>A type section with three types, then a 64-byte code section: the second is lost.\<close>

theorem parseWASMMetadata_module_witness:
  "\<exists>m. parseWASMMetadata (encModule [1, 0, 0, 0] [(1, [3]), (10, 5 # replicate 63 0)]) = Ok m
    \<and> wm_NTypes m = Some 3 \<and> wm_NInstructions m = None"
proof -
  let ?secs = "[(1, [3]), (10, 5 # replicate 63 0)] :: (byte \<times> byte list) list"
  have u: "ulebEncode (Suc 0) = [1]" "ulebEncode 64 = [64]" by (simp_all add: ulebEncode.simps)
  have "length (encModule [1, 0, 0, 0] ?secs) < 2 ^ 63"
    by (simp add: encModule_def encSection_def u)
  moreover have "takeWhile sizeReadable ?secs = [(1, [3])]"
    using u by (simp add: sizeReadable_def)
  moreover have "countWASMElements [3] = 3" by code_simp
  ultimately show ?thesis
    using parseWASMMetadata_module [of "[1, 0, 0, 0]" ?secs]
    by (simp add: applySection_def emptyMetadata_def Let_def)
qed

text \<open>
  The walk in exact arithmetic: the section after the one at an offset, when its size is not negative and within the
  code; and a section whose size carries the offset past the largest Go int.
\<close>

definition nextSection :: "byte list \<Rightarrow> nat \<Rightarrow> nat \<Rightarrow> bool" where
  "nextSection code offset offset' \<longleftrightarrow> offset + 1 < length code
     \<and> (case decodeLEB128 (drop (offset + 1) code) of (sz, bytesRead) \<Rightarrow> 0 \<le> sint sz
        \<and> int offset' = int (offset + 1 + bytesRead) + sint sz \<and> offset' \<le> length code)"

definition sizeWraps :: "byte list \<Rightarrow> nat \<Rightarrow> bool" where
  "sizeWraps code offset \<longleftrightarrow> offset + 1 < length code
     \<and> (case decodeLEB128 (drop (offset + 1) code) of (sz, bytesRead) \<Rightarrow>
          0 \<le> sint sz \<and> 2 ^ 63 \<le> int (offset + 1 + bytesRead) + sint sz)"

lemma addInt_wraps:
  assumes "2 ^ 63 \<le> a + b" "a + b < 2 ^ 64"
  shows "addInt a b = a + b - 2 ^ 64"
proof -
  have "(a + b + 2 ^ 63) mod 2 ^ 64 = (a + b + 2 ^ 63 - 2 ^ 64) mod (2 ^ 64 :: int)"
    using assms(1) by (intro mod_pos_geq) simp_all
  also have "\<dots> = a + b + 2 ^ 63 - 2 ^ 64" using assms by (intro mod_pos_pos_trivial) simp_all
  finally show ?thesis unfolding addInt_def
    by (simp only: signed_of_int) (simp add: signed_take_bit_eq_take_bit_shift take_bit_eq_mod)
qed

lemma nextSection_walk:
  "(\<exists>k. (nextSection code)\<^sup>*\<^sup>* offset k \<and> sizeWraps code k) \<longleftrightarrow> sizeWraps code offset
     \<or> (\<exists>offset'. nextSection code offset offset' \<and> (\<exists>k. (nextSection code)\<^sup>*\<^sup>* offset' k \<and> sizeWraps code k))"
  by (metis converse_rtranclpE converse_rtranclp_into_rtranclp rtranclp.rtrancl_refl)

lemma parseSections_panic_iff:
  "length code < 2 ^ 63 \<Longrightarrow>
   parseSections code offset m = Panic \<longleftrightarrow> (\<exists>k. (nextSection code)\<^sup>*\<^sup>* offset k \<and> sizeWraps code k)"
proof (induction code offset m rule: parseSections.induct)
  case (1 code offset m)
  obtain sz k where dec: "decodeLEB128 (drop (offset + 1) code) = (sz, k)" by (cases "decodeLEB128 (drop (offset + 1) code)")
  let ?start = "offset + 1 + k"
  let ?stop = "addInt (int ?start) (sint sz)"
  show ?case
  proof (cases "offset + 1 < length code")
    case False
    then show ?thesis
      by (subst nextSection_walk, subst parseSections.simps) (auto simp: nextSection_def sizeWraps_def)
  next
    case True
    have start: "?start \<le> length code" using decodeLEB128_snd [of "drop (offset + 1) code", unfolded dec] True by simp
    have szb: "sint sz < 2 ^ 63" using sint_lt [of sz] by simp
    have wraps: "sizeWraps code offset \<longleftrightarrow> 0 \<le> sint sz \<and> 2 ^ 63 \<le> int ?start + sint sz"
      using True by (simp add: sizeWraps_def dec [simplified])
    have following: "nextSection code offset k' \<longleftrightarrow> 0 \<le> sint sz \<and> int k' = int ?start + sint sz \<and> k' \<le> length code" for k'
      using True by (simp add: nextSection_def dec [simplified])
    have walk: "parseSections code offset m = (if sint sz < 0 \<or> ?stop > int (length code) then Ok m
        else if ?stop < int ?start then Panic
        else parseSections code (nat ?stop)
          (applySection (code ! offset) (take (nat ?stop - ?start) (drop ?start code)) m))"
      using True by (subst parseSections.simps) (simp add: dec [simplified] Let_def)
    consider "sint sz < 0" | "0 \<le> sint sz" "2 ^ 63 \<le> int ?start + sint sz"
      | "0 \<le> sint sz" "int ?start + sint sz < 2 ^ 63" "int (length code) < int ?start + sint sz"
      | "0 \<le> sint sz" "int ?start + sint sz < 2 ^ 63" "int ?start + sint sz \<le> int (length code)" by linarith
    then show ?thesis
    proof cases
      case 1
      then show ?thesis by (subst nextSection_walk) (simp add: walk wraps following)
    next
      case 2
      then have "?stop = int ?start + sint sz - 2 ^ 64" using szb start 1(2) by (intro addInt_wraps) simp_all
      with 2 szb start 1(2) have "\<not> ?stop > int (length code)" "?stop < int ?start" by simp_all
      with 2 show ?thesis by (subst nextSection_walk) (simp add: walk wraps)
    next
      case 3
      then have "?stop = int ?start + sint sz" by (intro addInt_small) simp_all
      with 3 show ?thesis by (subst nextSection_walk) (auto simp: walk wraps following)
    next
      case 4
      then have stop: "?stop = int ?start + sint sz" by (intro addInt_small) simp_all
      with 4 have ok: "\<not> (sint sz < 0 \<or> ?stop > int (length code))" "\<not> ?stop < int ?start" by simp_all
      have "parseSections code (nat ?stop) (applySection (code ! offset) (take (nat ?stop - ?start) (drop ?start code)) m) = Panic
          \<longleftrightarrow> (\<exists>k. (nextSection code)\<^sup>*\<^sup>* (nat ?stop) k \<and> sizeWraps code k)"
        using True by (intro 1(1) [OF _ _ refl refl dec [symmetric] refl refl ok 1(2)]) simp_all
      moreover have "nextSection code offset k' \<longleftrightarrow> k' = nat ?stop" for k'
        unfolding following using 4 stop by auto
      moreover have "\<not> sizeWraps code offset" using 4 wraps by simp
      ultimately show ?thesis using ok by (subst nextSection_walk) (simp add: walk)
    qed
  qed
qed

text \<open>
  C38: the walk panics exactly on a module (magic number and version) with a section, reached from the header through
  sections that fit, whose size is so near the largest int that the offset plus the size is \<open>2^63\<close> or more: the
  sum wraps to a negative number, passes the guard, and the slice expression panics.
\<close>

theorem parseWASMMetadata_panic:
  assumes "length code < 2 ^ 63"
  shows "parseWASMMetadata code = Panic \<longleftrightarrow> 8 \<le> length code \<and> take 4 code = [0x00, 0x61, 0x73, 0x6D]
    \<and> (\<exists>offset. (nextSection code)\<^sup>*\<^sup>* 8 offset \<and> sizeWraps code offset)"
proof -
  have magic: "take 4 code = [0x00, 0x61, 0x73, 0x6D]
      \<longleftrightarrow> code ! 0 = 0x00 \<and> code ! 1 = 0x61 \<and> code ! 2 = 0x73 \<and> code ! 3 = 0x6D" if "8 \<le> length code"
  proof -
    from that have "take 4 code = [code ! 0, code ! 1, code ! 2, code ! 3]"
      by (simp add: list_eq_iff_nth_eq less_Suc_eq numeral_eq_Suc nth_Cons')
    then show ?thesis by simp
  qed
  show ?thesis unfolding parseSections_panic_iff [OF assms, symmetric, of _ emptyMetadata]
    using magic by (auto simp: parseWASMMetadata_def not_le)
qed

text \<open>A section size just under \<open>2^63\<close> makes the offset sum wrap, and one a little smaller does not.\<close>

definition overflowModule :: "byte \<Rightarrow> byte list" where
  "overflowModule b = [0x00, 0x61, 0x73, 0x6D, 1, 0, 0, 0, 1, b] @ replicate 8 0xFF @ [0x00, 0]"

theorem parseWASMMetadata_panic_witness:
  "parseWASMMetadata (overflowModule 0xFF) = Panic \<and> parseWASMMetadata (overflowModule 0x80) \<noteq> Panic"
proof
  have dec: "decodeLEB128 (drop (8 + 1) (overflowModule 0xFF)) = (0x7FFFFFFFFFFFFFFF, 10)"
    "decodeLEB128 (drop (8 + 1) (overflowModule 0x80)) = (0x7FFFFFFFFFFFFF80, 10)" by code_simp+
  have len: "length (overflowModule b) = 20" "take 4 (overflowModule b) = [0x00, 0x61, 0x73, 0x6D]" for b
    by (simp_all add: overflowModule_def)
  have "sizeWraps (overflowModule 0xFF) 8" unfolding sizeWraps_def dec len by simp
  then show "parseWASMMetadata (overflowModule 0xFF) = Panic"
    using parseWASMMetadata_panic [of "overflowModule 0xFF"] by (auto simp: len)
  have "\<not> sizeWraps (overflowModule 0x80) 8" "\<And>k. \<not> nextSection (overflowModule 0x80) 8 k"
    unfolding sizeWraps_def nextSection_def dec len by simp_all
  then show "parseWASMMetadata (overflowModule 0x80) \<noteq> Panic"
    using parseWASMMetadata_panic [of "overflowModule 0x80"] nextSection_walk [of "overflowModule 0x80" 8] by (simp add: len)
qed

end
