(* ===== verification/Sha256.thy ===== *)
theory Sha256
  imports GoStd
begin

unbundle bit_operations_syntax

text \<open>\<open>crypto/sha256\<close>: the hash the key columns of the Soroban tables are made of (FIPS 180-4).\<close>

text \<open>The 64 round constants, eight to a number, and a number cut into its 32-bit words.\<close>

definition cutWords :: "256 word \<Rightarrow> u32 list" where
  "cutWords x = map (\<lambda>k. ucast (drop_bit (32 * k) x)) [7, 6, 5, 4, 3, 2, 1, 0]"

definition roundConstants :: "u32 list" where
  "roundConstants = concat (map cutWords [
     0x428a2f9871374491b5c0fbcfe9b5dba53956c25b59f111f1923f82a4ab1c5ed5,
     0xd807aa9812835b01243185be550c7dc372be5d7480deb1fe9bdc06a7c19bf174,
     0xe49b69c1efbe47860fc19dc6240ca1cc2de92c6f4a7484aa5cb0a9dc76f988da,
     0x983e5152a831c66db00327c8bf597fc7c6e00bf3d5a7914706ca635114292967,
     0x27b70a852e1b21384d2c6dfc53380d13650a7354766a0abb81c2c92e92722c85,
     0xa2bfe8a1a81a664bc24b8b70c76c51a3d192e819d6990624f40e3585106aa070,
     0x19a4c1161e376c082748774c34b0bcb5391c0cb34ed8aa4a5b9cca4f682e6ff3,
     0x748f82ee78a5636f84c878148cc7020890befffaa4506cebbef9a3f7c67178f2])"

type_synonym digest = "u32 \<times> u32 \<times> u32 \<times> u32 \<times> u32 \<times> u32 \<times> u32 \<times> u32"

definition initialDigest :: digest where
  "initialDigest = (0x6a09e667, 0xbb67ae85, 0x3c6ef372, 0xa54ff53a, 0x510e527f, 0x9b05688c, 0x1f83d9ab, 0x5be0cd19)"

text \<open>A one bit, zeros to 56 modulo 64 bytes, and the length in bits as eight bytes.\<close>

definition bigEndian64 :: "u64 \<Rightarrow> byte list" where
  "bigEndian64 n = map (\<lambda>k. ucast (drop_bit (8 * k) n)) [7, 6, 5, 4, 3, 2, 1, 0]"

definition pad :: "byte list \<Rightarrow> byte list" where
  "pad m = m @ [0x80] @ replicate ((119 - length m mod 64) mod 64) 0 @ bigEndian64 (push_bit 3 (of_nat (length m)))"

fun words32 :: "byte list \<Rightarrow> u32 list" where
  "words32 (a # b # c # d # bs) =
     (push_bit 24 (ucast a) OR push_bit 16 (ucast b) OR push_bit 8 (ucast c) OR ucast d) # words32 bs"
| "words32 bs = []"

definition smallSigma0 :: "u32 \<Rightarrow> u32" where
  "smallSigma0 w = word_rotr 7 w XOR word_rotr 18 w XOR drop_bit 3 w"

definition smallSigma1 :: "u32 \<Rightarrow> u32" where
  "smallSigma1 w = word_rotr 17 w XOR word_rotr 19 w XOR drop_bit 10 w"

text \<open>The schedule, last word first.\<close>

fun extendSchedule :: "nat \<Rightarrow> u32 list \<Rightarrow> u32 list" where
  "extendSchedule 0 ws = ws"
| "extendSchedule (Suc n) ws =
     extendSchedule n ((smallSigma1 (ws ! 1) + ws ! 6 + smallSigma0 (ws ! 14) + ws ! 15) # ws)"

definition shaRound :: "digest \<Rightarrow> u32 \<times> u32 \<Rightarrow> digest" where
  "shaRound s kw = (case s of (a, b, c, d, e, f, g, h) \<Rightarrow>
     let s1 = word_rotr 6 e XOR word_rotr 11 e XOR word_rotr 25 e;
         ch = (e AND f) XOR (NOT e AND g);
         t1 = h + s1 + ch + fst kw + snd kw;
         s0 = word_rotr 2 a XOR word_rotr 13 a XOR word_rotr 22 a;
         maj = (a AND b) XOR (a AND c) XOR (b AND c);
         t2 = s0 + maj
     in (t1 + t2, a, b, c, d + t1, e, f, g))"

definition shaBlock :: "digest \<Rightarrow> byte list \<Rightarrow> digest" where
  "shaBlock s block = (let ws = rev (extendSchedule 48 (rev (words32 block))) in
     case (s, foldl shaRound s (zip roundConstants ws)) of
       ((a, b, c, d, e, f, g, h), (a', b', c', d', e', f', g', h')) \<Rightarrow>
         (a + a', b + b', c + c', d + d', e + e', f + f', g + g', h + h'))"

fun shaBlocks :: "nat \<Rightarrow> digest \<Rightarrow> byte list \<Rightarrow> digest" where
  "shaBlocks 0 s bs = s"
| "shaBlocks (Suc n) s bs = shaBlocks n (shaBlock s (take 64 bs)) (drop 64 bs)"

definition bytes32 :: "u32 \<Rightarrow> byte list" where
  "bytes32 w = map (\<lambda>k. ucast (drop_bit (8 * k) w)) [3, 2, 1, 0]"

definition sha256 :: "byte list \<Rightarrow> byte list" where
  "sha256 m = (case shaBlocks (length (pad m) div 64) initialDigest (pad m) of
     (a, b, c, d, e, f, g, h) \<Rightarrow> concat (map bytes32 [a, b, c, d, e, f, g, h]))"

lemma length_sha256 [simp]: "length (sha256 m) = 32"
  by (simp add: sha256_def bytes32_def split: prod.split)

lemma length_pad: "64 dvd length (pad m)"
proof -
  have "(r + 9 + (119 - r) mod 64) mod 64 = 0" if "r < 64" for r :: nat
  proof (cases "r \<le> 55")
    case True
    then have "(119 - r) mod 64 = 55 - r" by (simp add: mod_if)
    with True show ?thesis by simp
  next
    case False
    with that have "(119 - r) mod 64 = 119 - r" by simp
    with False that show ?thesis by simp
  qed
  from this [of "length m mod 64"] have "(length m mod 64 + (9 + (119 - length m mod 64) mod 64)) mod 64 = 0"
    by (simp add: add.assoc)
  then have "(length m + (9 + (119 - length m mod 64) mod 64)) mod 64 = 0"
    by (simp only: mod_add_left_eq)
  moreover have "length (pad m) = length m + (9 + (119 - length m mod 64) mod 64)"
    by (simp add: pad_def bigEndian64_def)
  ultimately show ?thesis by (simp only: dvd_eq_mod_eq_0)
qed

text \<open>A test vector of the standard.\<close>

lemma sha256_abc:
  "hexEncode (sha256 (stringBytes ''abc''))
   = ''ba7816bf8f01cfea414140de5dae2223b00361a396177a9cb410ff61f20015ad''"
  by code_simp

end
