(* ===== verification/Input.thy ===== *)
theory Input
  imports XdrTx Ordering
begin

text \<open>
  \<open>extract.go\<close>: the input of every extractor.  \<open>LedgerCloseMeta\<close> is given by its arms and by
  the results of the SDK accessors the code calls on it; the two streams are what
  \<open>input.Transactions()\<close> and \<open>input.Changes()\<close> return (theory \<^theory_text>\<open>Extract\<close> models the
  cached reading behind them).
\<close>

section \<open>LedgerCloseMeta\<close>

record lc_value_signature =
  vs_NodeEd25519 :: "hash option"  \<comment> \<open>none when the node id is no Ed25519 key\<close>
  vs_Signature :: "byte list"

text \<open>The signed arm's pointer, the proposed value's nested signature, or an unsigned value.\<close>

datatype scp_ext =
    ScpBasic
  | ScpSigned "lc_value_signature option"
  | ScpEmptyTxSet "lc_value_signature option"
  | ScpOther i32

record ledger_header =
  lh_PreviousLedgerHash :: hash
  lh_LedgerVersion :: u32
  lh_TotalCoins :: i64
  lh_FeePool :: i64
  lh_BaseFee :: u32
  lh_BaseReserve :: u32
  lh_MaxTxSetSize :: u32
  lh_ScpExt :: scp_ext
  lh_XDR :: "byte list res"  \<comment> \<open>\<open>Header.MarshalBinary()\<close>\<close>

record header_entry =
  he_Hash :: hash
  he_Header :: ledger_header

record envelope =
  ev_Operations :: "operation list"

record tx_apply =
  ta_OperationResults :: "op_result list option"
  ta_Successful :: bool
  ta_FeeCharged :: i64
  ta_Meta :: tx_meta

record lcm_v0 =
  l0_LedgerHeader :: header_entry
  l0_TxSet :: "envelope list"

text \<open>The fields of V1 and of V2 the code reads are the same.\<close>

record lcm_v1 =
  l1_LedgerHeader :: header_entry
  l1_TxProcessing :: "tx_apply list"
  l1_SorobanFeeWrite1Kb :: "i64 option"  \<comment> \<open>the V1 extension\<close>
  l1_TotalByteSizeOfLiveSorobanState :: u64
  l1_EvictedKeys :: "ledger_key list"

datatype lcm_arm = LcmV0 lcm_v0 | LcmV1 lcm_v1 | LcmV2 lcm_v1 | LcmOther i32

record ledger_close_meta =
  lcm_Arm :: lcm_arm
  lcm_TransactionEnvelopes :: "envelope list"
  lcm_LedgerSequence :: u32
  lcm_CloseTime :: u64

section \<open>LedgerInput\<close>

record ledger_input =
  in_LCM :: ledger_close_meta
  in_NetworkPassphrase :: string
  in_Sequence :: u32
  in_ClosedAt :: gotime
  in_LedgerRange :: u32
  in_EraID :: "string option"
  in_Transactions :: "ledger_tx list res"
  in_Changes :: "change list res"

text \<open>
  \<open>NewLedgerInput\<close>; the streams are those the SDK's readers deliver for this meta.
  \<open>time.Unix(int64(CloseTime), 0)\<close> reads the unsigned close time as a signed number.
\<close>

definition newLedgerInput ::
    "ledger_close_meta \<Rightarrow> string \<Rightarrow> ledger_tx list res \<Rightarrow> change list res \<Rightarrow> ledger_input" where
  "newLedgerInput meta passphrase txs changes = (let seq = lcm_LedgerSequence meta in
     \<lparr>in_LCM = meta, in_NetworkPassphrase = passphrase, in_Sequence = seq,
      in_ClosedAt = sint (lcm_CloseTime meta), in_LedgerRange = (seq div 10000) * 10000,
      in_EraID = None, in_Transactions = txs, in_Changes = changes\<rparr>)"

text \<open>
  The partition key of a ledger is its sequence number rounded down to a multiple of 10000 (not the
  number of the partition), computed without wrap-around.
\<close>

theorem ledgerRange_rounds_down:
  "unat (in_LedgerRange (newLedgerInput meta p txs chs)) = unat (lcm_LedgerSequence meta) div 10000 * 10000
   \<and> 10000 dvd unat (in_LedgerRange (newLedgerInput meta p txs chs))
   \<and> in_LedgerRange (newLedgerInput meta p txs chs) \<le> lcm_LedgerSequence meta
   \<and> unat (lcm_LedgerSequence meta) - unat (in_LedgerRange (newLedgerInput meta p txs chs)) < 10000"
proof -
  let ?s = "lcm_LedgerSequence meta"
  have "unat (?s div 10000) = unat ?s div 10000" by (simp add: unat_div)
  moreover have "unat ?s div 10000 * 10000 < 2 ^ 32"
    using unsigned_less [of ?s, where ?'a = nat] by (simp add: le_less_trans [OF div_times_less_eq_dividend])
  ultimately have r: "unat ((?s div 10000) * 10000) = unat ?s div 10000 * 10000"
    by (simp add: unat_word_ariths)
  have "unat ?s - unat ?s div 10000 * 10000 < 10000"
    by (simp add: minus_div_mult_eq_mod)
  then show ?thesis
    by (simp add: newLedgerInput_def Let_def r word_le_nat_alt)
qed

text \<open>Inputs to build examples from.\<close>

definition demoLcm :: ledger_close_meta where
  "demoLcm = \<lparr>lcm_Arm = LcmOther 9, lcm_TransactionEnvelopes = [], lcm_LedgerSequence = 61500126,
     lcm_CloseTime = 1700000000\<rparr>"

definition demoChanges :: "change list \<Rightarrow> ledger_input" where
  "demoChanges chs = newLedgerInput demoLcm ''passphrase'' (Ok []) (Ok chs)"

definition demoTxs :: "ledger_tx list \<Rightarrow> ledger_input" where
  "demoTxs txs = newLedgerInput demoLcm ''passphrase'' (Ok txs) (Ok [])"

lemma demoChanges_simps [simp]: "in_Changes (demoChanges chs) = Ok chs" "in_EraID (demoChanges chs) = None"
  by (simp_all add: demoChanges_def newLedgerInput_def Let_def)

lemma demoTxs_simps [simp]: "in_Transactions (demoTxs txs) = Ok txs" "in_EraID (demoTxs txs) = None"
  by (simp_all add: demoTxs_def newLedgerInput_def Let_def)

end
