(* ===== verification/Market.thy ===== *)
theory Market
  imports Sdk Input
begin

text \<open>
  \<open>market.go\<close>: the offer, claimable balance and liquidity pool snapshots.  \<open>now i\<close> is what
  \<open>time.Now().UTC()\<close> returns while change \<open>i\<close> is processed.
\<close>

section \<open>Assets\<close>

text \<open>Asset type, code and issuer.\<close>

fun parseAsset :: "sdk \<Rightarrow> asset \<Rightarrow> string \<times> string option \<times> string option" where
  "parseAsset E AssetNative = (''native'', None, None)"
| "parseAsset E (Asset4 code issuer) =
     (''credit_alphanum4'', Some (trimRightNul (bytesString code)), Some (accountAddress E issuer))"
| "parseAsset E (Asset12 code issuer) =
     (''credit_alphanum12'', Some (trimRightNul (bytesString code)), Some (accountAddress E issuer))"
| "parseAsset E AssetPoolShare = (''liquidity_pool_shares'', Some ''POOL_SHARE'', Some ''pool'')"
| "parseAsset E (AssetOther n) = (''unknown'', None, None)"

section \<open>Offers\<close>

record offer_data =
  od_OfferID :: i64
  od_SellerAccount :: string
  od_LedgerSequence :: u32
  od_ClosedAt :: gotime
  od_Selling :: "string \<times> string option \<times> string option"
  od_Buying :: "string \<times> string option \<times> string option"
  od_Amount :: string
  od_Price :: string
  od_Flags :: u32
  od_CreatedAt :: gotime
  od_LedgerRange :: u32
  od_EraID :: "string option"

definition extractOfferDataFromEntry :: "sdk \<Rightarrow> gotime \<Rightarrow> ledger_input \<Rightarrow> offer_entry \<Rightarrow> offer_data" where
  "extractOfferDataFromEntry E now input e =
     \<lparr>od_OfferID = of_OfferId e, od_SellerAccount = accountAddress E (of_SellerId e),
      od_LedgerSequence = in_Sequence input, od_ClosedAt = in_ClosedAt input,
      od_Selling = parseAsset E (of_Selling e), od_Buying = parseAsset E (of_Buying e),
      od_Amount = sdec (of_Amount e), od_Price = sdec (of_PriceN e) @ ''/'' @ sdec (of_PriceD e),
      od_Flags = of_Flags e, od_CreatedAt = now, od_LedgerRange = in_LedgerRange input,
      od_EraID = in_EraID input\<rparr>"

text \<open>\<open>change.Post != nil\<close> and \<open>change.Post.Data.GetOffer()\<close>.\<close>

definition postOffer :: "change \<Rightarrow> offer_entry option" where
  "postOffer ch = (case ch_Post ch of
     Some le \<Rightarrow> (case le_Data le of DOffer oe \<Rightarrow> Some oe | _ \<Rightarrow> None)
   | None \<Rightarrow> None)"

text \<open>The map key is an \<open>int64\<close>, so the rows come out in the order of the signed numbers.\<close>

definition offerStep :: "sdk \<Rightarrow> (nat \<Rightarrow> gotime) \<Rightarrow> ledger_input \<Rightarrow> nat \<times> change \<Rightarrow> (int \<times> offer_data) list res" where
  "offerStep E now input ic = (case ic of (i, ch) \<Rightarrow>
     if ch_Type ch \<noteq> EOffer then Ok []
     else case postOffer ch of
       None \<Rightarrow> Ok []
     | Some oe \<Rightarrow> let row = extractOfferDataFromEntry E (now i) input oe in
         Ok [(sint (od_OfferID row), row)])"

text \<open>A change stream that cannot be read gives no rows and no error.\<close>

definition extractOffers :: "sdk \<Rightarrow> (nat \<Rightarrow> gotime) \<Rightarrow> ledger_input \<Rightarrow> offer_data list res" where
  "extractOffers E now input = (case in_Changes input of
     Err e \<Rightarrow> Ok [] | Panic \<Rightarrow> Panic
   | Ok changes \<Rightarrow> collectRows (offerStep E now input) (enumerate 0 changes))"

definition offerEntry :: "change \<Rightarrow> offer_entry option" where
  "offerEntry ch = (if ch_Type ch = EOffer then postOffer ch else None)"

interpretation offers: snapshot "offerStep E now input" "\<lambda>ch. True" offerEntry "\<lambda>oe. sint (of_OfferId oe)"
  "\<lambda>i. extractOfferDataFromEntry E (now i) input" "\<lambda>r. sint (od_OfferID r)" for E now input
  by unfold_locales (auto simp: offerStep_def offerEntry_def extractOfferDataFromEntry_def Let_def split: option.splits)

text \<open>
  The offers table has one row per offer with a new state in the ledger, by ascending offer id, and
  each row is that of the last such change of its offer.
\<close>

theorem extractOffers_snapshot:
  assumes "in_Changes input = Ok changes"
  shows "\<exists>rows. extractOffers E now input = Ok rows
    \<and> map (\<lambda>r. sint (od_OfferID r)) rows
        = sorted_list_of_set ((\<lambda>oe. sint (of_OfferId oe)) ` set (List.map_filter offerEntry changes))
    \<and> (\<forall>r \<in> set rows. \<exists>i oe. i < length changes \<and> offerEntry (changes ! i) = Some oe
         \<and> r = extractOfferDataFromEntry E (now i) input oe
         \<and> (\<forall>j oe'. i < j \<and> j < length changes \<and> offerEntry (changes ! j) = Some oe' \<longrightarrow>
              sint (of_OfferId oe') \<noteq> sint (of_OfferId oe)))"
  using offers.rows [of changes E now input] assms by (simp add: extractOffers_def)

definition demoOffer :: "i64 \<Rightarrow> i64 \<Rightarrow> change" where
  "demoOffer i amount = \<lparr>ch_Type = EOffer, ch_ChangeType = ChUpdated, ch_Pre = None,
     ch_Post = Some \<lparr>le_LastModified = 1, le_Data = DOffer \<lparr>of_SellerId = [], of_OfferId = i,
       of_Selling = AssetNative, of_Buying = Asset4 [65, 66, 0, 0] [7], of_Amount = amount,
       of_PriceN = 1, of_PriceD = 3, of_Flags = 0\<rparr>, le_Sponsor = None\<rparr>\<rparr>"

theorem extractOffers_snapshot_witness:
  "\<exists>rows. extractOffers demoSdk (\<lambda>i. int i) (demoChanges [demoOffer 10 5, demoOffer 9 6, demoOffer 10 7]) = Ok rows
    \<and> map (\<lambda>r. sint (od_OfferID r)) rows = [9, 10] \<and> map od_Amount rows = [''6'', ''7'']"
proof -
  let ?chs = "[demoOffer 10 5, demoOffer 9 6, demoOffer 10 7]"
  have "mapR (map od_Amount) (extractOffers demoSdk (\<lambda>i. int i) (demoChanges ?chs)) = Ok [''6'', ''7'']"
    by code_simp
  moreover have "(\<lambda>oe. sint (of_OfferId oe)) ` set (List.map_filter offerEntry ?chs) = {9, 10}"
    by (simp add: demoOffer_def offerEntry_def postOffer_def insert_commute)
  ultimately show ?thesis
    using extractOffers_snapshot [of "demoChanges ?chs" ?chs demoSdk "\<lambda>i. int i"] by auto
qed

section \<open>Claimable balances\<close>

record claimable_balance_data =
  bd_BalanceID :: string
  bd_Sponsor :: string
  bd_LedgerSequence :: u32
  bd_ClosedAt :: gotime
  bd_Asset :: "string \<times> string option \<times> string option"
  bd_Amount :: i64
  bd_ClaimantsCount :: i32
  bd_Flags :: u32
  bd_CreatedAt :: gotime
  bd_LedgerRange :: u32
  bd_EraID :: "string option"

text \<open>The row of a V0 balance, from the ledger entry, the balance entry and the id.\<close>

fun claimableBalanceData ::
    "sdk \<Rightarrow> gotime \<Rightarrow> ledger_input \<Rightarrow> ledger_entry \<times> claimable_balance_entry \<times> hash \<Rightarrow> claimable_balance_data" where
  "claimableBalanceData E now input (le, cb, h) =
     \<lparr>bd_BalanceID = hexEncode h,
      bd_Sponsor = (case le_Sponsor le of Some s \<Rightarrow> accountAddress E s | None \<Rightarrow> []),
      bd_LedgerSequence = in_Sequence input, bd_ClosedAt = in_ClosedAt input,
      bd_Asset = parseAsset E (cb_Asset cb), bd_Amount = cb_Amount cb,
      bd_ClaimantsCount = of_nat (length (cb_Claimants cb)), bd_Flags = 0,
      bd_CreatedAt = now, bd_LedgerRange = in_LedgerRange input, bd_EraID = in_EraID input\<rparr>"

text \<open>\<open>MustV0\<close> reads the arm pointer of the balance id.\<close>

definition claimableBalanceStep ::
    "sdk \<Rightarrow> (nat \<Rightarrow> gotime) \<Rightarrow> ledger_input \<Rightarrow> nat \<times> change \<Rightarrow> (string \<times> claimable_balance_data) list res" where
  "claimableBalanceStep E now input ic = (case ic of (i, ch) \<Rightarrow>
     if ch_Type ch \<noteq> EClaimableBalance then Ok []
     else case ch_Post ch of
       None \<Rightarrow> Ok []
     | Some le \<Rightarrow> (case le_Data le of
         DClaimableBalance cb \<Rightarrow> (case cb_BalanceId cb of
             CbV0 (Some h) \<Rightarrow> let row = claimableBalanceData E (now i) input (le, cb, h) in
               Ok [(bd_BalanceID row, row)]
           | CbV0 None \<Rightarrow> Panic
           | CbOther n \<Rightarrow> Ok [])
       | _ \<Rightarrow> Ok []))"

definition extractClaimableBalances :: "sdk \<Rightarrow> (nat \<Rightarrow> gotime) \<Rightarrow> ledger_input \<Rightarrow> claimable_balance_data list res" where
  "extractClaimableBalances E now input = (case in_Changes input of
     Err e \<Rightarrow> Ok [] | Panic \<Rightarrow> Panic
   | Ok changes \<Rightarrow> collectRows (claimableBalanceStep E now input) (enumerate 0 changes))"

definition balanceEntry :: "change \<Rightarrow> (ledger_entry \<times> claimable_balance_entry \<times> hash) option" where
  "balanceEntry ch = (if ch_Type ch \<noteq> EClaimableBalance then None else case ch_Post ch of
     Some le \<Rightarrow> (case le_Data le of
         DClaimableBalance cb \<Rightarrow> (case cb_BalanceId cb of CbV0 (Some h) \<Rightarrow> Some (le, cb, h) | _ \<Rightarrow> None)
       | _ \<Rightarrow> None)
   | None \<Rightarrow> None)"

definition balanceIdSet :: "change \<Rightarrow> bool" where
  "balanceIdSet ch = (case ch_Post ch of
     Some le \<Rightarrow> (case le_Data le of DClaimableBalance cb \<Rightarrow> cb_BalanceId cb \<noteq> CbV0 None | _ \<Rightarrow> True)
   | None \<Rightarrow> True)"

fun balanceKey :: "ledger_entry \<times> claimable_balance_entry \<times> hash \<Rightarrow> string" where
  "balanceKey (le, cb, h) = hexEncode h"

interpretation balances: snapshot "claimableBalanceStep E now input" balanceIdSet balanceEntry
  balanceKey "\<lambda>i. claimableBalanceData E (now i) input" bd_BalanceID
  for E now input
  by unfold_locales
    (auto simp: claimableBalanceStep_def balanceEntry_def balanceIdSet_def Let_def
      split: option.splits entry_data.splits cb_id.splits)

text \<open>
  The claimable balances table has one row per balance with a new state, by ascending hex id, and
  each row is that of the last such change of its balance.
\<close>

theorem extractClaimableBalances_snapshot:
  assumes "in_Changes input = Ok changes" "\<forall>ch \<in> set changes. balanceIdSet ch"
  shows "\<exists>rows. extractClaimableBalances E now input = Ok rows
    \<and> map bd_BalanceID rows = sorted_list_of_set (balanceKey ` set (List.map_filter balanceEntry changes))
    \<and> (\<forall>r \<in> set rows. \<exists>i b. i < length changes \<and> balanceEntry (changes ! i) = Some b
         \<and> r = claimableBalanceData E (now i) input b
         \<and> (\<forall>j b'. i < j \<and> j < length changes \<and> balanceEntry (changes ! j) = Some b' \<longrightarrow> balanceKey b' \<noteq> balanceKey b))"
  using balances.rows [OF assms(2), of E now input] assms(1)
  by (simp add: extractClaimableBalances_def)

section \<open>Liquidity pools\<close>

record pool_data =
  pd_LiquidityPoolID :: string
  pd_LedgerSequence :: u32
  pd_ClosedAt :: gotime
  pd_PoolType :: string
  pd_Fee :: i32
  pd_TrustlineCount :: i32
  pd_TotalPoolShares :: i64
  pd_AssetA :: "string \<times> string option \<times> string option"
  pd_AssetAAmount :: i64
  pd_AssetB :: "string \<times> string option \<times> string option"
  pd_AssetBAmount :: i64
  pd_CreatedAt :: gotime
  pd_LedgerRange :: u32
  pd_EraID :: "string option"

text \<open>The trustline count is an \<open>int64\<close> narrowed to \<open>int32\<close>.\<close>

fun liquidityPoolData :: "sdk \<Rightarrow> gotime \<Rightarrow> ledger_input \<Rightarrow> hash \<times> pool_params \<Rightarrow> pool_data" where
  "liquidityPoolData E now input (poolId, cp) =
     \<lparr>pd_LiquidityPoolID = hexEncode poolId, pd_LedgerSequence = in_Sequence input,
      pd_ClosedAt = in_ClosedAt input, pd_PoolType = ''constant_product'', pd_Fee = pp_Fee cp,
      pd_TrustlineCount = ucast (pp_TrustLineCount cp), pd_TotalPoolShares = pp_TotalPoolShares cp,
      pd_AssetA = parseAsset E (pp_AssetA cp), pd_AssetAAmount = pp_ReserveA cp,
      pd_AssetB = parseAsset E (pp_AssetB cp), pd_AssetBAmount = pp_ReserveB cp,
      pd_CreatedAt = now, pd_LedgerRange = in_LedgerRange input, pd_EraID = in_EraID input\<rparr>"

definition postPool :: "change \<Rightarrow> pool_entry option" where
  "postPool ch = (case ch_Post ch of
     Some le \<Rightarrow> (case le_Data le of DLiquidityPool lp \<Rightarrow> Some lp | _ \<Rightarrow> None)
   | None \<Rightarrow> None)"

definition liquidityPoolStep ::
    "sdk \<Rightarrow> (nat \<Rightarrow> gotime) \<Rightarrow> ledger_input \<Rightarrow> nat \<times> change \<Rightarrow> (string \<times> pool_data) list res" where
  "liquidityPoolStep E now input ic = (case ic of (i, ch) \<Rightarrow>
     if ch_Type ch \<noteq> ELiquidityPool then Ok []
     else case postPool ch of
       None \<Rightarrow> Ok []
     | Some lp \<Rightarrow> (case lp_Body lp of
         PoolOther n \<Rightarrow> Ok []
       | PoolConstantProduct cp \<Rightarrow> Ok [(hexEncode (lp_Id lp), liquidityPoolData E (now i) input (lp_Id lp, cp))]))"

definition extractLiquidityPools :: "sdk \<Rightarrow> (nat \<Rightarrow> gotime) \<Rightarrow> ledger_input \<Rightarrow> pool_data list res" where
  "extractLiquidityPools E now input = (case in_Changes input of
     Err e \<Rightarrow> Ok [] | Panic \<Rightarrow> Panic
   | Ok changes \<Rightarrow> collectRows (liquidityPoolStep E now input) (enumerate 0 changes))"

definition poolEntry :: "change \<Rightarrow> (hash \<times> pool_params) option" where
  "poolEntry ch = (if ch_Type ch \<noteq> ELiquidityPool then None else case postPool ch of
     Some lp \<Rightarrow> (case lp_Body lp of PoolConstantProduct cp \<Rightarrow> Some (lp_Id lp, cp) | _ \<Rightarrow> None)
   | None \<Rightarrow> None)"

fun poolKey :: "hash \<times> pool_params \<Rightarrow> string" where
  "poolKey (h, cp) = hexEncode h"

interpretation pools: snapshot "liquidityPoolStep E now input" "\<lambda>ch. True" poolEntry
  poolKey "\<lambda>i. liquidityPoolData E (now i) input" pd_LiquidityPoolID
  for E now input
  by unfold_locales
    (auto simp: liquidityPoolStep_def poolEntry_def split: option.splits pool_body.splits)

text \<open>
  The liquidity pools table has one row per constant-product pool with a new state, by ascending hex
  id, and each row is that of the last such change of its pool.
\<close>

theorem extractLiquidityPools_snapshot:
  assumes "in_Changes input = Ok changes"
  shows "\<exists>rows. extractLiquidityPools E now input = Ok rows
    \<and> map pd_LiquidityPoolID rows = sorted_list_of_set (poolKey ` set (List.map_filter poolEntry changes))
    \<and> (\<forall>r \<in> set rows. \<exists>i p. i < length changes \<and> poolEntry (changes ! i) = Some p
         \<and> r = liquidityPoolData E (now i) input p
         \<and> (\<forall>j p'. i < j \<and> j < length changes \<and> poolEntry (changes ! j) = Some p' \<longrightarrow> poolKey p' \<noteq> poolKey p))"
  using pools.rows [of changes E now input] assms by (simp add: extractLiquidityPools_def)

end
