(* ===== verification/Accounts.thy ===== *)
theory Accounts
  imports Sdk Input GoJson
begin

unbundle bit_operations_syntax

text \<open>
  \<open>accounts.go\<close>: the account, trustline, signer and native balance snapshots.  \<open>now i\<close> is what
  \<open>time.Now().UTC()\<close> returns while change \<open>i\<close> is processed.
\<close>

section \<open>Accounts\<close>

record account_data =
  ad_AccountID :: string
  ad_LedgerSequence :: u32
  ad_ClosedAt :: gotime
  ad_Balance :: string
  ad_SequenceNumber :: u64
  ad_SequenceLedger :: u32
  ad_SequenceTime :: u64
  ad_NumSubentries :: u32
  ad_NumSponsoring :: u32
  ad_NumSponsored :: u32
  ad_HomeDomain :: "string option"
  ad_Weights :: "u32 \<times> u32 \<times> u32 \<times> u32"  \<comment> \<open>master weight, low, medium and high threshold\<close>
  ad_Flags :: u32
  ad_AuthRequired :: bool
  ad_AuthRevocable :: bool
  ad_AuthImmutable :: bool
  ad_AuthClawbackEnabled :: bool
  ad_Signers :: "string option"
  ad_SponsorAccount :: "string option"
  ad_CreatedAt :: gotime
  ad_UpdatedAt :: gotime
  ad_LedgerRange :: u32
  ad_EraID :: "string option"

definition extV2 :: "account_entry \<Rightarrow> account_ext_v2 option" where
  "extV2 e = (case ac_Ext e of Some x1 \<Rightarrow> x1_V2 x1 | None \<Rightarrow> None)"

text \<open>\<open>json.Marshal\<close> of the signer list, key and weight of each.\<close>

definition signersJSON :: "sdk \<Rightarrow> (signer_key \<times> u32) list \<Rightarrow> string option" where
  "signersJSON E signers = (if signers = [] then None
     else Some (jsonArray (map (\<lambda>(k, w). jsonObject
       [(''key'', jsonString (signerKeyAddress E k)), (''weight'', udec w)]) signers)))"

definition extractAccountData :: "sdk \<Rightarrow> gotime \<Rightarrow> ledger_input \<Rightarrow> account_entry \<Rightarrow> account_data" where
  "extractAccountData E now input e =
     (case ac_Thresholds e of (t0, t1, t2, t3) \<Rightarrow>
     \<lparr>ad_AccountID = accountAddress E (ac_AccountId e),
      ad_LedgerSequence = in_Sequence input, ad_ClosedAt = in_ClosedAt input,
      ad_Balance = amountString E (ac_Balance e), ad_SequenceNumber = ac_SeqNum e,
      ad_SequenceLedger = ac_SeqLedger e, ad_SequenceTime = ac_SeqTime e,
      ad_NumSubentries = ac_NumSubEntries e,
      ad_NumSponsoring = (case extV2 e of Some x \<Rightarrow> x2_NumSponsoring x | None \<Rightarrow> 0),
      ad_NumSponsored = (case extV2 e of Some x \<Rightarrow> x2_NumSponsored x | None \<Rightarrow> 0),
      ad_HomeDomain = (if ac_HomeDomain e \<noteq> [] then Some (ac_HomeDomain e) else None),
      ad_Weights = (ucast t0, ucast t1, ucast t2, ucast t3),
      ad_Flags = ac_Flags e,
      ad_AuthRequired = (ac_Flags e AND 1 \<noteq> 0), ad_AuthRevocable = (ac_Flags e AND 2 \<noteq> 0),
      ad_AuthImmutable = (ac_Flags e AND 4 \<noteq> 0), ad_AuthClawbackEnabled = (ac_Flags e AND 8 \<noteq> 0),
      ad_Signers = signersJSON E (ac_Signers e), ad_SponsorAccount = None,
      ad_CreatedAt = now, ad_UpdatedAt = now,
      ad_LedgerRange = in_LedgerRange input, ad_EraID = in_EraID input\<rparr>)"

definition postAccount :: "change \<Rightarrow> account_entry option" where
  "postAccount ch = (case ch_Post ch of
     Some le \<Rightarrow> (case le_Data le of DAccount ae \<Rightarrow> Some ae | _ \<Rightarrow> None)
   | None \<Rightarrow> None)"

definition accountStep :: "sdk \<Rightarrow> (nat \<Rightarrow> gotime) \<Rightarrow> ledger_input \<Rightarrow> nat \<times> change \<Rightarrow> (string \<times> account_data) list res" where
  "accountStep E now input ic = (case ic of (i, ch) \<Rightarrow>
     if ch_Type ch \<noteq> EAccount then Ok []
     else case postAccount ch of
       None \<Rightarrow> Ok []
     | Some ae \<Rightarrow> let row = extractAccountData E (now i) input ae in Ok [(ad_AccountID row, row)])"

definition extractAccounts :: "sdk \<Rightarrow> (nat \<Rightarrow> gotime) \<Rightarrow> ledger_input \<Rightarrow> account_data list res" where
  "extractAccounts E now input = (case in_Changes input of
     Err e \<Rightarrow> Ok [] | Panic \<Rightarrow> Panic
   | Ok changes \<Rightarrow> collectRows (accountStep E now input) (enumerate 0 changes))"

definition accountEntry :: "change \<Rightarrow> account_entry option" where
  "accountEntry ch = (if ch_Type ch = EAccount then postAccount ch else None)"

lemma ad_AccountID_row: "ad_AccountID (extractAccountData E now input e) = accountAddress E (ac_AccountId e)"
  by (simp add: extractAccountData_def split: prod.split)

interpretation accounts: snapshot "accountStep E now input" "\<lambda>ch. True" accountEntry
  "\<lambda>e. accountAddress E (ac_AccountId e)" "\<lambda>i. extractAccountData E (now i) input" ad_AccountID
  for E now input
  by unfold_locales (auto simp: accountStep_def accountEntry_def ad_AccountID_row Let_def split: option.splits)

text \<open>
  The accounts table has one row per account address with a new state, by ascending address, and each
  row is that of the last such change of its account.
\<close>

theorem extractAccounts_snapshot:
  assumes "in_Changes input = Ok changes"
  shows "\<exists>rows. extractAccounts E now input = Ok rows
    \<and> map ad_AccountID rows
        = sorted_list_of_set ((\<lambda>e. accountAddress E (ac_AccountId e)) ` set (List.map_filter accountEntry changes))
    \<and> (\<forall>r \<in> set rows. \<exists>i e. i < length changes \<and> accountEntry (changes ! i) = Some e
         \<and> r = extractAccountData E (now i) input e
         \<and> (\<forall>j e'. i < j \<and> j < length changes \<and> accountEntry (changes ! j) = Some e' \<longrightarrow>
              accountAddress E (ac_AccountId e') \<noteq> accountAddress E (ac_AccountId e)))"
  using accounts.rows [of changes E now input] assms by (simp add: extractAccounts_def)

definition demoAccountEntry :: "byte \<Rightarrow> i64 \<Rightarrow> (signer_key \<times> u32) list \<Rightarrow> ledger_entry" where
  "demoAccountEntry a balance signers = \<lparr>le_LastModified = 1, le_Data = DAccount
     \<lparr>ac_AccountId = [a], ac_Balance = balance, ac_SeqNum = 7, ac_NumSubEntries = 0, ac_HomeDomain = [],
      ac_Thresholds = (1, 0, 0, 0), ac_Flags = 10, ac_Signers = signers, ac_Ext = None,
      ac_SeqLedger = 0, ac_SeqTime = 0\<rparr>, le_Sponsor = None\<rparr>"

definition demoAccount :: "byte \<Rightarrow> i64 \<Rightarrow> change" where
  "demoAccount a balance = \<lparr>ch_Type = EAccount, ch_ChangeType = ChUpdated, ch_Pre = None,
     ch_Post = Some (demoAccountEntry a balance [])\<rparr>"

theorem extractAccounts_snapshot_witness:
  "\<exists>rows. extractAccounts demoSdk (\<lambda>i. int i) (demoChanges [demoAccount 2 5, demoAccount 1 6, demoAccount 2 7]) = Ok rows
    \<and> map ad_AccountID rows = [''GAB'', ''GAC''] \<and> map ad_Balance rows = [''6'', ''7'']"
proof -
  let ?chs = "[demoAccount 2 5, demoAccount 1 6, demoAccount 2 7]"
  have "mapR (map ad_Balance) (extractAccounts demoSdk (\<lambda>i. int i) (demoChanges ?chs)) = Ok [''6'', ''7'']"
    by code_simp
  moreover have "sorted_list_of_set ((\<lambda>e. accountAddress demoSdk (ac_AccountId e)) ` set (List.map_filter accountEntry ?chs))
      = [''GAB'', ''GAC'']" by code_simp
  ultimately show ?thesis
    using extractAccounts_snapshot [of "demoChanges ?chs" ?chs demoSdk "\<lambda>i. int i"] by auto
qed

section \<open>Trustlines\<close>

record trustline_data =
  td_AccountID :: string
  td_AssetCode :: string
  td_AssetIssuer :: string
  td_AssetType :: string
  td_Balance :: string
  td_TrustLimit :: string
  td_BuyingLiabilities :: string
  td_SellingLiabilities :: string
  td_Authorized :: bool
  td_AuthorizedToMaintainLiabilities :: bool
  td_ClawbackEnabled :: bool
  td_LedgerSequence :: u32
  td_CreatedAt :: gotime
  td_LedgerRange :: u32
  td_EraID :: "string option"

text \<open>Code, issuer and type; an arm the switch does not name leaves all three empty.\<close>

fun trustlineAsset :: "sdk \<Rightarrow> tl_asset \<Rightarrow> string \<times> string \<times> string" where
  "trustlineAsset E (Tl4 code issuer) =
     (trimRightNul (bytesString code), accountAddress E issuer, ''credit_alphanum4'')"
| "trustlineAsset E (Tl12 code issuer) =
     (trimRightNul (bytesString code), accountAddress E issuer, ''credit_alphanum12'')"
| "trustlineAsset E (TlPoolShare p) = (''POOL_SHARE'', ''pool'', ''liquidity_pool_shares'')"
| "trustlineAsset E TlNative = ([], [], [])"
| "trustlineAsset E (TlOther n) = ([], [], [])"

definition extractTrustlineData :: "sdk \<Rightarrow> gotime \<Rightarrow> ledger_input \<Rightarrow> trustline_entry \<Rightarrow> trustline_data" where
  "extractTrustlineData E now input e =
     (case trustlineAsset E (tl_Asset e) of (code, issuer, ty) \<Rightarrow>
     \<lparr>td_AccountID = accountAddress E (tl_AccountId e), td_AssetCode = code, td_AssetIssuer = issuer,
      td_AssetType = ty, td_Balance = amountString E (tl_Balance e),
      td_TrustLimit = amountString E (tl_Limit e),
      td_BuyingLiabilities = (case tl_Liabilities e of Some (b, s) \<Rightarrow> amountString E b | None \<Rightarrow> ''0''),
      td_SellingLiabilities = (case tl_Liabilities e of Some (b, s) \<Rightarrow> amountString E s | None \<Rightarrow> ''0''),
      td_Authorized = (tl_Flags e AND 1 \<noteq> 0),
      td_AuthorizedToMaintainLiabilities = (tl_Flags e AND 2 \<noteq> 0),
      td_ClawbackEnabled = (tl_Flags e AND 4 \<noteq> 0),
      td_LedgerSequence = in_Sequence input, td_CreatedAt = now,
      td_LedgerRange = in_LedgerRange input, td_EraID = in_EraID input\<rparr>)"

definition trustlineKey :: "trustline_data \<Rightarrow> string" where
  "trustlineKey r = td_AccountID r @ '':'' @ td_AssetCode r @ '':'' @ td_AssetIssuer r"

definition postTrustline :: "change \<Rightarrow> trustline_entry option" where
  "postTrustline ch = (case ch_Post ch of
     Some le \<Rightarrow> (case le_Data le of DTrustline t \<Rightarrow> Some t | _ \<Rightarrow> None)
   | None \<Rightarrow> None)"

definition trustlineStep :: "sdk \<Rightarrow> (nat \<Rightarrow> gotime) \<Rightarrow> ledger_input \<Rightarrow> nat \<times> change \<Rightarrow> (string \<times> trustline_data) list res" where
  "trustlineStep E now input ic = (case ic of (i, ch) \<Rightarrow>
     if ch_Type ch \<noteq> ETrustline then Ok []
     else case postTrustline ch of
       None \<Rightarrow> Ok []
     | Some t \<Rightarrow> let row = extractTrustlineData E (now i) input t in Ok [(trustlineKey row, row)])"

definition extractTrustlines :: "sdk \<Rightarrow> (nat \<Rightarrow> gotime) \<Rightarrow> ledger_input \<Rightarrow> trustline_data list res" where
  "extractTrustlines E now input = (case in_Changes input of
     Err e \<Rightarrow> Ok [] | Panic \<Rightarrow> Panic
   | Ok changes \<Rightarrow> collectRows (trustlineStep E now input) (enumerate 0 changes))"

definition trustlineEntry :: "change \<Rightarrow> trustline_entry option" where
  "trustlineEntry ch = (if ch_Type ch = ETrustline then postTrustline ch else None)"

text \<open>The key as a function of the entry: account, code and issuer.\<close>

definition entryTrustlineKey :: "sdk \<Rightarrow> trustline_entry \<Rightarrow> string" where
  "entryTrustlineKey E e = (case trustlineAsset E (tl_Asset e) of (code, issuer, ty) \<Rightarrow>
     accountAddress E (tl_AccountId e) @ '':'' @ code @ '':'' @ issuer)"

lemma trustlineKey_row: "trustlineKey (extractTrustlineData E now input e) = entryTrustlineKey E e"
  by (simp add: extractTrustlineData_def trustlineKey_def entryTrustlineKey_def split: prod.split)

interpretation trustlines: snapshot "trustlineStep E now input" "\<lambda>ch. True" trustlineEntry
  "entryTrustlineKey E" "\<lambda>i. extractTrustlineData E (now i) input" trustlineKey for E now input
  by unfold_locales (auto simp: trustlineStep_def trustlineEntry_def trustlineKey_row Let_def split: option.splits)

text \<open>
  The trustlines table has one row per account, code and issuer, by ascending key, that of the last change
  with that key.
\<close>

lemma extractTrustlines_snapshot:
  assumes "in_Changes input = Ok changes"
  shows "\<exists>rows. extractTrustlines E now input = Ok rows
    \<and> map trustlineKey rows = sorted_list_of_set (entryTrustlineKey E ` set (List.map_filter trustlineEntry changes))
    \<and> (\<forall>r \<in> set rows. \<exists>i e. i < length changes \<and> trustlineEntry (changes ! i) = Some e
         \<and> r = extractTrustlineData E (now i) input e
         \<and> (\<forall>j e'. i < j \<and> j < length changes \<and> trustlineEntry (changes ! j) = Some e' \<longrightarrow>
              entryTrustlineKey E e' \<noteq> entryTrustlineKey E e))"
  using trustlines.rows [of changes E now input] assms by (simp add: extractTrustlines_def)

text \<open>
  Every pool-share trustline of an account has the same key, whatever its pool: when a ledger changes
  the pool-share trustlines of one account, a single row is left of them, the last one's.
\<close>

theorem pool_share_trustlines_collapse:
  assumes "in_Changes input = Ok changes" "List.map_filter trustlineEntry changes \<noteq> []"
    and "\<forall>e \<in> set (List.map_filter trustlineEntry changes). tl_AccountId e = a \<and> (\<exists>p. tl_Asset e = TlPoolShare p)"
  shows "\<exists>r i. extractTrustlines E now input = Ok [r]
    \<and> r = extractTrustlineData E (now i) input (last (List.map_filter trustlineEntry changes))"
proof -
  let ?es = "List.map_filter trustlineEntry changes"
  have K: "entryTrustlineKey E e = accountAddress E a @ '':POOL_SHARE:pool''" if "e \<in> set ?es" for e
    using assms(3) that by (auto simp: entryTrustlineKey_def)
  have one: "entryTrustlineKey E ` set ?es = {accountAddress E a @ '':POOL_SHARE:pool''}"
    using K hd_in_set [OF assms(2)] by (auto simp: image_iff)
  obtain rows where rows: "extractTrustlines E now input = Ok rows"
      "map trustlineKey rows = [accountAddress E a @ '':POOL_SHARE:pool'']"
    and from_change: "\<forall>r \<in> set rows. \<exists>i e. i < length changes \<and> trustlineEntry (changes ! i) = Some e
         \<and> r = extractTrustlineData E (now i) input e
         \<and> (\<forall>j e'. i < j \<and> j < length changes \<and> trustlineEntry (changes ! j) = Some e' \<longrightarrow>
              entryTrustlineKey E e' \<noteq> entryTrustlineKey E e)"
    using extractTrustlines_snapshot [OF assms(1), of E now] one by auto
  then obtain r where r: "rows = [r]" by (cases rows) auto
  with from_change obtain i e where i: "i < length changes" "trustlineEntry (changes ! i) = Some e"
    "r = extractTrustlineData E (now i) input e"
    and later: "\<And>j e'. i < j \<Longrightarrow> j < length changes \<Longrightarrow> trustlineEntry (changes ! j) = Some e' \<Longrightarrow>
      entryTrustlineKey E e' \<noteq> entryTrustlineKey E e" by auto
  have mem: "e' \<in> set ?es" if "j < length changes" "trustlineEntry (changes ! j) = Some e'" for j e'
    using that by (force simp: map_filter_def)
  have "trustlineEntry (changes ! j) = None" if "i < j" "j < length changes" for j
    using later [OF that] mem [OF that(2)] mem [OF i(1,2)] K
    by (cases "trustlineEntry (changes ! j)") auto
  then have "last ?es = e" using i(1,2) by (intro last_map_filter) auto
  with rows(1) r i(3) show ?thesis by auto
qed

definition demoPoolTrustline :: "byte \<Rightarrow> i64 \<Rightarrow> change" where
  "demoPoolTrustline pool balance = \<lparr>ch_Type = ETrustline, ch_ChangeType = ChUpdated, ch_Pre = None,
     ch_Post = Some \<lparr>le_LastModified = 1, le_Data = DTrustline \<lparr>tl_AccountId = [1],
       tl_Asset = TlPoolShare (Some [pool]), tl_Balance = balance, tl_Limit = 100, tl_Flags = 1,
       tl_Liabilities = None\<rparr>, le_Sponsor = None\<rparr>\<rparr>"

theorem pool_share_trustlines_collapse_witness:
  "\<exists>r. extractTrustlines demoSdk (\<lambda>i. int i) (demoChanges [demoPoolTrustline 10 5, demoPoolTrustline 11 6]) = Ok [r]
    \<and> td_Balance r = ''6''"
proof -
  let ?chs = "[demoPoolTrustline 10 5, demoPoolTrustline 11 6]"
  have six: "sdec (6 :: i64) = ''6''" by code_simp
  have e: "trustlineEntry (demoPoolTrustline p b) = Some \<lparr>tl_AccountId = [1],
       tl_Asset = TlPoolShare (Some [p]), tl_Balance = b, tl_Limit = 100, tl_Flags = 1, tl_Liabilities = None\<rparr>" for p b
    by (simp add: demoPoolTrustline_def trustlineEntry_def postTrustline_def)
  then show ?thesis
    using pool_share_trustlines_collapse [of "demoChanges ?chs" ?chs "[1]" demoSdk "\<lambda>i. int i"]
    by (auto simp: extractTrustlineData_def demoSdk_def six)
qed

text \<open>
  Apart from pool shares, a key names its account address, asset code and issuer address: two rows
  share one exactly when they agree on all three.
\<close>

theorem trustlineKey_injective:
  assumes "\<forall>c \<in> set (td_AccountID r) \<union> set (td_AccountID r') \<union> set (td_AssetIssuer r) \<union> set (td_AssetIssuer r').
      base32Char c"
  shows "trustlineKey r = trustlineKey r' \<longleftrightarrow> td_AccountID r = td_AccountID r'
    \<and> td_AssetCode r = td_AssetCode r' \<and> td_AssetIssuer r = td_AssetIssuer r'"
proof
  have no: "\<not> base32Char (CHR '':'')" by (simp add: base32Char_def isDigit_def)
  assume "trustlineKey r = trustlineKey r'"
  then have "td_AccountID r @ CHR '':'' # (td_AssetCode r @ CHR '':'' # td_AssetIssuer r)
      = td_AccountID r' @ CHR '':'' # (td_AssetCode r' @ CHR '':'' # td_AssetIssuer r')"
    by (simp add: trustlineKey_def)
  then have "td_AccountID r = td_AccountID r'
      \<and> td_AssetCode r @ CHR '':'' # td_AssetIssuer r = td_AssetCode r' @ CHR '':'' # td_AssetIssuer r'"
    by (intro append_sep_inj) (use assms no in auto)
  moreover from this have "td_AssetCode r = td_AssetCode r' \<and> td_AssetIssuer r = td_AssetIssuer r'"
    by (intro append_last_sep_inj [of "CHR '':''"]) (use assms no in auto)
  ultimately show "td_AccountID r = td_AccountID r'
    \<and> td_AssetCode r = td_AssetCode r' \<and> td_AssetIssuer r = td_AssetIssuer r'" by simp
qed (simp add: trustlineKey_def)

theorem trustlineKey_injective_witness:
  "trustlineKey (extractTrustlineData demoSdk 0 (demoChanges []) \<lparr>tl_AccountId = [1],
       tl_Asset = Tl4 [65, 58, 66, 0] [2], tl_Balance = 0, tl_Limit = 0, tl_Flags = 0, tl_Liabilities = None\<rparr>)
   \<noteq> trustlineKey (extractTrustlineData demoSdk 0 (demoChanges []) \<lparr>tl_AccountId = [1],
       tl_Asset = Tl4 [65, 0, 0, 0] [2], tl_Balance = 0, tl_Limit = 0, tl_Flags = 0, tl_Liabilities = None\<rparr>)"
  (is "trustlineKey ?r \<noteq> trustlineKey ?r'")
proof -
  have a: "td_AccountID ?r = ''GAB''" "td_AccountID ?r' = ''GAB''" "td_AssetIssuer ?r = ''GAC''"
    "td_AssetIssuer ?r' = ''GAC''" "td_AssetCode ?r = ''A:B''" "td_AssetCode ?r' = ''A''" by code_simp+
  then have "\<forall>c \<in> set (td_AccountID ?r) \<union> set (td_AccountID ?r') \<union> set (td_AssetIssuer ?r) \<union> set (td_AssetIssuer ?r').
      base32Char c" by (simp add: base32Char_def isDigit_def)
  from trustlineKey_injective [OF this] a show ?thesis by simp
qed

section \<open>Account signers\<close>

record account_signer_data =
  sd_AccountID :: string
  sd_Signer :: string
  sd_LedgerSequence :: u32
  sd_Weight :: u32
  sd_Sponsor :: string
  sd_Deleted :: bool
  sd_ClosedAt :: gotime
  sd_LedgerRange :: u32
  sd_CreatedAt :: gotime
  sd_EraID :: "string option"

text \<open>\<open>MustAccount()\<close> panics on an entry of another type.\<close>

definition mustAccount :: "ledger_entry \<Rightarrow> account_entry res" where
  "mustAccount le = (case le_Data le of DAccount ae \<Rightarrow> Ok ae | _ \<Rightarrow> Panic)"

text \<open>The account whose signers a change shows, and whether the change deletes it.\<close>

definition signerAccount :: "change \<Rightarrow> (account_entry \<times> bool) option res" where
  "signerAccount ch = (if ch_Type ch \<noteq> EAccount then Ok None
     else case ch_Post ch of
       Some le \<Rightarrow> mapR (\<lambda>ae. Some (ae, False)) (mustAccount le)
     | None \<Rightarrow> (case ch_Pre ch of
         Some le \<Rightarrow> mapR (\<lambda>ae. Some (ae, True)) (mustAccount le)
       | None \<Rightarrow> Ok None))"

definition signerSponsor :: "sdk \<Rightarrow> account_entry \<Rightarrow> nat \<Rightarrow> string" where
  "signerSponsor E ae i = (let ids = (case extV2 ae of Some v2 \<Rightarrow> x2_SignerSponsoringIDs v2 | None \<Rightarrow> []) in
     if i < length ids then (case ids ! i of Some a \<Rightarrow> accountAddress E a | None \<Rightarrow> []) else [])"

definition signerRow ::
    "sdk \<Rightarrow> gotime \<Rightarrow> ledger_input \<Rightarrow> account_entry \<Rightarrow> bool \<Rightarrow> nat \<Rightarrow> signer_key \<times> u32 \<Rightarrow> account_signer_data" where
  "signerRow E now input ae deleted i s =
     \<lparr>sd_AccountID = accountAddress E (ac_AccountId ae), sd_Signer = signerKeyAddress E (fst s),
      sd_LedgerSequence = in_Sequence input, sd_Weight = snd s, sd_Sponsor = signerSponsor E ae i,
      sd_Deleted = deleted, sd_ClosedAt = in_ClosedAt input, sd_LedgerRange = in_LedgerRange input,
      sd_CreatedAt = now, sd_EraID = in_EraID input\<rparr>"

definition signerDedupeKey :: "account_signer_data \<Rightarrow> string" where
  "signerDedupeKey r = sd_AccountID r @ '':'' @ sd_Signer r"

text \<open>The clock is read once per signer: \<open>now i j\<close> for signer \<open>j\<close> of change \<open>i\<close>.\<close>

definition signerRows ::
    "sdk \<Rightarrow> (nat \<Rightarrow> gotime) \<Rightarrow> ledger_input \<Rightarrow> account_entry \<Rightarrow> bool \<Rightarrow> account_signer_data list" where
  "signerRows E now input ae deleted =
     map (\<lambda>(j, s). signerRow E (now j) input ae deleted j s) (enumerate 0 (ac_Signers ae))"

definition signerStep ::
    "sdk \<Rightarrow> (nat \<Rightarrow> nat \<Rightarrow> gotime) \<Rightarrow> ledger_input \<Rightarrow> nat \<times> change \<Rightarrow> (string \<times> account_signer_data) list res" where
  "signerStep E now input ic = (case ic of (i, ch) \<Rightarrow>
     mapR (\<lambda>a. case a of None \<Rightarrow> []
       | Some (ae, deleted) \<Rightarrow> map (\<lambda>r. (signerDedupeKey r, r)) (signerRows E (now i) input ae deleted))
       (signerAccount ch))"

definition extractAccountSigners ::
    "sdk \<Rightarrow> (nat \<Rightarrow> nat \<Rightarrow> gotime) \<Rightarrow> ledger_input \<Rightarrow> account_signer_data list res" where
  "extractAccountSigners E now input = (case in_Changes input of
     Err e \<Rightarrow> Ok [] | Panic \<Rightarrow> Panic
   | Ok changes \<Rightarrow> collectRows (signerStep E now input) (enumerate 0 changes))"

text \<open>The rows a change writes, and those of a ledger in order: the loop without the dedup map.\<close>

definition changeSigners :: "sdk \<Rightarrow> (nat \<Rightarrow> nat \<Rightarrow> gotime) \<Rightarrow> ledger_input \<Rightarrow> nat \<times> change \<Rightarrow> account_signer_data list" where
  "changeSigners E now input ic = (case okOpt (signerAccount (snd ic)) of
     Some (Some (ae, deleted)) \<Rightarrow> signerRows E (now (fst ic)) input ae deleted | _ \<Rightarrow> [])"

definition signerWrites :: "sdk \<Rightarrow> (nat \<Rightarrow> nat \<Rightarrow> gotime) \<Rightarrow> ledger_input \<Rightarrow> change list \<Rightarrow> account_signer_data list" where
  "signerWrites E now input changes = concat (map (changeSigners E now input) (enumerate 0 changes))"

lemma signerAccount_not_Err: "signerAccount ch \<noteq> Err e"
  by (auto simp: signerAccount_def mustAccount_def split: option.splits entry_data.splits)

interpretation signers: keyed_writes "signerStep E now input" "\<lambda>ic. signerAccount (snd ic) \<noteq> Panic"
  "changeSigners E now input" signerDedupeKey for E now input
proof
  fix ic :: "nat \<times> change" assume "signerAccount (snd ic) \<noteq> Panic"
  then obtain a where "signerAccount (snd ic) = Ok a"
    using signerAccount_not_Err by (cases "signerAccount (snd ic)") auto
  then show "signerStep E now input ic
      = Ok (map (\<lambda>r. (signerDedupeKey r, r)) (changeSigners E now input ic))"
    by (cases ic) (auto simp: signerStep_def changeSigners_def split: option.splits)
qed

lemma signers_good:
  "\<forall>ch \<in> set changes. signerAccount ch \<noteq> Panic \<Longrightarrow> \<forall>ic \<in> set (enumerate 0 changes). signerAccount (snd ic) \<noteq> Panic"
  by (auto simp: in_set_enumerate_eq)

text \<open>
  C17: when no account change carries an entry of another type, the signers table has one row per account and
  signer that any change of the ledger shows, by ascending key, and each row is the last one written for its
  key.
\<close>

theorem extractAccountSigners_last_write:
  assumes "in_Changes input = Ok changes" "\<forall>ch \<in> set changes. signerAccount ch \<noteq> Panic"
  shows "\<exists>rows. extractAccountSigners E now input = Ok rows
    \<and> map signerDedupeKey rows = sorted_list_of_set (signerDedupeKey ` set (signerWrites E now input changes))
    \<and> (\<forall>r \<in> set rows. \<exists>us vs. signerWrites E now input changes = us @ r # vs
         \<and> (\<forall>r' \<in> set vs. signerDedupeKey r' \<noteq> signerDedupeKey r))"
  using signers.last_writes [OF signers_good [OF assms(2)], of E now input] assms(1)
  by (simp add: extractAccountSigners_def signerWrites_def)

lemma signerWrites_iff:
  "r \<in> set (signerWrites E now input changes) \<longleftrightarrow> (\<exists>i ae d. i < length changes
     \<and> signerAccount (changes ! i) = Ok (Some (ae, d)) \<and> r \<in> set (signerRows E (now i) input ae d))"
proof -
  have f: "r \<in> set (changeSigners E now input (i, ch))
      \<longleftrightarrow> (\<exists>ae d. signerAccount ch = Ok (Some (ae, d)) \<and> r \<in> set (signerRows E (now i) input ae d))"
    for i ch by (cases "signerAccount ch") (auto simp: changeSigners_def split: option.splits)
  have "r \<in> set (signerWrites E now input changes)
      \<longleftrightarrow> (\<exists>i. i < length changes \<and> r \<in> set (changeSigners E now input (i, changes ! i)))"
    by (auto simp: signerWrites_def in_set_enumerate_eq)
  then show ?thesis unfolding f by blast
qed

text \<open>The keys of the signers an account entry has, and what a change of an account shows.\<close>

definition signerKeys :: "sdk \<Rightarrow> account_entry \<Rightarrow> string set" where
  "signerKeys E ae = (\<lambda>(k, w). accountAddress E (ac_AccountId ae) @ '':'' @ signerKeyAddress E k) ` set (ac_Signers ae)"

definition showsSigner :: "sdk \<Rightarrow> string \<Rightarrow> change \<Rightarrow> bool" where
  "showsSigner E key ch \<longleftrightarrow> ch_Type ch = EAccount \<and> (\<exists>le ae. (case ch_Post ch of Some post \<Rightarrow> Some post | None \<Rightarrow> ch_Pre ch) = Some le
     \<and> le_Data le = DAccount ae \<and> key \<in> signerKeys E ae)"

lemma showsSigner_account:
  "showsSigner E key ch \<longleftrightarrow> (\<exists>ae d. signerAccount ch = Ok (Some (ae, d)) \<and> key \<in> signerKeys E ae)"
  by (auto simp: showsSigner_def signerAccount_def mustAccount_def mapR_Ok_iff split: option.splits entry_data.splits)

text \<open>A change that drops the signer of a key from a living account, and one that removes an account with it.\<close>

definition dropsSigner :: "sdk \<Rightarrow> string \<Rightarrow> change \<Rightarrow> bool" where
  "dropsSigner E key ch \<longleftrightarrow> ch_Type ch = EAccount \<and> (\<exists>pre post ae ae'. ch_Pre ch = Some pre \<and> le_Data pre = DAccount ae
     \<and> ch_Post ch = Some post \<and> le_Data post = DAccount ae' \<and> ac_AccountId ae' = ac_AccountId ae
     \<and> key \<in> signerKeys E ae \<and> key \<notin> signerKeys E ae')"

definition removesAccountOf :: "sdk \<Rightarrow> string \<Rightarrow> change \<Rightarrow> bool" where
  "removesAccountOf E key ch \<longleftrightarrow> ch_Type ch = EAccount \<and> ch_Post ch = None
     \<and> (\<exists>pre ae. ch_Pre ch = Some pre \<and> le_Data pre = DAccount ae \<and> key \<in> signerKeys E ae)"

lemma signerRows_keys: "signerDedupeKey ` set (signerRows E now input ae d) = signerKeys E ae"
proof -
  have sd: "signerDedupeKey (signerRow E t input ae d j s)
      = accountAddress E (ac_AccountId ae) @ '':'' @ signerKeyAddress E (fst s)" for t j s
    by (simp add: signerDedupeKey_def signerRow_def)
  have "signerDedupeKey ` set (signerRows E now input ae d)
      = (\<lambda>s. accountAddress E (ac_AccountId ae) @ '':'' @ signerKeyAddress E (fst s)) ` snd ` set (enumerate 0 (ac_Signers ae))"
    by (simp add: signerRows_def image_image case_prod_unfold sd)
  also have "snd ` set (enumerate 0 (ac_Signers ae)) = set (ac_Signers ae)"
    unfolding set_map [symmetric] by simp
  finally show ?thesis by (simp add: signerKeys_def case_prod_unfold)
qed

lemma signerRows_deleted: "r \<in> set (signerRows E now input ae d) \<Longrightarrow> sd_Deleted r = d"
  by (auto simp: signerRows_def signerRow_def)

lemma signerWrites_shown:
  "key \<in> signerDedupeKey ` set (signerWrites E now input changes) \<longleftrightarrow> (\<exists>ch \<in> set changes. showsSigner E key ch)"
proof -
  have "key \<in> signerDedupeKey ` set (signerWrites E now input changes) \<longleftrightarrow> (\<exists>i ae d. i < length changes
      \<and> signerAccount (changes ! i) = Ok (Some (ae, d)) \<and> key \<in> signerDedupeKey ` set (signerRows E (now i) input ae d))"
    unfolding image_iff Bex_def signerWrites_iff by blast
  then show ?thesis unfolding signerRows_keys showsSigner_account Bex_def in_set_conv_nth by blast
qed

lemma signerAccount_deleted:
  assumes "signerAccount ch = Ok (Some (ae, True))"
  shows "ch_Type ch = EAccount \<and> ch_Post ch = None \<and> (\<exists>pre. ch_Pre ch = Some pre \<and> le_Data pre = DAccount ae)"
  using assms by (auto simp: signerAccount_def mustAccount_def mapR_Ok_iff split: if_splits option.splits entry_data.splits)

lemma signerWrites_live:
  assumes "\<forall>ch \<in> set changes. \<not> removesAccountOf E (signerDedupeKey r) ch" "r \<in> set (signerWrites E now input changes)"
  shows "\<not> sd_Deleted r"
proof
  assume del: "sd_Deleted r"
  from assms(2) obtain i ae d where i: "i < length changes"
    "signerAccount (changes ! i) = Ok (Some (ae, d))" "r \<in> set (signerRows E (now i) input ae d)"
    unfolding signerWrites_iff by blast
  with del have "signerAccount (changes ! i) = Ok (Some (ae, True))" using signerRows_deleted by fastforce
  moreover have "signerDedupeKey r \<in> signerKeys E ae"
    using i(3) signerRows_keys [of E "now i" input ae d, symmetric] by blast
  ultimately have "removesAccountOf E (signerDedupeKey r) (changes ! i)"
    using signerAccount_deleted unfolding removesAccountOf_def by blast
  with assms(1) i(1) show False by simp
qed

lemma dropsSigner_hides: "dropsSigner E key ch \<Longrightarrow> \<not> showsSigner E key ch"
  by (auto simp: dropsSigner_def showsSigner_account signerAccount_def mustAccount_def)

text \<open>
  C32: the deleted flag follows the account, not the signer.  When a change drops a signer from an account the ledger
  does not remove, and no later change shows the signer again, no row says that the signer is deleted: it stays
  listed as not deleted when an earlier change of the ledger shows it, and has no row at all otherwise.  A row is
  deleted only when a change of the ledger removes the account with the signer.
\<close>

theorem dropped_signer_never_deleted:
  assumes "in_Changes input = Ok (before @ ch # after)" "\<forall>c \<in> set (before @ ch # after). signerAccount c \<noteq> Panic"
    and "dropsSigner E key ch" "\<forall>c \<in> set after. \<not> showsSigner E key c"
    and "\<forall>c \<in> set (before @ ch # after). \<not> removesAccountOf E key c"
  shows "\<exists>rows. extractAccountSigners E now input = Ok rows
    \<and> (\<forall>r \<in> set rows. signerDedupeKey r = key \<longrightarrow> \<not> sd_Deleted r)
    \<and> ((\<exists>r \<in> set rows. signerDedupeKey r = key) \<longleftrightarrow> (\<exists>c \<in> set before. showsSigner E key c))
    \<and> (\<forall>r \<in> set rows. sd_Deleted r \<longrightarrow> (\<exists>c \<in> set (before @ ch # after). removesAccountOf E (signerDedupeKey r) c))"
proof -
  let ?changes = "before @ ch # after"
  note good = signers_good [OF assms(2)]
  obtain rows where rows: "collectRows (signerStep E now input) (enumerate 0 ?changes) = Ok rows"
    using signers.last_writes [OF good] by blast
  from signers.rows_written [OF good rows]
  have sub: "set rows \<subseteq> set (signerWrites E now input ?changes)"
    and keys: "signerDedupeKey ` set rows = signerDedupeKey ` set (signerWrites E now input ?changes)"
    by (simp_all add: signerWrites_def)
  have live: "\<not> sd_Deleted r" if "r \<in> set rows" "signerDedupeKey r = key" for r
    using signerWrites_live [of ?changes E r now input] assms(5) that sub by blast
  have "(\<exists>r \<in> set rows. signerDedupeKey r = key) \<longleftrightarrow> (\<exists>c \<in> set ?changes. showsSigner E key c)"
    using signerWrites_shown [of key E now input ?changes] unfolding keys [symmetric] by blast
  also have "\<dots> \<longleftrightarrow> (\<exists>c \<in> set before. showsSigner E key c)"
    using dropsSigner_hides [OF assms(3)] assms(4) by auto
  finally have shown: "(\<exists>r \<in> set rows. signerDedupeKey r = key) \<longleftrightarrow> (\<exists>c \<in> set before. showsSigner E key c)" .
  have "\<exists>c \<in> set ?changes. removesAccountOf E (signerDedupeKey r) c" if "r \<in> set rows" "sd_Deleted r" for r
    using signerWrites_live [of ?changes E r now input] that sub by blast
  then have "\<forall>r \<in> set rows. sd_Deleted r \<longrightarrow> (\<exists>c \<in> set ?changes. removesAccountOf E (signerDedupeKey r) c)" by blast
  with shown rows live show ?thesis unfolding extractAccountSigners_def assms(1) by (intro exI [of _ rows]) simp
qed

definition demoSigners :: "(signer_key \<times> u32) list \<Rightarrow> change" where
  "demoSigners signers = \<lparr>ch_Type = EAccount, ch_ChangeType = ChUpdated, ch_Pre = None,
     ch_Post = Some (demoAccountEntry 1 5 signers)\<rparr>"

lemma demoSigners_account:
  "\<exists>ae. signerAccount (demoSigners ss) = Ok (Some (ae, False)) \<and> ac_Signers ae = ss \<and> ac_AccountId ae = [1]
    \<and> (\<forall>ae'. signerAccount (demoSigners ss) \<noteq> Ok (Some (ae', True))) \<and> signerAccount (demoSigners ss) \<noteq> Panic"
  by (simp add: demoSigners_def demoAccountEntry_def signerAccount_def mustAccount_def)

lemma demoSigners_noPanic: "signerAccount (demoSigners ss) \<noteq> Panic"
  using demoSigners_account by blast

theorem extractAccountSigners_last_write_witness:
  "\<exists>rows. extractAccountSigners demoSdk (\<lambda>i j. int i)
      (demoChanges [demoSigners [(SkEd25519 [2], 1)], demoSigners [(SkEd25519 [2], 3)]]) = Ok rows
    \<and> map signerDedupeKey rows = [''GAB:SIGNER''] \<and> map sd_Weight rows = [3]"
proof -
  let ?chs = "[demoSigners [(SkEd25519 [2], 1)], demoSigners [(SkEd25519 [2], 3)]]"
  let ?in = "demoChanges ?chs"
  have w: "map (\<lambda>r. (signerDedupeKey r, sd_Weight r)) (signerWrites demoSdk (\<lambda>i j. int i) ?in ?chs)
      = [(''GAB:SIGNER'', 1), (''GAB:SIGNER'', 3)]" by code_simp
  then obtain r1 r2 where ws: "signerWrites demoSdk (\<lambda>i j. int i) ?in ?chs = [r1, r2]"
    "signerDedupeKey r1 = ''GAB:SIGNER''" "signerDedupeKey r2 = ''GAB:SIGNER''" "sd_Weight r2 = 3"
    by (cases "signerWrites demoSdk (\<lambda>i j. int i) ?in ?chs" rule: list.exhaust)
      (auto simp: map_eq_Cons_conv)
  obtain rows where rows: "extractAccountSigners demoSdk (\<lambda>i j. int i) ?in = Ok rows"
    "map signerDedupeKey rows = [''GAB:SIGNER'']"
    "\<forall>r \<in> set rows. \<exists>us vs. [r1, r2] = us @ r # vs \<and> (\<forall>r' \<in> set vs. signerDedupeKey r' \<noteq> signerDedupeKey r)"
  proof -
    have "\<forall>ch \<in> set ?chs. signerAccount ch \<noteq> Panic" using demoSigners_noPanic by simp
    from extractAccountSigners_last_write [of ?in ?chs demoSdk "\<lambda>i j. int i", OF demoChanges_simps(1) this]
    show ?thesis using that unfolding ws(1) by (auto simp: ws(2,3))
  qed
  then obtain r where r: "rows = [r]" by (auto simp: map_eq_Cons_conv)
  with rows(3) ws have "r = r2" by (auto simp: Cons_eq_append_conv)
  with rows r ws(4) show ?thesis by auto
qed

definition demoDrop :: change where
  "demoDrop = (demoSigners [])\<lparr>ch_Pre := Some (demoAccountEntry 1 5 [(SkEd25519 [2], 1)])\<rparr>"

theorem dropped_signer_never_deleted_witness:
  "(\<exists>rows. extractAccountSigners demoSdk (\<lambda>i j. int i) (demoChanges [demoSigners [(SkEd25519 [2], 1)], demoDrop]) = Ok rows
      \<and> (\<exists>r \<in> set rows. signerDedupeKey r = ''GAB:SIGNER'' \<and> \<not> sd_Deleted r))
    \<and> (\<exists>rows. extractAccountSigners demoSdk (\<lambda>i j. int i) (demoChanges [demoDrop]) = Ok rows
      \<and> (\<forall>r \<in> set rows. signerDedupeKey r \<noteq> ''GAB:SIGNER''))"
proof -
  have keys: "signerKeys demoSdk \<lparr>ac_AccountId = [1], ac_Balance = 5, ac_SeqNum = s, ac_NumSubEntries = n, ac_HomeDomain = h,
      ac_Thresholds = t, ac_Flags = f, ac_Signers = [(SkEd25519 [2], 1)], ac_Ext = e, ac_SeqLedger = l, ac_SeqTime = m\<rparr>
      = {''GAB:SIGNER''}" for s n h t f e l m
    by (simp add: signerKeys_def) code_simp
  have drop: "dropsSigner demoSdk ''GAB:SIGNER'' demoDrop"
    by (simp add: dropsSigner_def demoDrop_def demoSigners_def demoAccountEntry_def keys) (simp add: signerKeys_def)
  have shown: "showsSigner demoSdk ''GAB:SIGNER'' (demoSigners [(SkEd25519 [2], 1)])"
    by (simp add: showsSigner_def demoSigners_def demoAccountEntry_def keys)
  have live: "\<not> removesAccountOf demoSdk k demoDrop" "\<not> removesAccountOf demoSdk k (demoSigners ss)"
    "signerAccount demoDrop \<noteq> Panic" for k ss
    by (simp_all add: removesAccountOf_def demoDrop_def demoSigners_def demoAccountEntry_def signerAccount_def mustAccount_def)
  show ?thesis
    using dropped_signer_never_deleted [of "demoChanges [demoSigners [(SkEd25519 [2], 1)], demoDrop]"
        "[demoSigners [(SkEd25519 [2], 1)]]" demoDrop "[]" demoSdk "''GAB:SIGNER''" "\<lambda>i j. int i"]
      dropped_signer_never_deleted [of "demoChanges [demoDrop]" "[]" demoDrop "[]" demoSdk "''GAB:SIGNER''" "\<lambda>i j. int i"]
      drop shown live demoSigners_noPanic by auto
qed

section \<open>Native balances\<close>

record native_balance_data =
  nb_AccountID :: string
  nb_Balance :: i64
  nb_BuyingLiabilities :: i64
  nb_SellingLiabilities :: i64
  nb_NumSubentries :: i32
  nb_NumSponsoring :: i32
  nb_NumSponsored :: i32
  nb_SequenceNumber :: "i64 option"
  nb_LastModifiedLedger :: i64
  nb_LedgerSequence :: i64
  nb_LedgerRange :: i64
  nb_EraID :: "string option"

definition entryAccount :: "ledger_entry option \<Rightarrow> (account_entry \<times> u32) option" where
  "entryAccount oe = (case oe of
     Some le \<Rightarrow> (case le_Data le of DAccount ae \<Rightarrow> Some (ae, le_LastModified le) | _ \<Rightarrow> None)
   | None \<Rightarrow> None)"

text \<open>The new state of the account, or the old one when there is no new one.\<close>

definition balanceAccount :: "change \<Rightarrow> (account_entry \<times> u32) option" where
  "balanceAccount ch = (if ch_Type ch \<noteq> EAccount then None
     else case entryAccount (ch_Post ch) of Some a \<Rightarrow> Some a | None \<Rightarrow> entryAccount (ch_Pre ch))"

definition nativeBalanceData :: "sdk \<Rightarrow> ledger_input \<Rightarrow> account_entry \<times> u32 \<Rightarrow> native_balance_data" where
  "nativeBalanceData E input a = (case a of (ae, lastModified) \<Rightarrow>
     \<lparr>nb_AccountID = accountAddress E (ac_AccountId ae), nb_Balance = ac_Balance ae,
      nb_BuyingLiabilities = (case ac_Ext ae of Some x \<Rightarrow> x1_Buying x | None \<Rightarrow> 0),
      nb_SellingLiabilities = (case ac_Ext ae of Some x \<Rightarrow> x1_Selling x | None \<Rightarrow> 0),
      nb_NumSubentries = ac_NumSubEntries ae,
      nb_NumSponsoring = (case extV2 ae of Some x \<Rightarrow> x2_NumSponsoring x | None \<Rightarrow> 0),
      nb_NumSponsored = (case extV2 ae of Some x \<Rightarrow> x2_NumSponsored x | None \<Rightarrow> 0),
      nb_SequenceNumber = (if 0 <s ac_SeqNum ae then Some (ac_SeqNum ae) else None),
      nb_LastModifiedLedger = ucast lastModified, nb_LedgerSequence = ucast (in_Sequence input),
      nb_LedgerRange = ucast (in_LedgerRange input), nb_EraID = in_EraID input\<rparr>)"

definition nativeBalanceStep :: "sdk \<Rightarrow> ledger_input \<Rightarrow> nat \<times> change \<Rightarrow> (string \<times> native_balance_data) list res" where
  "nativeBalanceStep E input ic = Ok (case balanceAccount (snd ic) of
     None \<Rightarrow> []
   | Some a \<Rightarrow> [(accountAddress E (ac_AccountId (fst a)), nativeBalanceData E input a)])"

definition extractNativeBalances :: "sdk \<Rightarrow> ledger_input \<Rightarrow> native_balance_data list res" where
  "extractNativeBalances E input = (case in_Changes input of
     Err e \<Rightarrow> Ok [] | Panic \<Rightarrow> Panic
   | Ok changes \<Rightarrow> collectRows (nativeBalanceStep E input) (enumerate 0 changes))"

interpretation natives: snapshot "nativeBalanceStep E input" "\<lambda>ch. True" balanceAccount
  "\<lambda>a. accountAddress E (ac_AccountId (fst a))" "\<lambda>i. nativeBalanceData E input" nb_AccountID for E input
  by unfold_locales (auto simp: nativeBalanceStep_def nativeBalanceData_def split: option.splits)

text \<open>
  The native balances table has one row per account a change touches, by ascending address, that of the
  last change of the account; a change that removes the account still writes its old balance, so a row is
  also there for an account that no longer exists.
\<close>

theorem extractNativeBalances_snapshot:
  assumes "in_Changes input = Ok changes"
  shows "\<exists>rows. extractNativeBalances E input = Ok rows
    \<and> map nb_AccountID rows
        = sorted_list_of_set ((\<lambda>a. accountAddress E (ac_AccountId (fst a))) ` set (List.map_filter balanceAccount changes))
    \<and> (\<forall>r \<in> set rows. \<exists>i a. i < length changes \<and> balanceAccount (changes ! i) = Some a
         \<and> r = nativeBalanceData E input a
         \<and> (\<forall>j a'. i < j \<and> j < length changes \<and> balanceAccount (changes ! j) = Some a' \<longrightarrow>
              accountAddress E (ac_AccountId (fst a')) \<noteq> accountAddress E (ac_AccountId (fst a))))"
  using natives.rows [of changes E input] assms by (simp add: extractNativeBalances_def)

definition demoRemoved :: "byte \<Rightarrow> i64 \<Rightarrow> change" where
  "demoRemoved a balance = \<lparr>ch_Type = EAccount, ch_ChangeType = ChRemoved,
     ch_Pre = Some (demoAccountEntry a balance []), ch_Post = None\<rparr>"

theorem extractNativeBalances_snapshot_witness:
  "\<exists>r. extractNativeBalances demoSdk (demoChanges [demoAccount 2 5, demoRemoved 2 9]) = Ok [r]
    \<and> nb_AccountID r = ''GAC'' \<and> nb_Balance r = 9"
proof -
  let ?chs = "[demoAccount 2 5, demoRemoved 2 9]"
  obtain rows where rows: "extractNativeBalances demoSdk (demoChanges ?chs) = Ok rows"
    "map nb_AccountID rows = sorted_list_of_set ((\<lambda>a. accountAddress demoSdk (ac_AccountId (fst a)))
       ` set (List.map_filter balanceAccount ?chs))"
    using extractNativeBalances_snapshot [of "demoChanges ?chs" ?chs demoSdk] by auto
  have "sorted_list_of_set ((\<lambda>a. accountAddress demoSdk (ac_AccountId (fst a)))
       ` set (List.map_filter balanceAccount ?chs)) = [''GAC'']" by code_simp
  with rows(2) have ids: "map nb_AccountID rows = [''GAC'']" by simp
  have "mapR (map nb_Balance) (extractNativeBalances demoSdk (demoChanges ?chs)) = Ok [9]"
    by code_simp
  with rows(1) ids show ?thesis by (auto simp: map_eq_Cons_conv)
qed

end
