(* ===== verification/State.thy ===== *)
theory State
  imports Sdk Input
begin

text \<open>
  \<open>state.go\<close>: the network configuration settings, read from the ledger changes, and the time-to-live
  entries, read from the changes of each transaction.
\<close>

section \<open>Configuration settings\<close>

text \<open>The fields \<open>parseConfigSettingFields\<close> promotes; the ones of the other settings stay nil.\<close>

record config_fields =
  cf_LedgerMaxInstructions :: "i64 option"
  cf_TxMaxInstructions :: "i64 option"
  cf_FeeRatePerInstructionsIncrement :: "i64 option"
  cf_TxMemoryLimit :: "u32 option"
  cf_LedgerMaxReadLedgerEntries :: "u32 option"
  cf_LedgerMaxReadBytes :: "u32 option"
  cf_LedgerMaxWriteLedgerEntries :: "u32 option"
  cf_LedgerMaxWriteBytes :: "u32 option"
  cf_TxMaxReadLedgerEntries :: "u32 option"
  cf_TxMaxReadBytes :: "u32 option"
  cf_TxMaxWriteLedgerEntries :: "u32 option"
  cf_TxMaxWriteBytes :: "u32 option"
  cf_TxMaxFootprintEntries :: "u32 option"
  cf_ContractMaxSizeBytes :: "u32 option"

record config_setting_data =
  cs_ConfigSettingID :: i32
  cs_LedgerSequence :: u32
  cs_LastModifiedLedger :: i32
  cs_Deleted :: bool
  cs_ClosedAt :: gotime
  cs_Fields :: config_fields
  cs_ConfigSettingXDR :: string
  cs_CreatedAt :: gotime
  cs_LedgerRange :: u32
  cs_EraID :: "string option"

definition noConfigFields :: config_fields where
  "noConfigFields = \<lparr>cf_LedgerMaxInstructions = None, cf_TxMaxInstructions = None,
     cf_FeeRatePerInstructionsIncrement = None, cf_TxMemoryLimit = None,
     cf_LedgerMaxReadLedgerEntries = None, cf_LedgerMaxReadBytes = None,
     cf_LedgerMaxWriteLedgerEntries = None, cf_LedgerMaxWriteBytes = None,
     cf_TxMaxReadLedgerEntries = None, cf_TxMaxReadBytes = None,
     cf_TxMaxWriteLedgerEntries = None, cf_TxMaxWriteBytes = None,
     cf_TxMaxFootprintEntries = None, cf_ContractMaxSizeBytes = None\<rparr>"

fun parseConfigSettingFields :: "config_setting \<Rightarrow> config_fields \<Rightarrow> config_fields" where
  "parseConfigSettingFields (CfgContractMaxSizeBytes v) d = d\<lparr>cf_ContractMaxSizeBytes := Some v\<rparr>"
| "parseConfigSettingFields (CfgContractCompute ledgerMax txMax feeRate memory) d =
     d\<lparr>cf_LedgerMaxInstructions := Some ledgerMax, cf_TxMaxInstructions := Some txMax,
       cf_FeeRatePerInstructionsIncrement := Some feeRate, cf_TxMemoryLimit := Some memory\<rparr>"
| "parseConfigSettingFields (CfgContractLedgerCost v) d =
     d\<lparr>cf_LedgerMaxReadLedgerEntries := Some (lc_LedgerMaxDiskReadEntries v),
       cf_LedgerMaxReadBytes := Some (lc_LedgerMaxDiskReadBytes v),
       cf_LedgerMaxWriteLedgerEntries := Some (lc_LedgerMaxWriteLedgerEntries v),
       cf_LedgerMaxWriteBytes := Some (lc_LedgerMaxWriteBytes v),
       cf_TxMaxReadLedgerEntries := Some (lc_TxMaxDiskReadEntries v),
       cf_TxMaxReadBytes := Some (lc_TxMaxDiskReadBytes v),
       cf_TxMaxWriteLedgerEntries := Some (lc_TxMaxWriteLedgerEntries v),
       cf_TxMaxWriteBytes := Some (lc_TxMaxWriteBytes v)\<rparr>"
| "parseConfigSettingFields (CfgContractLedgerCostExt n) d = d\<lparr>cf_TxMaxFootprintEntries := Some n\<rparr>"
| "parseConfigSettingFields (CfgOther n) d = d"

text \<open>A failed marshalling gives the empty string.\<close>

definition encodeConfigSettingXDR :: "sdk \<Rightarrow> config_setting \<Rightarrow> string res" where
  "encodeConfigSettingXDR E cfg = (case marshalConfigSetting E cfg of
     Ok bs \<Rightarrow> Ok (base64Encode bs) | Err e \<Rightarrow> Ok [] | Panic \<Rightarrow> Panic)"

definition entryHasType :: "entry_type \<Rightarrow> ledger_entry option \<Rightarrow> bool" where
  "entryHasType t oe = (case oe of Some le \<Rightarrow> dataType (le_Data le) = t | None \<Rightarrow> False)"

definition isConfigSettingChange :: "change \<Rightarrow> bool" where
  "isConfigSettingChange ch \<longleftrightarrow> entryHasType EConfigSetting (ch_Pre ch) \<or> entryHasType EConfigSetting (ch_Post ch)"

text \<open>
  The entry a change is read from, and whether it is the old one: the new state, or the old one when there is
  no new one.
\<close>

definition readEntry :: "change \<Rightarrow> (ledger_entry \<times> bool) option" where
  "readEntry ch = (case ch_Post ch of Some le \<Rightarrow> Some (le, False)
   | None \<Rightarrow> (case ch_Pre ch of Some le \<Rightarrow> Some (le, True) | None \<Rightarrow> None))"

text \<open>
  When the entry read is of another type (only the other side of the change is a setting),
  \<open>GetConfigSetting\<close> gives the zero value, a setting whose arm is nil, and marshalling it dereferences
  the arm.
\<close>

definition configSettingData ::
    "sdk \<Rightarrow> gotime \<Rightarrow> ledger_input \<Rightarrow> config_setting \<Rightarrow> u32 \<Rightarrow> bool \<Rightarrow> config_setting_data res" where
  "configSettingData E now input cfg lastModified deleted = mapR (\<lambda>xdr.
     \<lparr>cs_ConfigSettingID = configSettingNum E cfg, cs_LedgerSequence = in_Sequence input,
      cs_LastModifiedLedger = lastModified, cs_Deleted = deleted, cs_ClosedAt = in_ClosedAt input,
      cs_Fields = parseConfigSettingFields cfg noConfigFields, cs_ConfigSettingXDR = xdr,
      cs_CreatedAt = now, cs_LedgerRange = in_LedgerRange input, cs_EraID = in_EraID input\<rparr>)
     (encodeConfigSettingXDR E cfg)"

definition configSettingStep ::
    "sdk \<Rightarrow> (nat \<Rightarrow> gotime) \<Rightarrow> ledger_input \<Rightarrow> nat \<times> change \<Rightarrow> (int \<times> config_setting_data) list res" where
  "configSettingStep E now input ic = (case ic of (i, ch) \<Rightarrow>
     if \<not> isConfigSettingChange ch then Ok []
     else case readEntry ch of
       None \<Rightarrow> Ok []
     | Some (le, deleted) \<Rightarrow> (case le_Data le of
         DConfigSetting cfg \<Rightarrow> mapR (\<lambda>row. [(sint (cs_ConfigSettingID row), row)])
           (configSettingData E (now i) input cfg (le_LastModified le) deleted)
       | _ \<Rightarrow> Panic))"

definition extractConfigSettings :: "sdk \<Rightarrow> (nat \<Rightarrow> gotime) \<Rightarrow> ledger_input \<Rightarrow> config_setting_data list res" where
  "extractConfigSettings E now input = (case in_Changes input of
     Err e \<Rightarrow> Ok [] | Panic \<Rightarrow> Panic
   | Ok changes \<Rightarrow> collectRows (configSettingStep E now input) (enumerate 0 changes))"

section \<open>Time to live\<close>

record ttl_data =
  tt_DataKeyHash :: string
  tt_LedgerSequence :: u32
  tt_LiveUntil :: u32
  tt_TTLRemaining :: i64
  tt_Expired :: bool
  tt_LastModifiedLedger :: i32
  tt_Deleted :: bool
  tt_ClosedAt :: gotime
  tt_CreatedAt :: gotime
  tt_LedgerRange :: u32
  tt_EraID :: "string option"

definition isTTLChange :: "change \<Rightarrow> bool" where
  "isTTLChange ch \<longleftrightarrow> entryHasType ETtl (ch_Pre ch) \<or> entryHasType ETtl (ch_Post ch)"

text \<open>\<open>GetTtl\<close> of an entry of another type: the zero value.\<close>

definition getTtl :: "ledger_entry \<Rightarrow> ttl_entry" where
  "getTtl le = (case le_Data le of DTtl t \<Rightarrow> t
   | _ \<Rightarrow> \<lparr>tt_KeyHash = replicate 32 0, tt_LiveUntilLedgerSeq = 0\<rparr>)"

definition ttlRemaining :: "u32 \<Rightarrow> u32 \<Rightarrow> i64" where
  "ttlRemaining liveUntil sequence = ucast liveUntil - ucast sequence"

definition ttlData :: "gotime \<Rightarrow> ledger_input \<Rightarrow> byte list \<Rightarrow> u32 \<Rightarrow> u32 \<Rightarrow> bool \<Rightarrow> ttl_data" where
  "ttlData now input keyHashBytes liveUntil lastModified deleted =
     (let remaining = ttlRemaining liveUntil (in_Sequence input) in
     \<lparr>tt_DataKeyHash = hexEncode keyHashBytes, tt_LedgerSequence = in_Sequence input,
      tt_LiveUntil = liveUntil, tt_TTLRemaining = remaining, tt_Expired = (remaining \<le>s 0),
      tt_LastModifiedLedger = lastModified, tt_Deleted = deleted, tt_ClosedAt = in_ClosedAt input,
      tt_CreatedAt = now, tt_LedgerRange = in_LedgerRange input, tt_EraID = in_EraID input\<rparr>)"

text \<open>The row of a change: none when it is no TTL change or its key hash cannot be marshalled.\<close>

definition ttlStep :: "sdk \<Rightarrow> gotime \<Rightarrow> ledger_input \<Rightarrow> change \<Rightarrow> ttl_data list res" where
  "ttlStep E now input ch = (if \<not> isTTLChange ch then Ok []
     else case readEntry ch of
       None \<Rightarrow> Ok []
     | Some (le, deleted) \<Rightarrow> (case marshalHash E (tt_KeyHash (getTtl le)) of
         Err e \<Rightarrow> Ok [] | Panic \<Rightarrow> Panic
       | Ok bs \<Rightarrow> Ok [ttlData now input bs (tt_LiveUntilLedgerSeq (getTtl le)) (le_LastModified le) deleted]))"

text \<open>The changes of one transaction; the clock is read per change (\<open>now i j\<close> for change \<open>j\<close> of transaction \<open>i\<close>).\<close>

definition ttlTx ::
    "sdk \<Rightarrow> (nat \<Rightarrow> nat \<Rightarrow> gotime) \<Rightarrow> ledger_input \<Rightarrow> nat \<times> ledger_tx \<Rightarrow> (string \<times> ttl_data) list res" where
  "ttlTx E now input itx = (case itx of (i, tx) \<Rightarrow> (case tx_Changes tx of
     Err e \<Rightarrow> Ok [] | Panic \<Rightarrow> Panic
   | Ok changes \<Rightarrow> mapR (\<lambda>rss. map (\<lambda>r. (tt_DataKeyHash r, r)) (concat rss))
       (seqR (map (\<lambda>(j, ch). ttlStep E (now i j) input ch) (enumerate 0 changes)))))"

definition extractTTL :: "sdk \<Rightarrow> (nat \<Rightarrow> nat \<Rightarrow> gotime) \<Rightarrow> ledger_input \<Rightarrow> ttl_data list res" where
  "extractTTL E now input = (case in_Transactions input of
     Err e \<Rightarrow> Ok [] | Panic \<Rightarrow> Panic
   | Ok txs \<Rightarrow> collectRows (ttlTx E now input) (enumerate 0 txs))"

section \<open>What the tables hold\<close>

text \<open>A change that can be read: its state is a setting too, and marshalling it does not panic.\<close>

definition configReadable :: "sdk \<Rightarrow> change \<Rightarrow> bool" where
  "configReadable E ch \<longleftrightarrow> (\<forall>le d. isConfigSettingChange ch \<and> readEntry ch = Some (le, d) \<longrightarrow>
     (\<exists>cfg. le_Data le = DConfigSetting cfg \<and> marshalConfigSetting E cfg \<noteq> Panic))"

definition configEntry :: "change \<Rightarrow> (config_setting \<times> u32 \<times> bool) option" where
  "configEntry ch = (if \<not> isConfigSettingChange ch then None
     else case readEntry ch of
       Some (le, d) \<Rightarrow> (case le_Data le of DConfigSetting cfg \<Rightarrow> Some (cfg, le_LastModified le, d) | _ \<Rightarrow> None)
     | None \<Rightarrow> None)"

definition configRow :: "sdk \<Rightarrow> gotime \<Rightarrow> ledger_input \<Rightarrow> config_setting \<times> u32 \<times> bool \<Rightarrow> config_setting_data" where
  "configRow E now input e = (case e of (cfg, lastModified, deleted) \<Rightarrow>
     \<lparr>cs_ConfigSettingID = configSettingNum E cfg, cs_LedgerSequence = in_Sequence input,
      cs_LastModifiedLedger = lastModified, cs_Deleted = deleted, cs_ClosedAt = in_ClosedAt input,
      cs_Fields = parseConfigSettingFields cfg noConfigFields,
      cs_ConfigSettingXDR = (case marshalConfigSetting E cfg of Ok bs \<Rightarrow> base64Encode bs | _ \<Rightarrow> []),
      cs_CreatedAt = now, cs_LedgerRange = in_LedgerRange input, cs_EraID = in_EraID input\<rparr>)"

lemma cs_ConfigSettingID_row: "cs_ConfigSettingID (configRow E now input e) = configSettingNum E (fst e)"
  by (simp add: configRow_def split: prod.split)

interpretation config: snapshot "configSettingStep E now input" "configReadable E" configEntry
  "\<lambda>e. sint (configSettingNum E (fst e))" "\<lambda>i. configRow E (now i) input" "\<lambda>r. sint (cs_ConfigSettingID r)"
  for E now input
proof
  fix ch i assume good: "configReadable E ch"
  show "configSettingStep E now input (i, ch) = Ok (case configEntry ch of None \<Rightarrow> []
      | Some e \<Rightarrow> [(sint (configSettingNum E (fst e)), configRow E (now i) input e)])"
  proof (cases "isConfigSettingChange ch")
    case True
    show ?thesis
    proof (cases "readEntry ch")
      case (Some led)
      then obtain le d where led: "readEntry ch = Some (le, d)" by (cases led) auto
      with good True obtain cfg where "le_Data le = DConfigSetting cfg" "marshalConfigSetting E cfg \<noteq> Panic"
        by (auto simp: configReadable_def)
      with True led show ?thesis
        by (cases "marshalConfigSetting E cfg")
          (simp_all add: configSettingStep_def configEntry_def configSettingData_def encodeConfigSettingXDR_def configRow_def)
    qed (simp add: configSettingStep_def configEntry_def)
  qed (simp add: configSettingStep_def configEntry_def)
qed (simp add: cs_ConfigSettingID_row)

text \<open>
  The settings table has one row per setting a change shows, by ascending id as a signed number, and each
  row is that of the last change of its setting, deletions included.
\<close>

theorem extractConfigSettings_snapshot:
  assumes "in_Changes input = Ok changes" "\<forall>ch \<in> set changes. configReadable E ch"
  shows "\<exists>rows. extractConfigSettings E now input = Ok rows
    \<and> map (\<lambda>r. sint (cs_ConfigSettingID r)) rows
        = sorted_list_of_set ((\<lambda>e. sint (configSettingNum E (fst e))) ` set (List.map_filter configEntry changes))
    \<and> (\<forall>r \<in> set rows. \<exists>i e. i < length changes \<and> configEntry (changes ! i) = Some e
         \<and> r = configRow E (now i) input e
         \<and> (\<forall>j e'. i < j \<and> j < length changes \<and> configEntry (changes ! j) = Some e' \<longrightarrow>
              sint (configSettingNum E (fst e')) \<noteq> sint (configSettingNum E (fst e))))"
  using config.rows [of changes E now input] assms by (simp add: extractConfigSettings_def)

definition demoConfig :: "u32 \<Rightarrow> change" where
  "demoConfig n = \<lparr>ch_Type = EConfigSetting, ch_ChangeType = ChUpdated, ch_Pre = None,
     ch_Post = Some \<lparr>le_LastModified = 3, le_Data = DConfigSetting (CfgContractMaxSizeBytes n), le_Sponsor = None\<rparr>\<rparr>"

lemma demoConfig_entry:
  "configEntry (demoConfig n) = Some (CfgContractMaxSizeBytes n, 3, False)" "configReadable demoSdk (demoConfig n)"
  by (simp_all add: demoConfig_def configEntry_def configReadable_def isConfigSettingChange_def readEntry_def
      entryHasType_def demoSdk_def)

theorem extractConfigSettings_snapshot_witness:
  "\<exists>r. extractConfigSettings demoSdk (\<lambda>i. int i) (demoChanges [demoConfig 5, demoConfig 6]) = Ok [r]
    \<and> cf_ContractMaxSizeBytes (cs_Fields r) = Some 6"
proof -
  let ?chs = "[demoConfig 5, demoConfig 6]"
  have fields: "mapR (map (\<lambda>r. cf_ContractMaxSizeBytes (cs_Fields r)))
      (extractConfigSettings demoSdk (\<lambda>i. int i) (demoChanges ?chs)) = Ok [Some 6]" by code_simp
  have "\<exists>rows. extractConfigSettings demoSdk (\<lambda>i. int i) (demoChanges ?chs) = Ok rows
    \<and> map (\<lambda>r. sint (cs_ConfigSettingID r)) rows
        = sorted_list_of_set ((\<lambda>e. sint (configSettingNum demoSdk (fst e))) ` set (List.map_filter configEntry ?chs))"
    using extractConfigSettings_snapshot [of "demoChanges ?chs" ?chs demoSdk "\<lambda>i. int i"] demoConfig_entry(2)
    by auto
  moreover have "List.map_filter configEntry ?chs
      = [(CfgContractMaxSizeBytes 5, 3, False), (CfgContractMaxSizeBytes 6, 3, False)]"
    by (simp only: map_filter_simps demoConfig_entry option.case)
  ultimately obtain rows where rows: "extractConfigSettings demoSdk (\<lambda>i. int i) (demoChanges ?chs) = Ok rows"
    "map (\<lambda>r. sint (cs_ConfigSettingID r)) rows = [0]"
    by (auto simp: demoSdk_def)
  with fields show ?thesis by (auto simp: map_eq_Cons_conv)
qed

lemma signed_take_bit_diff32:
  "0 \<le> l \<Longrightarrow> l < 2 ^ 32 \<Longrightarrow> 0 \<le> s \<Longrightarrow> s < 2 ^ 32 \<Longrightarrow> signed_take_bit 63 (l - s) = (l - s :: int)"
  by (rule signed_take_bit_int_eq_self) auto

lemma ttlRemaining_exact: "sint (ttlRemaining l s) = int (unat l) - int (unat s)"
proof -
  have "ttlRemaining l s = word_of_int (uint l - uint s)" by (simp add: ttlRemaining_def)
  then have "sint (ttlRemaining l s) = signed_take_bit 63 (uint l - uint s)"
    by (simp only: signed_of_int) simp
  also have "\<dots> = uint l - uint s"
    using uint_bounded [of l] uint_bounded [of s] by (intro signed_take_bit_diff32) auto
  finally show ?thesis by (simp only: uint_nat)
qed

text \<open>The rows of a transaction, and the condition that reading it does not panic.\<close>

definition ttlTxRows :: "sdk \<Rightarrow> (nat \<Rightarrow> nat \<Rightarrow> gotime) \<Rightarrow> ledger_input \<Rightarrow> nat \<times> ledger_tx \<Rightarrow> ttl_data list" where
  "ttlTxRows E now input itx = (case okOpt (tx_Changes (snd itx)) of
     Some changes \<Rightarrow> concat (map (\<lambda>(j, ch). case okOpt (ttlStep E (now (fst itx) j) input ch) of
         Some rs \<Rightarrow> rs | None \<Rightarrow> []) (enumerate 0 changes))
   | None \<Rightarrow> [])"

definition ttlReadable :: "sdk \<Rightarrow> ledger_tx \<Rightarrow> bool" where
  "ttlReadable E tx \<longleftrightarrow> tx_Changes tx \<noteq> Panic \<and> (\<forall>h. marshalHash E h \<noteq> Panic)"

lemma ttlStep_Ok: "\<forall>h. marshalHash E h \<noteq> Panic \<Longrightarrow> \<exists>rs. ttlStep E now input ch = Ok rs"
  by (auto simp: ttlStep_def split: option.splits res.splits)

interpretation ttl: keyed_writes "ttlTx E now input" "\<lambda>itx. ttlReadable E (snd itx)"
  "ttlTxRows E now input" tt_DataKeyHash for E now input
proof
  fix itx :: "nat \<times> ledger_tx" assume good: "ttlReadable E (snd itx)"
  obtain i tx where itx: "itx = (i, tx)" by (cases itx)
  show "ttlTx E now input itx = Ok (map (\<lambda>r. (tt_DataKeyHash r, r)) (ttlTxRows E now input itx))"
  proof (cases "tx_Changes tx")
    case (Ok changes)
    let ?rs = "\<lambda>(j, ch). case okOpt (ttlStep E (now i j) input ch) of Some rs \<Rightarrow> rs | None \<Rightarrow> []"
    have "map (\<lambda>(j, ch). ttlStep E (now i j) input ch) jchs = map Ok (map ?rs jchs)" for jchs
      using ttlStep_Ok [of E] good by (auto simp: ttlReadable_def) (metis okOpt.simps(1) option.simps(5))
    then have "seqR (map (\<lambda>(j, ch). ttlStep E (now i j) input ch) (enumerate 0 changes))
        = Ok (map ?rs (enumerate 0 changes))" by (simp only: seqR_Ok_iff)
    then show ?thesis by (simp add: itx Ok ttlTx_def ttlTxRows_def)
  qed (use good itx in \<open>auto simp: ttlTx_def ttlTxRows_def ttlReadable_def\<close>)
qed

lemma ttlTxRows_row:
  assumes "r \<in> set (ttlTxRows E now input itx)"
  shows "tt_LedgerSequence r = in_Sequence input
    \<and> sint (tt_TTLRemaining r) = int (unat (tt_LiveUntil r)) - int (unat (in_Sequence input))
    \<and> (tt_Expired r \<longleftrightarrow> tt_LiveUntil r \<le> in_Sequence input)"
proof -
  from assms obtain now' ch where "r \<in> set (case okOpt (ttlStep E now' input ch) of Some rs \<Rightarrow> rs | None \<Rightarrow> [])"
    by (auto simp: ttlTxRows_def split: option.splits)
  then obtain bs l m d where "r = ttlData now' input bs l m d"
    by (auto simp: ttlStep_def split: option.splits res.splits if_splits)
  then show ?thesis
    by (simp add: ttlData_def Let_def ttlRemaining_exact word_sle_eq word_le_def)
qed

text \<open>
  C27: the TTL table has one row per key hash a change of some transaction shows, by ascending hash, the last
  one written for it; its remaining time is the exact difference of the two ledger numbers (no wrap-around),
  and it is expired exactly when its last live ledger is not after the current one.
\<close>

theorem extractTTL_rows:
  assumes "in_Transactions input = Ok txs" "\<forall>tx \<in> set txs. ttlReadable E tx"
  shows "\<exists>rows. extractTTL E now input = Ok rows
    \<and> map tt_DataKeyHash rows
        = sorted_list_of_set (tt_DataKeyHash ` set (concat (map (ttlTxRows E now input) (enumerate 0 txs))))
    \<and> (\<forall>r \<in> set rows. (\<exists>us vs. concat (map (ttlTxRows E now input) (enumerate 0 txs)) = us @ r # vs
           \<and> (\<forall>r' \<in> set vs. tt_DataKeyHash r' \<noteq> tt_DataKeyHash r))
         \<and> sint (tt_TTLRemaining r) = int (unat (tt_LiveUntil r)) - int (unat (in_Sequence input))
         \<and> (tt_Expired r \<longleftrightarrow> tt_LiveUntil r \<le> in_Sequence input))"
proof -
  have good: "\<forall>itx \<in> set (enumerate 0 txs). ttlReadable E (snd itx)"
    using assms(2) by (auto simp: in_set_enumerate_eq)
  obtain rows where rows: "collectRows (ttlTx E now input) (enumerate 0 txs) = Ok rows"
    "map tt_DataKeyHash rows
        = sorted_list_of_set (tt_DataKeyHash ` set (concat (map (ttlTxRows E now input) (enumerate 0 txs))))"
    "\<forall>r \<in> set rows. \<exists>us vs. concat (map (ttlTxRows E now input) (enumerate 0 txs)) = us @ r # vs
           \<and> (\<forall>r' \<in> set vs. tt_DataKeyHash r' \<noteq> tt_DataKeyHash r)"
    using ttl.last_writes [OF good, of now input] by blast
  have "set rows \<subseteq> set (concat (map (ttlTxRows E now input) (enumerate 0 txs)))"
    using ttl.rows_written(1) [OF good rows(1)] .
  then have "\<forall>r \<in> set rows. \<exists>itx. r \<in> set (ttlTxRows E now input itx)" by fastforce
  then have "\<forall>r \<in> set rows. sint (tt_TTLRemaining r) = int (unat (tt_LiveUntil r)) - int (unat (in_Sequence input))
         \<and> (tt_Expired r \<longleftrightarrow> tt_LiveUntil r \<le> in_Sequence input)"
    using ttlTxRows_row by blast
  with rows show ?thesis by (auto simp: extractTTL_def assms(1))
qed

definition demoTtlTx :: ledger_tx where
  "demoTtlTx = demoTx\<lparr>tx_Changes := Ok [\<lparr>ch_Type = ETtl, ch_ChangeType = ChUpdated, ch_Pre = None,
     ch_Post = Some \<lparr>le_LastModified = 3,
       le_Data = DTtl \<lparr>tt_KeyHash = [1, 2], tt_LiveUntilLedgerSeq = 61500200\<rparr>, le_Sponsor = None\<rparr>\<rparr>]\<rparr>"

theorem extractTTL_rows_witness:
  "\<exists>r. extractTTL demoSdk (\<lambda>i j. int (i + j)) (demoTxs [demoTtlTx]) = Ok [r]
    \<and> tt_DataKeyHash r = ''0102'' \<and> sint (tt_TTLRemaining r) = 74 \<and> \<not> tt_Expired r"
proof -
  have "\<forall>tx \<in> set [demoTtlTx]. ttlReadable demoSdk tx"
    by (simp add: ttlReadable_def demoTtlTx_def demoSdk_def)
  with extractTTL_rows [of "demoTxs [demoTtlTx]" "[demoTtlTx]" demoSdk "\<lambda>i j. int (i + j)"]
  obtain rows where rows: "extractTTL demoSdk (\<lambda>i j. int (i + j)) (demoTxs [demoTtlTx]) = Ok rows"
    and exact: "\<forall>r \<in> set rows. sint (tt_TTLRemaining r) = int (unat (tt_LiveUntil r)) - int (unat (in_Sequence (demoTxs [demoTtlTx])))
         \<and> (tt_Expired r \<longleftrightarrow> tt_LiveUntil r \<le> in_Sequence (demoTxs [demoTtlTx]))"
    by (simp only: demoTxs_simps) metis
  have "mapR (map (\<lambda>r. (tt_DataKeyHash r, tt_LiveUntil r))) (extractTTL demoSdk (\<lambda>i j. int (i + j)) (demoTxs [demoTtlTx]))
      = Ok [(''0102'', 61500200)]" by code_simp
  with rows obtain r where r: "rows = [r]" "tt_DataKeyHash r = ''0102''" "tt_LiveUntil r = 61500200"
    by (auto simp: map_eq_Cons_conv)
  moreover have "in_Sequence (demoTxs [demoTtlTx]) = 61500126" by code_simp
  ultimately show ?thesis using rows exact by simp
qed

end
