(* ===== verification/Trades.thy ===== *)
theory Trades
  imports Sdk Input
begin

text \<open>
  \<open>trades.go\<close>: one row per claim atom of the successful offer and path payment operations of the
  successful transactions.
\<close>

section \<open>Claim atoms\<close>

fun assetCodeIssuer :: "sdk \<Rightarrow> asset \<Rightarrow> string option \<times> string option" where
  "assetCodeIssuer E AssetNative = (None, None)"
| "assetCodeIssuer E (Asset4 code issuer) =
     (Some (trimRightNul (bytesString code)), Some (accountAddress E issuer))"
| "assetCodeIssuer E (Asset12 code issuer) =
     (Some (trimRightNul (bytesString code)), Some (accountAddress E issuer))"
| "assetCodeIssuer E AssetPoolShare = (None, None)"
| "assetCodeIssuer E (AssetOther n) = (None, None)"

text \<open>\<open>claim.AmountSold()\<close> and \<open>claim.AmountBought()\<close>.\<close>

fun claimAmounts :: "sdk \<Rightarrow> claim_atom \<Rightarrow> (i64 \<times> i64) res" where
  "claimAmounts E (ClaimV0 seller offer a) = Ok (ca_AmountSold a, ca_AmountBought a)"
| "claimAmounts E (ClaimOrderBook seller offer a) = Ok (ca_AmountSold a, ca_AmountBought a)"
| "claimAmounts E (ClaimLiquidityPool pool a) = Ok (ca_AmountSold a, ca_AmountBought a)"
| "claimAmounts E (ClaimOther n) = mapR (\<lambda>(s, i, a). (ca_AmountSold a, ca_AmountBought a)) (claimOther E n)"

record trade_context =
  tc_LedgerSeq :: u32
  tc_TxHash :: string
  tc_OperationIndex :: nat
  tc_ClosedAt :: gotime
  tc_LedgerRange :: u32
  tc_EraID :: "string option"
  tc_BuyerAccount :: string

record trade_data =
  tr_LedgerSequence :: u32
  tr_TransactionHash :: string
  tr_OperationIndex :: nat
  tr_TradeIndex :: nat
  tr_TradeType :: string
  tr_TradeTimestamp :: gotime
  tr_SellerAccount :: string
  tr_SellingAsset :: "string option \<times> string option"  \<comment> \<open>code and issuer\<close>
  tr_SellingAmount :: string
  tr_BuyerAccount :: string
  tr_BuyingAsset :: "string option \<times> string option"
  tr_BuyingAmount :: string
  tr_Price :: string
  tr_LiquidityPoolID :: "string option"
  tr_CreatedAt :: gotime
  tr_LedgerRange :: u32
  tr_EraID :: "string option"

text \<open>The seller, the pool and the amounts of an arm the switch names.\<close>

fun claimParties :: "sdk \<Rightarrow> claim_atom \<Rightarrow> (string \<times> string option \<times> claim_amounts) option" where
  "claimParties E (ClaimOrderBook seller offer a) = Some (accountAddress E seller, None, a)"
| "claimParties E (ClaimV0 seller offer a) = Some (hexEncode seller, None, a)"
| "claimParties E (ClaimLiquidityPool pool a) = Some ([], Some (hexEncode pool), a)"
| "claimParties E (ClaimOther n) = None"

definition tradeFromClaim :: "sdk \<Rightarrow> claim_atom \<Rightarrow> trade_context \<Rightarrow> nat \<Rightarrow> trade_data option" where
  "tradeFromClaim E claim ctx tradeIndex = (case claimParties E claim of
     None \<Rightarrow> None
   | Some (seller, pool, a) \<Rightarrow>
     let selling = amountString E (ca_AmountSold a);
         buying = amountString E (ca_AmountBought a)
     in Some \<lparr>tr_LedgerSequence = tc_LedgerSeq ctx, tr_TransactionHash = tc_TxHash ctx,
      tr_OperationIndex = tc_OperationIndex ctx, tr_TradeIndex = tradeIndex,
      tr_TradeType = (if pool = None then ''orderbook'' else ''liquidity_pool''),
      tr_TradeTimestamp = tc_ClosedAt ctx, tr_SellerAccount = seller,
      tr_SellingAsset = assetCodeIssuer E (ca_AssetSold a), tr_SellingAmount = selling,
      tr_BuyerAccount = tc_BuyerAccount ctx,
      tr_BuyingAsset = assetCodeIssuer E (ca_AssetBought a), tr_BuyingAmount = buying,
      tr_Price = buying @ ''/'' @ selling, tr_LiquidityPoolID = pool,
      tr_CreatedAt = tc_ClosedAt ctx, tr_LedgerRange = tc_LedgerRange ctx, tr_EraID = tc_EraID ctx\<rparr>)"

definition claimTrade :: "sdk \<Rightarrow> trade_context \<Rightarrow> nat \<times> claim_atom \<Rightarrow> trade_data list res" where
  "claimTrade E ctx jc = (case jc of (j, claim) \<Rightarrow>
     mapR (\<lambda>(sold, bought). if sold = 0 \<and> bought = 0 then []
       else case tradeFromClaim E claim ctx j of None \<Rightarrow> [] | Some t \<Rightarrow> [t]) (claimAmounts E claim))"

text \<open>The trades \<open>appendTradesFromClaims\<close> appends: the index is the position of the claim.\<close>

definition tradesFromClaims :: "sdk \<Rightarrow> trade_context \<Rightarrow> claim_atom list \<Rightarrow> trade_data list res" where
  "tradesFromClaims E ctx claims = concatR (claimTrade E ctx) (enumerate 0 claims)"

section \<open>Operations and transactions\<close>

text \<open>The claims of a successful offer result, whichever of the three types it is.\<close>

fun offerClaimsFromResult :: "op_result \<Rightarrow> claim_atom list" where
  "offerClaimsFromResult (OrInner (TrManageSellOffer (Some claims))) = claims"
| "offerClaimsFromResult (OrInner (TrManageBuyOffer (Some claims))) = claims"
| "offerClaimsFromResult (OrInner (TrCreatePassiveSellOffer (Some claims))) = claims"
| "offerClaimsFromResult r = []"

text \<open>
  The claims of an operation and the buyer the rows name: the transaction's source for an offer, the
  destination for a path payment.  A result of another type than the operation panics
  (\<open>MustPathPaymentStrictReceiveResult\<close>).
\<close>

fun opClaims :: "sdk \<Rightarrow> muxed_account \<Rightarrow> op_body \<Rightarrow> op_result \<Rightarrow> (claim_atom list \<times> string) res" where
  "opClaims E source (OpManageSellOffer s b a p i) r = Ok (offerClaimsFromResult r, accountAddress E (muxAccountId source))"
| "opClaims E source (OpManageBuyOffer s b a p i) r = Ok (offerClaimsFromResult r, accountAddress E (muxAccountId source))"
| "opClaims E source (OpCreatePassiveSellOffer s b a p) r =
     Ok (offerClaimsFromResult r, accountAddress E (muxAccountId source))"
| "opClaims E source (OpPathPaymentStrictReceive sa sm dest da dm) r = (case r of
     OrCode c \<Rightarrow> Ok ([], [])
   | OrInner (TrPathPaymentStrictReceive None) \<Rightarrow> Ok ([], [])
   | OrInner (TrPathPaymentStrictReceive (Some (claims, sent))) \<Rightarrow> Ok (claims, accountAddress E (muxAccountId dest))
   | OrInner t \<Rightarrow> Panic)"
| "opClaims E source (OpPathPaymentStrictSend sa am dest da dm) r = (case r of
     OrCode c \<Rightarrow> Ok ([], [])
   | OrInner (TrPathPaymentStrictSend None) \<Rightarrow> Ok ([], [])
   | OrInner (TrPathPaymentStrictSend (Some (claims, received))) \<Rightarrow> Ok (claims, accountAddress E (muxAccountId dest))
   | OrInner t \<Rightarrow> Panic)"
| "opClaims E source body r = Ok ([], [])"

definition tradeContext :: "ledger_input \<Rightarrow> ledger_tx \<Rightarrow> nat \<Rightarrow> string \<Rightarrow> trade_context" where
  "tradeContext input tx opIdx buyer =
     \<lparr>tc_LedgerSeq = in_Sequence input, tc_TxHash = hexEncode (tx_Hash tx), tc_OperationIndex = opIdx,
      tc_ClosedAt = in_ClosedAt input, tc_LedgerRange = in_LedgerRange input, tc_EraID = in_EraID input,
      tc_BuyerAccount = buyer\<rparr>"

definition opTrades :: "sdk \<Rightarrow> ledger_input \<Rightarrow> ledger_tx \<Rightarrow> nat \<times> operation \<Rightarrow> trade_data list res" where
  "opTrades E input tx iop = (case iop of (opIdx, op) \<Rightarrow> (case tx_OpResults tx of
     None \<Rightarrow> Ok []
   | Some results \<Rightarrow> if opIdx \<ge> length results then Ok []
       else bindR (opClaims E (tx_SourceAccount tx) (op_Body op) (results ! opIdx)) (\<lambda>(claims, buyer).
         tradesFromClaims E (tradeContext input tx opIdx buyer) claims)))"

definition txTrades :: "sdk \<Rightarrow> ledger_input \<Rightarrow> ledger_tx \<Rightarrow> trade_data list res" where
  "txTrades E input tx = (if \<not> tx_Successful tx then Ok []
     else concatR (opTrades E input tx) (enumerate 0 (tx_Operations tx)))"

definition extractTrades :: "sdk \<Rightarrow> ledger_input \<Rightarrow> trade_data list res" where
  "extractTrades E input = (case in_Transactions input of
     Err e \<Rightarrow> Err (''failed to read transactions: '' @ e) | Panic \<Rightarrow> Panic
   | Ok txs \<Rightarrow> concatR (txTrades E input) txs)"

section \<open>What the trades table holds\<close>

lemma claimTrade_mem:
  assumes "claimTrade E ctx (j, claim) = Ok ts"
  shows "t \<in> set ts \<longleftrightarrow> claimAmounts E claim \<noteq> Ok (0, 0) \<and> tradeFromClaim E claim ctx j = Some t"
  using assms by (auto simp: claimTrade_def mapR_Ok_iff split: if_splits option.splits)

lemma tradesFromClaims_mem:
  assumes "tradesFromClaims E ctx claims = Ok ts"
  shows "t \<in> set ts \<longleftrightarrow> (\<exists>j < length claims. claimAmounts E (claims ! j) \<noteq> Ok (0, 0)
    \<and> tradeFromClaim E (claims ! j) ctx j = Some t)"
proof -
  have ok: "\<exists>ts. claimTrade E ctx (j, claims ! j) = Ok ts" if "j < length claims" for j
    using concatR_elem [OF assms [unfolded tradesFromClaims_def], of "(j, claims ! j)"] that
    by (simp add: in_set_enumerate_eq)
  have "t \<in> set ts \<longleftrightarrow> (\<exists>j < length claims. \<exists>us. claimTrade E ctx (j, claims ! j) = Ok us \<and> t \<in> set us)"
    using concatR_mem [OF assms [unfolded tradesFromClaims_def]] by (simp only: bex_enumerate)
  with ok show ?thesis by (metis claimTrade_mem)
qed

text \<open>
  The trades written out, without the functions of the extractor: the claims of an operation and the buyer by the
  result and the body, and the columns of a trade by the arm of its claim.
\<close>

definition offerBody :: "op_body \<Rightarrow> bool" where
  "offerBody body \<longleftrightarrow> (case body of OpManageSellOffer s b a p i \<Rightarrow> True | OpManageBuyOffer s b a p i \<Rightarrow> True
     | OpCreatePassiveSellOffer s b a p \<Rightarrow> True | _ \<Rightarrow> False)"

definition resultClaims :: "sdk \<Rightarrow> muxed_account \<Rightarrow> op_body \<Rightarrow> op_result \<Rightarrow> (claim_atom list \<times> string) option" where
  "resultClaims E source body r = (let offer = (\<lambda>claims.
       if offerBody body then Some (claims, accountAddress E (muxAccountId source)) else None) in case r of
     OrInner (TrManageSellOffer (Some claims)) \<Rightarrow> offer claims
   | OrInner (TrManageBuyOffer (Some claims)) \<Rightarrow> offer claims
   | OrInner (TrCreatePassiveSellOffer (Some claims)) \<Rightarrow> offer claims
   | OrInner (TrPathPaymentStrictReceive (Some (claims, sent))) \<Rightarrow> (case body of
       OpPathPaymentStrictReceive sa sm dest da dm \<Rightarrow> Some (claims, accountAddress E (muxAccountId dest)) | _ \<Rightarrow> None)
   | OrInner (TrPathPaymentStrictSend (Some (claims, received))) \<Rightarrow> (case body of
       OpPathPaymentStrictSend sa am dest da dm \<Rightarrow> Some (claims, accountAddress E (muxAccountId dest)) | _ \<Rightarrow> None)
   | _ \<Rightarrow> None)"

definition claimsAt :: "sdk \<Rightarrow> ledger_tx \<Rightarrow> nat \<Rightarrow> (claim_atom list \<times> string) option" where
  "claimsAt E tx i = (case tx_OpResults tx of
     Some results \<Rightarrow> if tx_Successful tx \<and> i < length (tx_Operations tx) \<and> i < length results
       then resultClaims E (tx_SourceAccount tx) (op_Body (tx_Operations tx ! i)) (results ! i) else None
   | None \<Rightarrow> None)"

definition assetColumns :: "sdk \<Rightarrow> asset \<Rightarrow> string option \<times> string option" where
  "assetColumns E a = (case a of
     Asset4 code issuer \<Rightarrow> (Some (trimRightNul (bytesString code)), Some (accountAddress E issuer))
   | Asset12 code issuer \<Rightarrow> (Some (trimRightNul (bytesString code)), Some (accountAddress E issuer))
   | _ \<Rightarrow> (None, None))"

definition tradeRow ::
    "sdk \<Rightarrow> ledger_input \<Rightarrow> ledger_tx \<Rightarrow> nat \<Rightarrow> nat \<Rightarrow> string \<Rightarrow> string \<Rightarrow> string option \<Rightarrow> claim_amounts \<Rightarrow> trade_data option" where
  "tradeRow E input tx i j buyer seller pool a = (if ca_AmountSold a = 0 \<and> ca_AmountBought a = 0 then None else
     Some \<lparr>tr_LedgerSequence = in_Sequence input, tr_TransactionHash = hexEncode (tx_Hash tx), tr_OperationIndex = i,
      tr_TradeIndex = j, tr_TradeType = (case pool of None \<Rightarrow> ''orderbook'' | Some p \<Rightarrow> ''liquidity_pool''),
      tr_TradeTimestamp = in_ClosedAt input, tr_SellerAccount = seller,
      tr_SellingAsset = assetColumns E (ca_AssetSold a), tr_SellingAmount = amountString E (ca_AmountSold a),
      tr_BuyerAccount = buyer,
      tr_BuyingAsset = assetColumns E (ca_AssetBought a), tr_BuyingAmount = amountString E (ca_AmountBought a),
      tr_Price = amountString E (ca_AmountBought a) @ ''/'' @ amountString E (ca_AmountSold a),
      tr_LiquidityPoolID = pool, tr_CreatedAt = in_ClosedAt input, tr_LedgerRange = in_LedgerRange input,
      tr_EraID = in_EraID input\<rparr>)"

definition tradeOf :: "sdk \<Rightarrow> ledger_input \<Rightarrow> ledger_tx \<Rightarrow> nat \<Rightarrow> nat \<Rightarrow> string \<Rightarrow> claim_atom \<Rightarrow> trade_data option" where
  "tradeOf E input tx i j buyer claim = (case claim of
     ClaimOrderBook seller offer a \<Rightarrow> tradeRow E input tx i j buyer (accountAddress E seller) None a
   | ClaimV0 seller offer a \<Rightarrow> tradeRow E input tx i j buyer (hexEncode seller) None a
   | ClaimLiquidityPool pool a \<Rightarrow> tradeRow E input tx i j buyer [] (Some (hexEncode pool)) a
   | ClaimOther n \<Rightarrow> None)"

lemma assetCodeIssuer_columns: "assetCodeIssuer E a = assetColumns E a"
  by (cases a) (simp_all add: assetColumns_def)

lemma tradeFromClaim_tradeOf:
  "(if claimAmounts E claim = Ok (0, 0) then None else tradeFromClaim E claim (tradeContext input tx i buyer) j)
    = tradeOf E input tx i j buyer claim"
  by (cases claim) (simp_all add: tradeOf_def tradeRow_def tradeFromClaim_def tradeContext_def assetCodeIssuer_columns Let_def)

lemma opClaims_resultClaims:
  "opClaims E source body r = Ok (claims, buyer) \<Longrightarrow>
   resultClaims E source body r = Some (claims, buyer) \<or> claims = [] \<and> resultClaims E source body r = None"
  by (cases "(E, source, body, r)" rule: opClaims.cases; cases r rule: offerClaimsFromResult.cases)
    (auto simp: resultClaims_def offerBody_def Let_def split: op_result.splits op_result_tr.splits option.splits)

text \<open>
  The places of the claims of a ledger, in ledger order: transaction by transaction, operation by operation, claim by
  claim, and the trade of a place, none where the claim has no amount or an arm the code does not know.
\<close>

type_synonym place = "nat \<times> nat \<times> nat"

definition opPlaces :: "sdk \<Rightarrow> ledger_tx \<Rightarrow> nat \<Rightarrow> (nat \<times> nat) list" where
  "opPlaces E tx i = (case claimsAt E tx i of
     None \<Rightarrow> [] | Some (claims, buyer) \<Rightarrow> map (\<lambda>j. (i, j)) [0 ..< length claims])"

definition claimPlaces :: "sdk \<Rightarrow> ledger_tx list \<Rightarrow> place list" where
  "claimPlaces E txs = concat (map (\<lambda>t. map (Pair t)
     (concat (map (opPlaces E (txs ! t)) [0 ..< length (tx_Operations (txs ! t))]))) [0 ..< length txs])"

definition tradeIn :: "sdk \<Rightarrow> ledger_input \<Rightarrow> ledger_tx \<Rightarrow> nat \<times> nat \<Rightarrow> trade_data option" where
  "tradeIn E input tx = (\<lambda>(i, j). case claimsAt E tx i of
     None \<Rightarrow> None
   | Some (claims, buyer) \<Rightarrow> tradeOf E input tx i j buyer (claims ! j))"

definition tradeAt :: "sdk \<Rightarrow> ledger_input \<Rightarrow> ledger_tx list \<Rightarrow> place \<Rightarrow> trade_data option" where
  "tradeAt E input txs = (\<lambda>(t, ij). tradeIn E input (txs ! t) ij)"

lemma map_filter_concat: "List.map_filter f (concat xss) = concat (map (List.map_filter f) xss)"
  by (simp add: List.map_filter_def [abs_def] map_concat filter_concat comp_def)

lemma map_filter_map: "List.map_filter f (map g xs) = List.map_filter (f \<circ> g) xs"
  by (simp add: List.map_filter_def filter_map comp_def)

text \<open>A flat map whose parts are determined: of a list, and of an enumerated list.\<close>

lemma concatR_determined:
  assumes "concatR f xs = Ok rs" "\<And>x as. x \<in> set xs \<Longrightarrow> f x = Ok as \<Longrightarrow> as = g x"
  shows "rs = concat (map g xs)"
  using assms
proof (induction xs arbitrary: rs)
  case (Cons x xs)
  from Cons.prems(1) obtain as bs where ab: "f x = Ok as" "concatR f xs = Ok bs" "rs = as @ bs" by (auto simp: bindR_Ok_iff)
  have "bs = concat (map g xs)" using ab(2) Cons.prems(2) by (intro Cons.IH) auto
  then show ?case using ab Cons.prems(2) [of x as] by simp
qed simp

lemma concatR_determined_enumerate:
  assumes "concatR f (enumerate 0 xs) = Ok rs" "\<And>i as. i < length xs \<Longrightarrow> f (i, xs ! i) = Ok as \<Longrightarrow> as = g i"
  shows "rs = concat (map g [0 ..< length xs])"
proof -
  have "rs = concat (map (g \<circ> fst) (enumerate 0 xs))"
    using assms(2) by (intro concatR_determined [OF assms(1)]) (auto simp: in_set_enumerate_eq)
  then show ?thesis by (simp add: map_map [symmetric] del: map_map)
qed

lemma tradesFromClaims_eq:
  assumes "tradesFromClaims E ctx claims = Ok ts"
  shows "ts = List.map_filter (\<lambda>j. if claimAmounts E (claims ! j) = Ok (0, 0) then None
    else tradeFromClaim E (claims ! j) ctx j) [0 ..< length claims]"
proof -
  have "as = (case (if claimAmounts E (claims ! j) = Ok (0, 0) then None else tradeFromClaim E (claims ! j) ctx j) of
      None \<Rightarrow> [] | Some t \<Rightarrow> [t])" if "claimTrade E ctx (j, claims ! j) = Ok as" for j as
    using that by (auto simp: claimTrade_def mapR_Ok_iff split: if_splits option.splits)
  from concatR_determined_enumerate [OF assms [unfolded tradesFromClaims_def] this]
  have "ts = concat (map (\<lambda>j. case (if claimAmounts E (claims ! j) = Ok (0, 0) then None
    else tradeFromClaim E (claims ! j) ctx j) of None \<Rightarrow> [] | Some t \<Rightarrow> [t]) [0 ..< length claims])" .
  moreover have "concat (map (\<lambda>x. case f x of None \<Rightarrow> [] | Some t \<Rightarrow> [t]) xs) = List.map_filter f xs"
    for f :: "nat \<Rightarrow> trade_data option" and xs by (induction xs) (simp_all split: option.split)
  ultimately show ?thesis by simp
qed

lemma opTrades_eq:
  assumes "tx_Successful tx" "i < length (tx_Operations tx)" "opTrades E input tx (i, tx_Operations tx ! i) = Ok ts"
  shows "ts = List.map_filter (tradeIn E input tx) (opPlaces E tx i)"
proof (cases "\<exists>results. tx_OpResults tx = Some results \<and> i < length results")
  case False
  with assms show ?thesis
    by (cases "tx_OpResults tx") (auto simp: opTrades_def claimsAt_def opPlaces_def)
next
  case True
  then obtain results where r: "tx_OpResults tx = Some results" "i < length results" by blast
  with assms(3) obtain claims buyer where
    c: "opClaims E (tx_SourceAccount tx) (op_Body (tx_Operations tx ! i)) (results ! i) = Ok (claims, buyer)"
    and ts: "tradesFromClaims E (tradeContext input tx i buyer) claims = Ok ts"
    by (auto simp: opTrades_def bindR_Ok_iff)
  from tradesFromClaims_eq [OF ts]
  have rows: "ts = List.map_filter (\<lambda>j. tradeOf E input tx i j buyer (claims ! j)) [0 ..< length claims]"
    unfolding tradeFromClaim_tradeOf .
  have at: "claimsAt E tx i = resultClaims E (tx_SourceAccount tx) (op_Body (tx_Operations tx ! i)) (results ! i)"
    using assms(1,2) r by (simp add: claimsAt_def)
  from opClaims_resultClaims [OF c] show ?thesis
  proof
    assume "resultClaims E (tx_SourceAccount tx) (op_Body (tx_Operations tx ! i)) (results ! i) = Some (claims, buyer)"
    then show ?thesis using rows by (simp add: opPlaces_def at map_filter_map comp_def tradeIn_def)
  next
    assume "claims = [] \<and> resultClaims E (tx_SourceAccount tx) (op_Body (tx_Operations tx ! i)) (results ! i) = None"
    then show ?thesis using rows by (simp add: opPlaces_def at)
  qed
qed

lemma txTrades_eq:
  assumes "txTrades E input tx = Ok ts"
  shows "ts = List.map_filter (tradeIn E input tx) (concat (map (opPlaces E tx) [0 ..< length (tx_Operations tx)]))"
proof (cases "tx_Successful tx")
  case False
  then have "opPlaces E tx i = []" for i by (simp add: opPlaces_def claimsAt_def split: option.split)
  with False assms show ?thesis by (simp add: txTrades_def map_filter_concat comp_def)
next
  case True
  with assms have c: "concatR (opTrades E input tx) (enumerate 0 (tx_Operations tx)) = Ok ts"
    by (simp add: txTrades_def)
  from concatR_determined_enumerate [OF c opTrades_eq [OF True]] show ?thesis
    by (simp add: map_filter_concat comp_def)
qed

lemma map_nth_upt: "map (\<lambda>i. f (xs ! i)) [0 ..< length xs] = map f xs"
  by (rule nth_equalityI) simp_all

text \<open>
  C13: the rows are the trades of the claim atoms of the successful offer and path payment operations of the
  successful transactions, in ledger order and each once; a claim without amounts or with an unknown arm is left
  out, and each row names its transaction and the position of its operation and of its claim, whatever claims
  before it were left out.  The claims, the buyer and every column of a row are fixed by the body, the result and
  the arm of the claim.
\<close>

theorem extractTrades_claims:
  assumes "in_Transactions input = Ok txs" "extractTrades E input = Ok rows"
  shows "rows = List.map_filter (tradeAt E input txs) (claimPlaces E txs)
    \<and> (\<forall>t i j row. tradeAt E input txs (t, i, j) = Some row \<longrightarrow> tr_TransactionHash row = hexEncode (tx_Hash (txs ! t))
        \<and> tr_OperationIndex row = i \<and> tr_TradeIndex row = j)"
proof (intro conjI allI impI)
  let ?rows = "\<lambda>tx. List.map_filter (tradeIn E input tx) (concat (map (opPlaces E tx) [0 ..< length (tx_Operations tx)]))"
  have c: "concatR (txTrades E input) txs = Ok rows" using assms by (simp add: extractTrades_def)
  have "rows = concat (map ?rows txs)"
    by (rule concatR_determined [OF c]) (rule txTrades_eq)
  also have "\<dots> = concat (map (\<lambda>t. ?rows (txs ! t)) [0 ..< length txs])"
    unfolding map_nth_upt [of ?rows txs] ..
  also have "\<dots> = List.map_filter (tradeAt E input txs) (claimPlaces E txs)"
    by (simp add: claimPlaces_def map_filter_concat map_filter_map comp_def tradeAt_def)
  finally show "rows = List.map_filter (tradeAt E input txs) (claimPlaces E txs)" .
next
  fix t i j row
  assume "tradeAt E input txs (t, i, j) = Some row"
  then obtain claims buyer where "tradeOf E input (txs ! t) i j buyer (claims ! j) = Some row"
    by (auto simp: tradeAt_def tradeIn_def split: option.splits)
  then show "tr_TransactionHash row = hexEncode (tx_Hash (txs ! t))" "tr_OperationIndex row = i" "tr_TradeIndex row = j"
    by (auto simp: tradeOf_def tradeRow_def split: claim_atom.splits if_splits)
qed

definition demoClaims :: "claim_atom list" where
  "demoClaims = [ClaimOrderBook [2] 7 \<lparr>ca_AssetSold = AssetNative, ca_AmountSold = 0, ca_AssetBought = AssetNative, ca_AmountBought = 0\<rparr>,
     ClaimLiquidityPool [9] \<lparr>ca_AssetSold = AssetNative, ca_AmountSold = 30, ca_AssetBought = Asset4 [65, 0, 0, 0] [5], ca_AmountBought = 4\<rparr>]"

definition demoTradeTx :: "hash \<Rightarrow> muxed_account option \<Rightarrow> ledger_tx" where
  "demoTradeTx h source = demoTx\<lparr>tx_Hash := h, tx_SourceAccount := MuxEd25519 [1],
     tx_Operations := [\<lparr>op_SourceAccount = source, op_Body = OpManageSellOffer AssetNative AssetNative 5 \<lparr>pr_N = 1, pr_D = 2\<rparr> 0\<rparr>],
     tx_OpResults := Some [OrInner (TrManageSellOffer (Some demoClaims))]\<rparr>"

definition demoTrade :: trade_data where
  "demoTrade = \<lparr>tr_LedgerSequence = 61500126, tr_TransactionHash = ''07'', tr_OperationIndex = 0, tr_TradeIndex = 1,
     tr_TradeType = ''liquidity_pool'', tr_TradeTimestamp = 1700000000, tr_SellerAccount = [],
     tr_SellingAsset = (None, None), tr_SellingAmount = ''30'', tr_BuyerAccount = ''GAB'',
     tr_BuyingAsset = (Some ''A'', Some ''GAF''), tr_BuyingAmount = ''4'', tr_Price = ''4/30'',
     tr_LiquidityPoolID = Some ''09'', tr_CreatedAt = 1700000000, tr_LedgerRange = 61500000, tr_EraID = None\<rparr>"

lemma demoTrades_rows: "extractTrades demoSdk (demoTxs [demoTradeTx [7] None]) = Ok [demoTrade]"
  by code_simp

theorem extractTrades_claims_witness:
  "List.map_filter (tradeAt demoSdk (demoTxs [demoTradeTx [7] None]) [demoTradeTx [7] None])
      (claimPlaces demoSdk [demoTradeTx [7] None]) = [demoTrade]
    \<and> claimPlaces demoSdk [demoTradeTx [7] None] = [(0, 0, 0), (0, 0, 1)]"
proof -
  have "claimPlaces demoSdk [demoTradeTx [7] None] = [(0, 0, 0), (0, 0, 1)]" by code_simp
  then show ?thesis using extractTrades_claims [OF demoTxs_simps(1) demoTrades_rows] by simp
qed

text \<open>The position of a claim in the ledger: hash of the transaction, operation and claim.\<close>

definition tradeKey :: "trade_data \<Rightarrow> string \<times> nat \<times> nat" where
  "tradeKey t = (tr_TransactionHash t, tr_OperationIndex t, tr_TradeIndex t)"

lemma tradesFromClaims_keys:
  assumes "tradesFromClaims E ctx claims = Ok ts"
  shows "distinct (map tr_TradeIndex ts)
    \<and> (\<forall>t \<in> set ts. tr_TransactionHash t = tc_TxHash ctx \<and> tr_OperationIndex t = tc_OperationIndex ctx)"
proof
  show "distinct (map tr_TradeIndex ts)"
    by (rule concatR_distinct [OF assms [unfolded tradesFromClaims_def], where tag = fst and keyTag = "\<lambda>k. k"])
      (auto simp: claimTrade_def tradeFromClaim_def Let_def mapR_Ok_iff split: if_splits option.splits)
  show "\<forall>t \<in> set ts. tr_TransactionHash t = tc_TxHash ctx \<and> tr_OperationIndex t = tc_OperationIndex ctx"
    using tradesFromClaims_mem [OF assms]
    by (auto simp: tradeFromClaim_def Let_def split: option.splits)
qed

lemma opTrades_keys:
  assumes "opTrades E input tx (i, op) = Ok ts"
  shows "distinct (map tradeKey ts)
    \<and> (\<forall>t \<in> set ts. tr_TransactionHash t = hexEncode (tx_Hash tx) \<and> tr_OperationIndex t = i)"
proof (cases "ts = []")
  case False
  with assms obtain buyer claims where c: "tradesFromClaims E (tradeContext input tx i buyer) claims = Ok ts"
    by (auto simp: opTrades_def bindR_Ok_iff split: option.splits if_splits)
  have "distinct (map tr_TradeIndex ts)" using tradesFromClaims_keys [OF c] by simp
  then have "distinct (map tradeKey ts)" by (auto simp: distinct_map inj_on_def tradeKey_def)
  then show ?thesis using tradesFromClaims_keys [OF c] by (simp add: tradeContext_def)
qed simp

lemma txTrades_keys:
  assumes "txTrades E input tx = Ok ts"
  shows "distinct (map tradeKey ts) \<and> (\<forall>t \<in> set ts. tr_TransactionHash t = hexEncode (tx_Hash tx))"
proof (cases "tx_Successful tx")
  case True
  with assms have c: "concatR (opTrades E input tx) (enumerate 0 (tx_Operations tx)) = Ok ts"
    by (simp add: txTrades_def)
  have "distinct (map tradeKey ts)"
    by (rule concatR_distinct [OF c, where tag = fst and keyTag = "\<lambda>(h, i, j). i"])
      (use opTrades_keys in \<open>fastforce simp: tradeKey_def\<close>)+
  moreover have "\<forall>t \<in> set ts. tr_TransactionHash t = hexEncode (tx_Hash tx)"
    using concatR_mem [OF c] opTrades_keys by fastforce
  ultimately show ?thesis ..
qed (use assms in \<open>simp add: txTrades_def\<close>)

text \<open>
  Transaction hash, operation index and trade index identify a row of the ledger's trades table.
\<close>

theorem extractTrades_key:
  assumes "in_Transactions input = Ok txs" "distinct (map tx_Hash txs)" "extractTrades E input = Ok rows"
  shows "distinct (map tradeKey rows)"
proof -
  have c: "concatR (txTrades E input) txs = Ok rows" using assms by (simp add: extractTrades_def)
  show ?thesis
    by (rule concatR_distinct [OF c, where tag = "\<lambda>tx. hexEncode (tx_Hash tx)" and keyTag = fst])
      (use assms(2) txTrades_keys in \<open>auto simp: tradeKey_def distinct_map inj_on_def\<close>)
qed

theorem extractTrades_key_witness:
  "\<exists>rows. extractTrades demoSdk (demoTxs [demoTradeTx [7] None, demoTradeTx [8] None]) = Ok rows
    \<and> length rows = 2 \<and> distinct (map tradeKey rows)"
proof -
  let ?txs = "[demoTradeTx [7] None, demoTradeTx [8] None]"
  have "mapR length (extractTrades demoSdk (demoTxs ?txs)) = Ok 2" by code_simp
  then obtain rows where rows: "extractTrades demoSdk (demoTxs ?txs) = Ok rows" "length rows = 2"
    by (auto simp: mapR_Ok_iff)
  have "distinct (map tx_Hash ?txs)" by (simp add: demoTradeTx_def)
  from extractTrades_key [OF demoTxs_simps(1) this rows(1)] rows show ?thesis by blast
qed

text \<open>The same transaction with other operation source accounts.\<close>

definition resource :: "(operation \<Rightarrow> muxed_account option) \<Rightarrow> ledger_tx \<Rightarrow> ledger_tx" where
  "resource f tx = tx\<lparr>tx_Operations := map (\<lambda>op. op\<lparr>op_SourceAccount := f op\<rparr>) (tx_Operations tx)\<rparr>"

lemma tradeContext_resource:
  "tradeContext (input\<lparr>in_Transactions := t\<rparr>) (resource f tx) i b = tradeContext input tx i b"
  by (simp add: tradeContext_def resource_def)

lemma txTrades_resource: "txTrades E (input\<lparr>in_Transactions := t\<rparr>) (resource f tx) = txTrades E input tx"
proof -
  have "opTrades E (input\<lparr>in_Transactions := t\<rparr>) (resource f tx) (i, op\<lparr>op_SourceAccount := s\<rparr>)
      = opTrades E input tx (i, op)" for i op s
    unfolding opTrades_def tradeContext_resource by (cases "tx_OpResults tx") (simp_all add: resource_def)
  moreover have "enumerate 0 (tx_Operations (resource f tx))
      = map (\<lambda>(i, op). (i, op\<lparr>op_SourceAccount := f op\<rparr>)) (enumerate 0 (tx_Operations tx))"
    by (simp add: resource_def enumerate_map_upt enumerate_eq_zip zip_map2 case_prod_unfold)
  ultimately show ?thesis
    by (simp add: txTrades_def concatR_map case_prod_unfold) (simp add: resource_def)
qed

text \<open>
  The source account of an operation plays no part in its trades: an offer whose operation overrides the
  source is reported under the transaction's source account.
\<close>

theorem trades_ignore_operation_source:
  "extractTrades E (input\<lparr>in_Transactions := mapR (map (resource f)) (in_Transactions input)\<rparr>) = extractTrades E input"
  by (cases "in_Transactions input") (simp_all add: extractTrades_def concatR_map txTrades_resource)

end
