(* ===== verification/Ledgers.thy ===== *)
theory Ledgers
  imports Sdk Input
begin

text \<open>
  \<open>ledgers.go\<close>: the one row of a ledger.  \<open>version\<close> is the package variable \<open>Version\<close>.  The counters
  keep their Go widths; an \<open>int\<close> made from a \<open>uint32\<close> is a \<^typ>\<open>nat\<close>.
\<close>

record ledger_row =
  ld_Sequence :: u32
  ld_LedgerHash :: string
  ld_PreviousLedgerHash :: string
  ld_ClosedAt :: gotime
  ld_ProtocolVersion :: u32
  ld_TotalCoins :: i64
  ld_FeePool :: i64
  ld_BaseFee :: u32
  ld_BaseReserve :: u32
  ld_MaxTxSetSize :: u32
  ld_TransactionCount :: nat
  ld_OperationCount :: nat
  ld_SuccessfulTxCount :: nat
  ld_FailedTxCount :: nat
  ld_TxSetOperationCount :: nat
  ld_SorobanFeeWrite1kb :: "i64 option"
  ld_NodeID :: "string option"
  ld_Signature :: "string option"
  ld_LedgerHeader :: "string option"
  ld_BucketListSize :: "i64 option"
  ld_LiveSorobanStateSize :: "i64 option"
  ld_EvictedKeysCount :: "i32 option"
  ld_SorobanOpCount :: "i32 option"
  ld_TotalFeeCharged :: "i64 option"
  ld_ContractEventsCount :: "i32 option"
  ld_IngestionTimestamp :: gotime
  ld_LedgerRange :: u32
  ld_PipelineVersion :: string
  ld_EraID :: "string option"

section \<open>Counters\<close>

text \<open>A loop that adds the length of a part of every element to a counter.\<close>

definition addLengths :: "('a \<Rightarrow> 'b list) \<Rightarrow> 'a list \<Rightarrow> 'w::len word" where
  "addLengths f xs = foldl (\<lambda>n x. n + of_nat (length (f x))) 0 xs"

definition countEnvelopeOperations :: "envelope list \<Rightarrow> u32" where
  "countEnvelopeOperations envelopes = addLengths ev_Operations envelopes"

fun countLedgerContractEvents :: "tx_meta \<Rightarrow> i32" where
  "countLedgerContractEvents (MetaV3 (Some (events, rent)) ops) = of_nat (length events)"
| "countLedgerContractEvents (MetaV3 None ops) = 0"
| "countLedgerContractEvents (MetaV4 soroban ops) = addLengths om_Events ops"
| "countLedgerContractEvents (MetaOther n) = 0"

definition scpValueSignature :: "ledger_header \<Rightarrow> lc_value_signature option" where
  "scpValueSignature h = (case lh_ScpExt h of
     ScpSigned s \<Rightarrow> s | ScpEmptyTxSet p \<Rightarrow> p | _ \<Rightarrow> None)"

text \<open>
  The failed and operation counters over the processed transactions: the operations of a successful
  transaction are those it has results for.
\<close>

definition countApply :: "u32 \<times> u32 \<Rightarrow> tx_apply \<Rightarrow> u32 \<times> u32" where
  "countApply c t = (case c of (failed, ops) \<Rightarrow> (case ta_OperationResults t of
     Some rs \<Rightarrow> if ta_Successful t then (failed, ops + of_nat (length rs)) else (failed + 1, ops)
   | None \<Rightarrow> (failed + 1, ops)))"

definition isSorobanOp :: "operation \<Rightarrow> bool" where
  "isSorobanOp op \<longleftrightarrow> (case op_Body op of
     OpInvokeHostFunction i \<Rightarrow> True | OpExtendFootprintTtl e \<Rightarrow> True | OpRestoreFootprint \<Rightarrow> True | _ \<Rightarrow> False)"

definition sorobanOpCount :: "envelope list \<Rightarrow> i32" where
  "sorobanOpCount envelopes = addLengths (\<lambda>e. filter isSorobanOp (ev_Operations e)) envelopes"

definition totalFeeCharged :: "tx_apply list \<Rightarrow> i64" where
  "totalFeeCharged ts = foldl (\<lambda>n t. n + ta_FeeCharged t) 0 ts"

definition contractEventsCount :: "tx_apply list \<Rightarrow> i32" where
  "contractEventsCount ts = foldl (\<lambda>n t. n + countLedgerContractEvents (ta_Meta t)) 0 ts"

section \<open>The row\<close>

text \<open>The header of a known arm, the V1 or V2 body, and the three transaction counters.\<close>

fun lcmHeader :: "lcm_arm \<Rightarrow> header_entry res" where
  "lcmHeader (LcmV0 v) = Ok (l0_LedgerHeader v)"
| "lcmHeader (LcmV1 v) = Ok (l1_LedgerHeader v)"
| "lcmHeader (LcmV2 v) = Ok (l1_LedgerHeader v)"
| "lcmHeader (LcmOther n) = Err (''unknown LedgerCloseMeta version: '' @ sdec n)"

fun lcmBody :: "lcm_arm \<Rightarrow> lcm_v1 option" where
  "lcmBody (LcmV1 v) = Some v"
| "lcmBody (LcmV2 v) = Some v"
| "lcmBody (LcmV0 v) = None"
| "lcmBody (LcmOther n) = None"

fun lcmCounts :: "lcm_arm \<Rightarrow> u32 \<times> u32 \<times> u32" where
  "lcmCounts (LcmV0 v) = (of_nat (length (l0_TxSet v)), 0, addLengths ev_Operations (l0_TxSet v))"
| "lcmCounts (LcmV1 v) = (case foldl countApply (0, 0) (l1_TxProcessing v) of
     (failed, ops) \<Rightarrow> (of_nat (length (l1_TxProcessing v)), failed, ops))"
| "lcmCounts (LcmV2 v) = (case foldl countApply (0, 0) (l1_TxProcessing v) of
     (failed, ops) \<Rightarrow> (of_nat (length (l1_TxProcessing v)), failed, ops))"
| "lcmCounts (LcmOther n) = (0, 0, 0)"

definition appliedTxs :: "lcm_arm \<Rightarrow> tx_apply list" where
  "appliedTxs arm = (case lcmBody arm of Some v \<Rightarrow> l1_TxProcessing v | None \<Rightarrow> [])"

definition ledgerRow :: "string \<Rightarrow> gotime \<Rightarrow> ledger_input \<Rightarrow> header_entry \<Rightarrow> ledger_row" where
  "ledgerRow version now input entry =
     (let lm = in_LCM input; arm = lcm_Arm lm; header = he_Header entry;
          sig = scpValueSignature header
      in case lcmCounts arm of (txCount, failedCount, operationCount) \<Rightarrow>
     \<lparr>ld_Sequence = in_Sequence input, ld_LedgerHash = hexEncode (he_Hash entry),
      ld_PreviousLedgerHash = hexEncode (lh_PreviousLedgerHash header), ld_ClosedAt = in_ClosedAt input,
      ld_ProtocolVersion = lh_LedgerVersion header, ld_TotalCoins = lh_TotalCoins header,
      ld_FeePool = lh_FeePool header, ld_BaseFee = lh_BaseFee header, ld_BaseReserve = lh_BaseReserve header,
      ld_MaxTxSetSize = lh_MaxTxSetSize header,
      ld_TransactionCount = unat txCount, ld_OperationCount = unat operationCount,
      ld_SuccessfulTxCount = unat (txCount - failedCount), ld_FailedTxCount = unat failedCount,
      ld_TxSetOperationCount = unat (countEnvelopeOperations (lcm_TransactionEnvelopes lm)),
      ld_SorobanFeeWrite1kb = (case lcmBody arm of Some v \<Rightarrow> l1_SorobanFeeWrite1Kb v | None \<Rightarrow> None),
      ld_NodeID = (case sig of Some s \<Rightarrow> map_option base64Encode (vs_NodeEd25519 s) | None \<Rightarrow> None),
      ld_Signature = map_option (\<lambda>s. base64Encode (vs_Signature s)) sig,
      ld_LedgerHeader = map_option base64Encode (okOpt (lh_XDR header)),
      ld_BucketListSize = map_option l1_TotalByteSizeOfLiveSorobanState (lcmBody arm),
      ld_LiveSorobanStateSize = map_option l1_TotalByteSizeOfLiveSorobanState (lcmBody arm),
      ld_EvictedKeysCount = map_option (\<lambda>v. of_nat (length (l1_EvictedKeys v))) (lcmBody arm),
      ld_SorobanOpCount = Some (sorobanOpCount (lcm_TransactionEnvelopes lm)),
      ld_TotalFeeCharged = Some (totalFeeCharged (appliedTxs arm)),
      ld_ContractEventsCount = Some (contractEventsCount (appliedTxs arm)),
      ld_IngestionTimestamp = now, ld_LedgerRange = in_LedgerRange input, ld_PipelineVersion = version,
      ld_EraID = in_EraID input\<rparr>)"

text \<open>A panic while marshalling the header ends the extractor.\<close>

definition extractLedgers :: "string \<Rightarrow> gotime \<Rightarrow> ledger_input \<Rightarrow> ledger_row list res" where
  "extractLedgers version now input =
     bindR (lcmHeader (lcm_Arm (in_LCM input))) (\<lambda>entry.
       if isPanic (lh_XDR (he_Header entry)) then Panic else Ok [ledgerRow version now input entry])"

section \<open>What the counters count\<close>

lemma addLengths_eq: "addLengths f xs = (of_nat (sum_list (map (\<lambda>x. length (f x)) xs)) :: 'w::len word)"
proof -
  have "foldl (\<lambda>n x. n + of_nat (length (f x))) a xs = a + (of_nat (sum_list (map (\<lambda>x. length (f x)) xs)) :: 'w word)" for a
    by (induction xs arbitrary: a) (simp_all add: algebra_simps)
  then show ?thesis by (simp add: addLengths_def)
qed

lemma unat_of_nat32: "n < 2 ^ 32 \<Longrightarrow> unat (of_nat n :: u32) = n"
  by (simp add: unat_of_nat take_bit_nat_eq_self)

text \<open>A transaction counts as successful when it succeeded and has operation results.\<close>

definition countsAsSuccess :: "tx_apply \<Rightarrow> bool" where
  "countsAsSuccess t \<longleftrightarrow> ta_Successful t \<and> ta_OperationResults t \<noteq> None"

definition resultCount :: "tx_apply \<Rightarrow> nat" where
  "resultCount t = (case ta_OperationResults t of Some rs \<Rightarrow> length rs | None \<Rightarrow> 0)"

lemma countApply_eq:
  "countApply (f, n) t = (if countsAsSuccess t then (f, n + of_nat (resultCount t)) else (f + 1, n))"
  by (cases "ta_OperationResults t"; cases "ta_Successful t")
    (simp_all add: countApply_def countsAsSuccess_def resultCount_def)

lemma foldl_countApply:
  "foldl countApply (f, n) ts = (f + of_nat (length (filter (\<lambda>t. \<not> countsAsSuccess t) ts)),
     n + of_nat (sum_list (map resultCount (filter countsAsSuccess ts))))"
proof (induction ts arbitrary: f n)
  case (Cons t ts)
  show ?case
    by (cases "countsAsSuccess t") (simp_all add: Cons.IH countApply_eq algebra_simps)
qed simp

lemma filter_lengths: "length (filter P xs) + length (filter (\<lambda>x. \<not> P x) xs) = length xs"
  by (induction xs) auto

lemma sint_of_nat32: "n < 2 ^ 31 \<Longrightarrow> sint (of_nat n :: i32) = int n"
proof -
  assume "n < 2 ^ 31"
  then have "signed_take_bit 31 (int n) = int n" by (intro signed_take_bit_int_eq_self) simp_all
  moreover have "(of_nat n :: i32) = of_int (int n)" by simp
  ultimately show ?thesis by (simp only: signed_of_int) simp
qed

text \<open>The contract events a transaction's meta records, and the contract operations of an envelope.\<close>

fun metaEvents :: "tx_meta \<Rightarrow> contract_event list" where
  "metaEvents (MetaV3 soroban ops) = (case soroban of Some (events, rent) \<Rightarrow> events | None \<Rightarrow> [])"
| "metaEvents (MetaV4 soroban ops) = concat (map om_Events ops)"
| "metaEvents (MetaOther n) = []"

definition contractOps :: "envelope \<Rightarrow> operation list" where
  "contractOps e = [op \<leftarrow> ev_Operations e. case op_Body op of
     OpInvokeHostFunction i \<Rightarrow> True | OpExtendFootprintTtl x \<Rightarrow> True | OpRestoreFootprint \<Rightarrow> True | b \<Rightarrow> False]"

lemma countLedgerContractEvents_eq: "countLedgerContractEvents m = of_nat (length (metaEvents m))"
  by (cases m rule: countLedgerContractEvents.cases) (simp_all add: addLengths_eq length_concat comp_def)

lemma contractEventsCount_eq: "contractEventsCount ts = of_nat (length (concat (map (\<lambda>t. metaEvents (ta_Meta t)) ts)))"
proof -
  have "foldl (\<lambda>n t. n + countLedgerContractEvents (ta_Meta t)) a ts
      = a + of_nat (length (concat (map (\<lambda>t. metaEvents (ta_Meta t)) ts)))" for a
    by (induction ts arbitrary: a) (simp_all add: countLedgerContractEvents_eq algebra_simps)
  then show ?thesis by (simp add: contractEventsCount_def)
qed

lemma totalFeeCharged_eq: "totalFeeCharged ts = of_int (\<Sum>t \<leftarrow> ts. sint (ta_FeeCharged t))"
proof -
  have "foldl (\<lambda>n t. n + ta_FeeCharged t) a ts = a + of_int (\<Sum>t \<leftarrow> ts. sint (ta_FeeCharged t))" for a
    by (induction ts arbitrary: a) (simp_all add: algebra_simps)
  then show ?thesis by (simp add: totalFeeCharged_def)
qed

lemma sint_of_int64: "- (2 ^ 63) \<le> i \<Longrightarrow> i < 2 ^ 63 \<Longrightarrow> sint (of_int i :: i64) = i"
  by (simp add: signed_of_int signed_take_bit_int_eq_self)

text \<open>The totals of a ledger the counters can hold.\<close>

definition totalsFit :: "ledger_close_meta \<Rightarrow> bool" where
  "totalsFit lm \<longleftrightarrow> (let envs = lcm_TransactionEnvelopes lm; applied = appliedTxs (lcm_Arm lm) in
     length applied < 2 ^ 32 \<and> sum_list (map resultCount applied) < 2 ^ 32
     \<and> (case lcm_Arm lm of LcmV0 v \<Rightarrow> length (l0_TxSet v) < 2 ^ 32
          \<and> sum_list (map (\<lambda>e. length (ev_Operations e)) (l0_TxSet v)) < 2 ^ 32 | a \<Rightarrow> True)
     \<and> sum_list (map (\<lambda>e. length (ev_Operations e)) envs) < 2 ^ 31
     \<and> length (concat (map (\<lambda>t. metaEvents (ta_Meta t)) applied)) < 2 ^ 31
     \<and> (case lcmBody (lcm_Arm lm) of Some v \<Rightarrow> length (l1_EvictedKeys v) < 2 ^ 31 | None \<Rightarrow> True)
     \<and> - (2 ^ 63) \<le> (\<Sum>t \<leftarrow> applied. sint (ta_FeeCharged t)) \<and> (\<Sum>t \<leftarrow> applied. sint (ta_FeeCharged t)) < 2 ^ 63)"

text \<open>The transaction and operation counters, by version.\<close>

definition countedTxs :: "lcm_arm \<Rightarrow> ledger_row \<Rightarrow> bool" where
  "countedTxs arm r \<longleftrightarrow> (case arm of
     LcmV0 v \<Rightarrow> ld_TransactionCount r = length (l0_TxSet v) \<and> ld_SuccessfulTxCount r = length (l0_TxSet v)
       \<and> ld_FailedTxCount r = 0 \<and> ld_OperationCount r = sum_list (map (\<lambda>e. length (ev_Operations e)) (l0_TxSet v))
   | a \<Rightarrow> ld_TransactionCount r = length (appliedTxs a)
       \<and> ld_SuccessfulTxCount r = length (filter countsAsSuccess (appliedTxs a))
       \<and> ld_FailedTxCount r = length (filter (\<lambda>t. \<not> countsAsSuccess t) (appliedTxs a))
       \<and> ld_OperationCount r = sum_list (map resultCount (filter countsAsSuccess (appliedTxs a))))"

lemma sum_list_filter_le: "sum_list (map f (filter P xs)) \<le> (sum_list (map f xs) :: nat)"
  by (induction xs) auto

lemma ledgerRow_countedTxs:
  assumes "totalsFit (in_LCM input)" "lcmHeader (lcm_Arm (in_LCM input)) = Ok entry"
  shows "countedTxs (lcm_Arm (in_LCM input)) (ledgerRow version now input entry)"
proof -
  let ?arm = "lcm_Arm (in_LCM input)" and ?ts = "appliedTxs (lcm_Arm (in_LCM input))"
  let ?ok = "length (filter countsAsSuccess ?ts)" and ?bad = "length (filter (\<lambda>t. \<not> countsAsSuccess t) ?ts)"
  have len: "?ok + ?bad = length ?ts" by (rule filter_lengths)
  have sums: "sum_list (map resultCount (filter countsAsSuccess ?ts)) < 2 ^ 32" "length ?ts < 2 ^ 32"
    using assms(1) sum_list_filter_le [of resultCount countsAsSuccess ?ts] by (auto simp: totalsFit_def Let_def)
  show ?thesis
  proof (cases "lcmBody ?arm")
    case None
    with assms(2) obtain v where v: "?arm = LcmV0 v" by (cases ?arm) auto
    with assms(1) have "length (l0_TxSet v) < 2 ^ 32" "sum_list (map (\<lambda>e. length (ev_Operations e)) (l0_TxSet v)) < 2 ^ 32"
      by (simp_all add: totalsFit_def Let_def)
    then show ?thesis by (simp add: v countedTxs_def ledgerRow_def Let_def addLengths_eq unat_of_nat32)
  next
    case (Some v)
    then have counts: "lcmCounts ?arm = (of_nat (length ?ts), of_nat ?bad, of_nat (sum_list (map resultCount (filter countsAsSuccess ?ts))))"
      by (cases ?arm) (simp_all add: foldl_countApply appliedTxs_def)
    have diff: "(of_nat (length ?ts) :: u32) - of_nat ?bad = of_nat ?ok" by (simp add: len [symmetric])
    have small: "?ok < 2 ^ 32" "?bad < 2 ^ 32" using len sums(2) by linarith+
    have "ld_TransactionCount (ledgerRow version now input entry) = length ?ts"
      "ld_SuccessfulTxCount (ledgerRow version now input entry) = ?ok"
      "ld_FailedTxCount (ledgerRow version now input entry) = ?bad"
      "ld_OperationCount (ledgerRow version now input entry) = sum_list (map resultCount (filter countsAsSuccess ?ts))"
      using unat_of_nat32 [OF sums(1)] unat_of_nat32 [OF sums(2)] unat_of_nat32 [OF small(1)] unat_of_nat32 [OF small(2)]
      by (simp_all add: ledgerRow_def Let_def counts diff)
    with Some show ?thesis by (cases ?arm) (simp_all add: countedTxs_def)
  qed
qed

lemma sorobanOpCount_eq: "sorobanOpCount envs = of_nat (length (concat (map contractOps envs)))"
proof -
  have "filter isSorobanOp (ev_Operations e) = contractOps e" for e
    unfolding contractOps_def isSorobanOp_def [abs_def] by (rule filter_cong [OF refl]) simp
  then show ?thesis by (simp add: sorobanOpCount_def addLengths_eq length_concat comp_def)
qed

text \<open>
  C26: every counter of the row counts what it names, when the totals fit their columns.  On a ledger of version 1 or
  2 the transactions are the processed ones, split into successful and failed ones, and the operations those with
  results in the successful ones; on a ledger of version 0 all transactions of the set count as successful and the
  operations are the declared ones.  Declared and contract operations come from every envelope of the set, contract
  events from the meta of every processed transaction, failed ones included, and the fee is the sum of their fees.
\<close>

theorem ledger_counts:
  assumes "extractLedgers version now input = Ok rows" "totalsFit (in_LCM input)"
  shows "\<exists>r. rows = [r] \<and> countedTxs (lcm_Arm (in_LCM input)) r
    \<and> ld_SuccessfulTxCount r + ld_FailedTxCount r = ld_TransactionCount r
    \<and> ld_TxSetOperationCount r = sum_list (map (\<lambda>e. length (ev_Operations e)) (lcm_TransactionEnvelopes (in_LCM input)))
    \<and> map_option sint (ld_SorobanOpCount r)
        = Some (int (length (concat (map contractOps (lcm_TransactionEnvelopes (in_LCM input))))))
    \<and> map_option sint (ld_EvictedKeysCount r)
        = map_option (\<lambda>v. int (length (l1_EvictedKeys v))) (lcmBody (lcm_Arm (in_LCM input)))
    \<and> map_option sint (ld_TotalFeeCharged r) = Some (\<Sum>t \<leftarrow> appliedTxs (lcm_Arm (in_LCM input)). sint (ta_FeeCharged t))
    \<and> map_option sint (ld_ContractEventsCount r)
        = Some (int (length (concat (map (\<lambda>t. metaEvents (ta_Meta t)) (appliedTxs (lcm_Arm (in_LCM input)))))))"
proof -
  let ?lm = "in_LCM input"
  let ?envs = "lcm_TransactionEnvelopes ?lm" and ?ts = "appliedTxs (lcm_Arm ?lm)"
  from assms(1) obtain entry where h: "lcmHeader (lcm_Arm ?lm) = Ok entry" and rows: "rows = [ledgerRow version now input entry]"
    by (auto simp: extractLedgers_def bindR_Ok_iff split: if_splits)
  let ?r = "ledgerRow version now input entry"
  have counted: "countedTxs (lcm_Arm ?lm) ?r" by (rule ledgerRow_countedTxs [OF assms(2) h])
  have split: "ld_SuccessfulTxCount ?r + ld_FailedTxCount ?r = ld_TransactionCount ?r"
    using counted filter_lengths by (cases "lcm_Arm ?lm") (simp_all add: countedTxs_def)
  have ops: "sum_list (map (\<lambda>e. length (ev_Operations e)) ?envs) < 2 ^ 31"
    and ev: "length (concat (map (\<lambda>t. metaEvents (ta_Meta t)) ?ts)) < 2 ^ 31"
    and fee: "- (2 ^ 63) \<le> (\<Sum>t \<leftarrow> ?ts. sint (ta_FeeCharged t))" "(\<Sum>t \<leftarrow> ?ts. sint (ta_FeeCharged t)) < 2 ^ 63"
    and keys: "\<And>v. lcmBody (lcm_Arm ?lm) = Some v \<Longrightarrow> length (l1_EvictedKeys v) < 2 ^ 31"
    using assms(2) by (simp_all add: totalsFit_def Let_def)
  have "length (concat (map contractOps es)) \<le> sum_list (map (\<lambda>e. length (ev_Operations e)) es)" for es
    by (induction es) (auto simp: contractOps_def intro: add_mono)
  then have cops: "length (concat (map contractOps ?envs)) < 2 ^ 31" using ops le_less_trans by blast
  have fields: "ld_TxSetOperationCount ?r = unat (countEnvelopeOperations ?envs)"
    "ld_SorobanOpCount ?r = Some (sorobanOpCount ?envs)"
    "ld_EvictedKeysCount ?r = map_option (\<lambda>v. of_nat (length (l1_EvictedKeys v))) (lcmBody (lcm_Arm ?lm))"
    "ld_TotalFeeCharged ?r = Some (totalFeeCharged ?ts)" "ld_ContractEventsCount ?r = Some (contractEventsCount ?ts)"
    by (simp_all add: ledgerRow_def Let_def split: prod.split)
  have set: "unat (countEnvelopeOperations ?envs) = sum_list (map (\<lambda>e. length (ev_Operations e)) ?envs)"
    unfolding countEnvelopeOperations_def addLengths_eq using ops by (intro unat_of_nat32) simp
  have evicted: "map_option sint (map_option (\<lambda>v. of_nat (length (l1_EvictedKeys v)) :: i32) (lcmBody (lcm_Arm ?lm)))
      = map_option (\<lambda>v. int (length (l1_EvictedKeys v))) (lcmBody (lcm_Arm ?lm))"
    using keys sint_of_nat32 by (cases "lcmBody (lcm_Arm ?lm)") simp_all
  show ?thesis
    by (rule exI [of _ ?r])
      (simp only: rows counted split fields set evicted sorobanOpCount_eq contractEventsCount_eq totalFeeCharged_eq
        option.map sint_of_nat32 [OF cops] sint_of_nat32 [OF ev] sint_of_int64 [OF fee])
qed

definition demoHeader :: header_entry where
  "demoHeader = \<lparr>he_Hash = [1], he_Header = \<lparr>lh_PreviousLedgerHash = [0], lh_LedgerVersion = 23, lh_TotalCoins = 0,
     lh_FeePool = 0, lh_BaseFee = 100, lh_BaseReserve = 5000000, lh_MaxTxSetSize = 1000, lh_ScpExt = ScpBasic,
     lh_XDR = Ok [1, 2]\<rparr>\<rparr>"

definition demoApply :: "op_result list option \<Rightarrow> bool \<Rightarrow> tx_apply" where
  "demoApply rs ok = \<lparr>ta_OperationResults = rs, ta_Successful = ok, ta_FeeCharged = 100, ta_Meta = MetaOther 0\<rparr>"

definition demoBody :: lcm_v1 where
  "demoBody = \<lparr>l1_LedgerHeader = demoHeader,
     l1_TxProcessing = [demoApply (Some [OrCode 0, OrCode 0]) True, demoApply None False, demoApply (Some [OrCode 1]) False],
     l1_SorobanFeeWrite1Kb = None, l1_TotalByteSizeOfLiveSorobanState = 7, l1_EvictedKeys = []\<rparr>"

definition demoLedger :: ledger_input where
  "demoLedger = newLedgerInput (demoLcm\<lparr>lcm_Arm := LcmV2 demoBody,
     lcm_TransactionEnvelopes := [\<lparr>ev_Operations = [\<lparr>op_SourceAccount = None, op_Body = OpInflation\<rparr>]\<rparr>]\<rparr>)
     ''passphrase'' (Ok []) (Ok [])"

theorem ledger_counts_witness:
  "\<exists>r. extractLedgers ''dev'' 0 demoLedger = Ok [r] \<and> ld_TransactionCount r = 3 \<and> ld_SuccessfulTxCount r = 1
    \<and> ld_FailedTxCount r = 2 \<and> ld_OperationCount r = 2 \<and> ld_TxSetOperationCount r = 1
    \<and> map_option sint (ld_TotalFeeCharged r) = Some 300 \<and> map_option sint (ld_EvictedKeysCount r) = Some 0"
proof -
  have "mapR length (extractLedgers ''dev'' 0 demoLedger) = Ok 1" by code_simp
  then obtain rows where rows: "extractLedgers ''dev'' 0 demoLedger = Ok rows" by (auto simp: mapR_Ok_iff)
  have arm: "lcm_Arm (in_LCM demoLedger) = LcmV2 demoBody"
    by (simp add: demoLedger_def newLedgerInput_def Let_def)
  have facts: "length (l1_TxProcessing demoBody) = 3" "length (filter countsAsSuccess (l1_TxProcessing demoBody)) = 1"
    "length (filter (\<lambda>t. \<not> countsAsSuccess t) (l1_TxProcessing demoBody)) = 2"
    "sum_list (map resultCount (filter countsAsSuccess (l1_TxProcessing demoBody))) = 2"
    "sum_list (map (\<lambda>e. length (ev_Operations e)) (lcm_TransactionEnvelopes (in_LCM demoLedger))) = 1"
    by code_simp+
  have fees: "(\<Sum>t \<leftarrow> l1_TxProcessing demoBody. sint (ta_FeeCharged t)) = 300" "length (l1_EvictedKeys demoBody) = 0"
    by (simp_all add: demoBody_def demoApply_def)
  have "totalsFit (in_LCM demoLedger)"
    unfolding totalsFit_def Let_def arm using facts(5) fees
    by (simp add: appliedTxs_def) (simp add: demoBody_def demoApply_def resultCount_def)
  from ledger_counts [OF rows this] rows show ?thesis
    by (auto simp: arm countedTxs_def appliedTxs_def facts fees)
qed

end
