(* ===== verification/TokenTransfers.thy ===== *)
theory TokenTransfers
  imports Sdk Input
begin

text \<open>
  \<open>token_transfers.go\<close>: a row per token transfer event.  The events are what the SDK's
  \<open>EventsFromLedger\<close> returns for the ledger, an argument here; \<open>VerifyEvents\<close> only logs and is left out.
  The floating-point amount, \<open>ParseFloat(amount) * 0.0000001\<close>, is given by the argument
  \<open>toFloat\<close>, of a type the model leaves open.
\<close>

section \<open>Events\<close>

datatype token_event_kind =
    TtTransfer string string string  \<comment> \<open>From, To, Amount\<close>
  | TtMint string string  \<comment> \<open>To, Amount\<close>
  | TtBurn string string  \<comment> \<open>From, Amount\<close>
  | TtClawback string string
  | TtFee string string
  | TtOther

datatype token_asset = TaNative | TaIssued string string | TaNone  \<comment> \<open>code and issuer\<close>

record token_meta =
  tm_TxHash :: string
  tm_TransactionIndex :: u32
  tm_OperationIndex :: "u32 option"
  tm_ContractAddress :: string

record token_event =
  te_Kind :: token_event_kind
  te_EventType :: string
  te_Asset :: token_asset
  te_Meta :: "token_meta option"

record 'f token_transfer_data =
  tf_LedgerSequence :: u32
  tf_TransactionHash :: string
  tf_TransactionID :: i64
  tf_OperationID :: "i64 option"
  tf_OperationIndex :: "i32 option"
  tf_EventIndex :: u32
  tf_EventType :: string
  tf_From :: "string option"
  tf_To :: "string option"
  tf_Asset :: string
  tf_AssetType :: string
  tf_AssetCode :: "string option"
  tf_AssetIssuer :: "string option"
  tf_Amount :: 'f
  tf_AmountRaw :: string
  tf_ContractID :: string
  tf_ClosedAt :: gotime
  tf_CreatedAt :: gotime
  tf_LedgerRange :: u32
  tf_EraID :: "string option"

section \<open>Rows\<close>

definition strPtr :: "string \<Rightarrow> string option" where
  "strPtr s = (if s = [] then None else Some s)"

text \<open>From, to and amount of a known event.\<close>

fun transferParties :: "token_event_kind \<Rightarrow> (string option \<times> string option \<times> string) option" where
  "transferParties (TtTransfer f t a) = Some (strPtr f, strPtr t, a)"
| "transferParties (TtMint t a) = Some (None, strPtr t, a)"
| "transferParties (TtBurn f a) = Some (strPtr f, None, a)"
| "transferParties (TtClawback f a) = Some (strPtr f, None, a)"
| "transferParties (TtFee f a) = Some (strPtr f, None, a)"
| "transferParties TtOther = None"

text \<open>Canonical name, type, code and issuer.\<close>

fun assetFromEvent :: "token_asset \<Rightarrow> string \<times> string \<times> string option \<times> string option" where
  "assetFromEvent TaNative = (''native'', ''native'', None, None)"
| "assetFromEvent (TaIssued code issuer) =
     (let ty = (if length code > 4 then ''credit_alphanum12'' else ''credit_alphanum4'')
      in (ty @ '':'' @ code @ '':'' @ issuer, ty, Some code, Some issuer))"
| "assetFromEvent TaNone = (''unknown'', ''unknown'', None, None)"

text \<open>The counter of a transaction's events, zero for a hash not seen before.\<close>

definition eventCounter :: "(string, u32) gomap \<Rightarrow> string \<Rightarrow> u32" where
  "eventCounter m h = (case gmGet m h of Some n \<Rightarrow> n | None \<Rightarrow> 0)"

definition operationId :: "sdk \<Rightarrow> ledger_input \<Rightarrow> token_meta \<Rightarrow> i64 option res" where
  "operationId E input meta = (case tm_OperationIndex meta of
     None \<Rightarrow> Ok None
   | Some i \<Rightarrow> mapR Some (toidInt64 E (in_Sequence input) (tm_TransactionIndex meta) i))"

definition transferRow ::
    "sdk \<Rightarrow> (string \<Rightarrow> 'f) \<Rightarrow> gotime \<Rightarrow> ledger_input \<Rightarrow> token_event \<Rightarrow> token_meta \<Rightarrow> u32 \<Rightarrow>
     string option \<times> string option \<times> string \<Rightarrow> 'f token_transfer_data res" where
  "transferRow E toFloat now input ev meta index parties = (case parties of (from, to, amount) \<Rightarrow>
     bindR (toidInt64 E (in_Sequence input) (tm_TransactionIndex meta) 0) (\<lambda>txId.
     bindR (operationId E input meta) (\<lambda>opId.
     case assetFromEvent (te_Asset ev) of (asset, ty, code, issuer) \<Rightarrow>
     Ok \<lparr>tf_LedgerSequence = in_Sequence input, tf_TransactionHash = tm_TxHash meta,
      tf_TransactionID = txId, tf_OperationID = opId, tf_OperationIndex = tm_OperationIndex meta,
      tf_EventIndex = index, tf_EventType = te_EventType ev, tf_From = from, tf_To = to,
      tf_Asset = asset, tf_AssetType = ty, tf_AssetCode = code, tf_AssetIssuer = issuer,
      tf_Amount = toFloat amount, tf_AmountRaw = amount, tf_ContractID = tm_ContractAddress meta,
      tf_ClosedAt = in_ClosedAt input, tf_CreatedAt = now, tf_LedgerRange = in_LedgerRange input,
      tf_EraID = in_EraID input\<rparr>)))"

text \<open>The event loop, over the map of counters; an unknown event takes no number.\<close>

fun transferLoop ::
    "sdk \<Rightarrow> (string \<Rightarrow> 'f) \<Rightarrow> (nat \<Rightarrow> gotime) \<Rightarrow> ledger_input \<Rightarrow> (string, u32) gomap \<Rightarrow> nat \<Rightarrow>
     token_event list \<Rightarrow> 'f token_transfer_data list res" where
  "transferLoop E toFloat now input m i [] = Ok []"
| "transferLoop E toFloat now input m i (ev # evs) = (case transferParties (te_Kind ev) of
     None \<Rightarrow> transferLoop E toFloat now input m (Suc i) evs
   | Some parties \<Rightarrow> (case te_Meta ev of
       None \<Rightarrow> Panic
     | Some meta \<Rightarrow>
         let index = eventCounter m (tm_TxHash meta);
             m' = gmPut (tm_TxHash meta) (index + 1) m
         in bindR (transferRow E toFloat (now i) input ev meta index parties) (\<lambda>row.
            mapR (Cons row) (transferLoop E toFloat now input m' (Suc i) evs))))"

definition extractTokenTransfers ::
    "sdk \<Rightarrow> (string \<Rightarrow> 'f) \<Rightarrow> (nat \<Rightarrow> gotime) \<Rightarrow> ledger_input \<Rightarrow> token_event list res \<Rightarrow>
     'f token_transfer_data list res" where
  "extractTokenTransfers E toFloat now input events = (case events of
     Err e \<Rightarrow> Err (''failed to extract token transfer events: '' @ e) | Panic \<Rightarrow> Panic
   | Ok evs \<Rightarrow> transferLoop E toFloat now input gmEmpty 0 evs)"

section \<open>The event index identifies a row\<close>

lemma distinct_by_groups:
  assumes "\<And>h. distinct (map g (filter (\<lambda>x. f x = h) xs))"
  shows "distinct (map (\<lambda>x. (f x, g x)) xs)"
  using assms
proof (induction xs)
  case (Cons x xs)
  have "distinct (map g (filter (\<lambda>y. f y = h) xs))" for h
    using Cons.prems [of h] by (auto split: if_splits)
  moreover have "(f x, g x) \<noteq> (f y, g y)" if "y \<in> set xs" for y
    using Cons.prems [of "f x"] that by auto
  ultimately show ?case using Cons.IH by auto
qed simp

abbreviation ofTx :: "string \<Rightarrow> 'f token_transfer_data \<Rightarrow> bool" where
  "ofTx h \<equiv> \<lambda>r. tf_TransactionHash r = h"

lemma transferRow_fields:
  assumes "transferRow E toFloat now input ev meta index parties = Ok row"
  shows "tf_TransactionHash row = tm_TxHash meta" "tf_EventIndex row = index" "tf_EventType row = te_EventType ev"
  using assms by (cases parties; cases "assetFromEvent (te_Asset ev)"; auto simp: transferRow_def bindR_Ok_iff)+

lemma transferLoop_index:
  assumes "transferLoop E toFloat now input m i evs = Ok rows" "gmInv m"
    and "unat (eventCounter m h) + length evs < 2 ^ 32"
  shows "numberedFrom (\<lambda>r. unat (tf_EventIndex r)) (unat (eventCounter m h)) (filter (ofTx h) rows)"
  using assms
proof (induction evs arbitrary: m i rows)
  case Nil
  then show ?case by simp
next
  case (Cons ev evs)
  show ?case
  proof (cases "transferParties (te_Kind ev)")
    case None
    with Cons.prems show ?thesis by (intro Cons.IH [of m "Suc i"]) auto
  next
    case (Some parties)
    with Cons.prems obtain meta row rest where meta: "te_Meta ev = Some meta"
      and row: "transferRow E toFloat (now i) input ev meta (eventCounter m (tm_TxHash meta)) parties = Ok row"
      and rest: "transferLoop E toFloat now input
        (gmPut (tm_TxHash meta) (eventCounter m (tm_TxHash meta) + 1) m) (Suc i) evs = Ok rest"
      and rows: "rows = row # rest"
      by (auto simp: Let_def bindR_Ok_iff mapR_Ok_iff split: option.splits)
    let ?m = "gmPut (tm_TxHash meta) (eventCounter m (tm_TxHash meta) + 1) m"
    note fields = transferRow_fields [OF row]
    show ?thesis
    proof (cases "tm_TxHash meta = h")
      case True
      have c: "eventCounter ?m h = eventCounter m h + 1"
        using Cons.prems(2) True by (simp add: eventCounter_def)
      have "unat (eventCounter m h + 1) = unat (eventCounter m h) + 1"
        using Cons.prems(3) by (simp add: unat_word_ariths)
      then show ?thesis using Cons.IH [OF rest] Cons.prems(2,3) True fields by (simp add: c [unfolded True] rows)
    next
      case False
      have c: "eventCounter ?m h = eventCounter m h"
        using Cons.prems(2) False by (simp add: eventCounter_def)
      show ?thesis
        using Cons.IH [OF rest] Cons.prems(2,3) False fields by (simp add: c rows)
    qed
  qed
qed

lemma transferLoop_types:
  assumes "transferLoop E toFloat now input m i evs = Ok rows"
  shows "map tf_EventType rows = map te_EventType (filter (\<lambda>ev. te_Kind ev \<noteq> TtOther) evs)"
  using assms
proof (induction evs arbitrary: m i rows)
  case (Cons ev evs)
  show ?case
  proof (cases "transferParties (te_Kind ev)")
    case None
    then have "te_Kind ev = TtOther" by (cases "te_Kind ev") auto
    with Cons None show ?thesis by auto
  next
    case (Some parties)
    then have "te_Kind ev \<noteq> TtOther" by auto
    with Some Cons show ?thesis
      by (auto simp: Let_def bindR_Ok_iff mapR_Ok_iff transferRow_fields(3) split: option.splits)
  qed
qed simp

text \<open>
  C35: every known event of the ledger gives one row, in event order, and the rows of a transaction are
  numbered 0, 1, 2 and so on: transaction hash and event index identify a row.
\<close>

theorem token_transfer_index:
  assumes "extractTokenTransfers E toFloat now input (Ok evs) = Ok rows" "length evs < 2 ^ 32"
  shows "map tf_EventType rows = map te_EventType (filter (\<lambda>ev. te_Kind ev \<noteq> TtOther) evs)
    \<and> (\<forall>h. numberedFrom (\<lambda>r. unat (tf_EventIndex r)) 0 (filter (ofTx h) rows))
    \<and> distinct (map (\<lambda>r. (tf_TransactionHash r, tf_EventIndex r)) rows)"
proof -
  have loop: "transferLoop E toFloat now input gmEmpty 0 evs = Ok rows"
    using assms(1) by (simp add: extractTokenTransfers_def)
  have idx: "numberedFrom (\<lambda>r. unat (tf_EventIndex r)) 0 (filter (ofTx h) rows)" for h
    using transferLoop_index [OF loop, of h] assms(2) by (simp add: eventCounter_def)
  have "distinct (map (\<lambda>r. (tf_TransactionHash r, tf_EventIndex r)) rows)"
  proof (rule distinct_by_groups)
    fix h
    show "distinct (map tf_EventIndex (filter (\<lambda>r. tf_TransactionHash r = h) rows))"
      using numberedFrom_distinct [OF idx] by (auto simp: distinct_map inj_on_def)
  qed
  with idx transferLoop_types [OF loop] show ?thesis by blast
qed

definition demoTransfer :: "string \<Rightarrow> token_event_kind \<Rightarrow> token_event" where
  "demoTransfer h k = \<lparr>te_Kind = k, te_EventType = ''transfer'', te_Asset = TaIssued ''USDC'' ''GI'',
     te_Meta = Some \<lparr>tm_TxHash = h, tm_TransactionIndex = 1, tm_OperationIndex = None, tm_ContractAddress = ''C''\<rparr>\<rparr>"

theorem token_transfer_index_witness:
  "\<exists>rows. extractTokenTransfers demoSdk (\<lambda>a. length a) (\<lambda>i. int i) (demoTxs [])
      (Ok [demoTransfer ''a'' (TtMint ''G'' ''5''), demoTransfer ''b'' (TtFee ''G'' ''1''), demoTransfer ''a'' TtOther,
        demoTransfer ''a'' (TtMint ''G'' ''5'')]) = Ok rows
    \<and> length rows = 3 \<and> distinct (map (\<lambda>r. (tf_TransactionHash r, tf_EventIndex r)) rows)"
proof -
  let ?evs = "[demoTransfer ''a'' (TtMint ''G'' ''5''), demoTransfer ''b'' (TtFee ''G'' ''1''), demoTransfer ''a'' TtOther,
        demoTransfer ''a'' (TtMint ''G'' ''5'')]"
  have "mapR length (extractTokenTransfers demoSdk (\<lambda>a. length a) (\<lambda>i. int i) (demoTxs []) (Ok ?evs)) = Ok 3"
    by code_simp
  then obtain rows where "extractTokenTransfers demoSdk (\<lambda>a. length a) (\<lambda>i. int i) (demoTxs []) (Ok ?evs) = Ok rows"
    "length rows = 3" by (auto simp: mapR_Ok_iff)
  then show ?thesis using token_transfer_index [of demoSdk "\<lambda>a. length a" "\<lambda>i. int i" "demoTxs []" ?evs] by auto
qed

end
