(* ===== verification/Archival.thy ===== *)
theory Archival
  imports Sdk Input Sha256
begin

text \<open>
  \<open>evicted_keys.go\<close> and the restored keys of \<open>soroban.go\<close>: the ledger keys state archival evicts, and
  the entries the ledger's changes restore.
\<close>

section \<open>Evicted keys\<close>

record evicted_key_data =
  ek_KeyHash :: string
  ek_LedgerSequence :: u32
  ek_ContractID :: string
  ek_KeyType :: string
  ek_Durability :: string
  ek_ClosedAt :: gotime
  ek_LedgerRange :: u32
  ek_CreatedAt :: gotime
  ek_EraID :: "string option"

text \<open>The hex SHA-256 both tables use.\<close>

definition hashHex :: "byte list \<Rightarrow> string" where
  "hashHex bs = hexEncode (sha256 bs)"

text \<open>
  Contract id and key type of a key.  A marshalled part is used when it marshals to at least one byte; the
  contract id of a data key is a hash of the whole address.
\<close>

definition usable :: "byte list res \<Rightarrow> byte list option res" where
  "usable r = (case r of Ok bs \<Rightarrow> Ok (if bs = [] then None else Some bs) | Err e \<Rightarrow> Ok None | Panic \<Rightarrow> Panic)"

fun evictedIdType :: "sdk \<Rightarrow> ledger_key \<Rightarrow> (string \<times> string) res" where
  "evictedIdType E (KeyContractData None) = Ok ([], ''ContractData'')"
| "evictedIdType E (KeyContractData (Some (contract, key, durability))) =
     bindR (usable (marshalScAddress E contract)) (\<lambda>c.
     bindR (usable (marshalScVal E key)) (\<lambda>k.
     Ok (case c of Some bs \<Rightarrow> hashHex bs | None \<Rightarrow> [],
         case k of Some bs \<Rightarrow> scvTypeString E (scvType key) | None \<Rightarrow> ''ContractData'')))"
| "evictedIdType E (KeyContractCode None) = Ok ([], ''ContractCode'')"
| "evictedIdType E (KeyContractCode (Some h)) =
     mapR (\<lambda>b. (case b of Some bs \<Rightarrow> hexEncode bs | None \<Rightarrow> [], ''ContractCode'')) (usable (marshalHash E h))"
| "evictedIdType E (KeyTtl h) = Ok ([], entryTypeString E ETtl)"
| "evictedIdType E (KeyOther t) = Ok ([], entryTypeString E t)"

text \<open>Nil when the key cannot be marshalled.\<close>

definition extractEvictedKeyData ::
    "sdk \<Rightarrow> gotime \<Rightarrow> ledger_input \<Rightarrow> string \<Rightarrow> ledger_key \<Rightarrow> evicted_key_data option res" where
  "extractEvictedKeyData E now input durability key = (case marshalLedgerKey E key of
     Err e \<Rightarrow> Ok None | Panic \<Rightarrow> Panic
   | Ok bs \<Rightarrow> mapR (\<lambda>(contractID, keyType). Some
      \<lparr>ek_KeyHash = hashHex bs, ek_LedgerSequence = in_Sequence input, ek_ContractID = contractID,
       ek_KeyType = keyType, ek_Durability = durability, ek_ClosedAt = in_ClosedAt input,
       ek_LedgerRange = in_LedgerRange input, ek_CreatedAt = now, ek_EraID = in_EraID input\<rparr>)
      (evictedIdType E key))"

definition evictedStep ::
    "sdk \<Rightarrow> (nat \<Rightarrow> gotime) \<Rightarrow> ledger_input \<Rightarrow> nat \<times> ledger_key \<Rightarrow> (string \<times> evicted_key_data) list res" where
  "evictedStep E now input ik = (case ik of (i, key) \<Rightarrow>
     mapR (\<lambda>d. case d of None \<Rightarrow> [] | Some r \<Rightarrow> [(ek_KeyHash r, r)])
       (extractEvictedKeyData E (now i) input ''unknown'' key))"

text \<open>The keys of the two versions that have them; none for another.\<close>

fun evictedKeys :: "lcm_arm \<Rightarrow> ledger_key list option" where
  "evictedKeys (LcmV1 v) = Some (l1_EvictedKeys v)"
| "evictedKeys (LcmV2 v) = Some (l1_EvictedKeys v)"
| "evictedKeys (LcmV0 v) = None"
| "evictedKeys (LcmOther n) = None"

definition extractEvictedKeys :: "sdk \<Rightarrow> (nat \<Rightarrow> gotime) \<Rightarrow> ledger_input \<Rightarrow> evicted_key_data list res" where
  "extractEvictedKeys E now input = (case evictedKeys (lcm_Arm (in_LCM input)) of
     None \<Rightarrow> Ok []
   | Some keys \<Rightarrow> collectRows (evictedStep E now input) (enumerate 0 keys))"

section \<open>Restored keys\<close>

record restored_key_data =
  rk_KeyHash :: string
  rk_LedgerSequence :: u32
  rk_ContractID :: string
  rk_KeyType :: string
  rk_Durability :: string
  rk_RestoredFromLedger :: u32
  rk_ClosedAt :: gotime
  rk_LedgerRange :: u32
  rk_CreatedAt :: gotime
  rk_EraID :: "string option"

fun restoredEntryDurability :: "ledger_key \<Rightarrow> string" where
  "restoredEntryDurability (KeyContractData (Some (c, k, DurPersistent))) = ''persistent''"
| "restoredEntryDurability (KeyContractData (Some (c, k, DurTemporary))) = ''temporary''"
| "restoredEntryDurability (KeyContractData d) = ''unknown''"
| "restoredEntryDurability (KeyContractCode h) = ''persistent''"
| "restoredEntryDurability (KeyTtl h) = ''persistent''"
| "restoredEntryDurability (KeyOther t) = ''unknown''"

text \<open>Here the contract id of a data key is the contract's own, empty for another kind of address.\<close>

definition contractIdOf :: "sc_address \<Rightarrow> hash option" where
  "contractIdOf a = (case a of AddrContract c \<Rightarrow> c | _ \<Rightarrow> None)"

definition hexIfOk :: "byte list res \<Rightarrow> string res" where
  "hexIfOk r = (case r of Ok bs \<Rightarrow> Ok (hexEncode bs) | Err e \<Rightarrow> Ok [] | Panic \<Rightarrow> Panic)"

fun restoredIdType :: "sdk \<Rightarrow> ledger_key \<Rightarrow> (string \<times> string) res" where
  "restoredIdType E (KeyContractData None) = Ok ([], ''ContractData'')"
| "restoredIdType E (KeyContractData (Some (contract, key, durability))) =
     mapR (\<lambda>i. (i, scvTypeString E (scvType key)))
       (case contractIdOf contract of Some c \<Rightarrow> hexIfOk (marshalHash E c) | None \<Rightarrow> Ok [])"
| "restoredIdType E (KeyContractCode None) = Ok ([], ''ContractCode'')"
| "restoredIdType E (KeyContractCode (Some h)) = mapR (\<lambda>i. (i, ''ContractCode'')) (hexIfOk (marshalHash E h))"
| "restoredIdType E (KeyTtl h) = Ok ([], entryTypeString E ETtl)"
| "restoredIdType E (KeyOther t) = Ok ([], entryTypeString E t)"

definition extractRestoredKeyData ::
    "sdk \<Rightarrow> gotime \<Rightarrow> ledger_input \<Rightarrow> string \<Rightarrow> u32 \<Rightarrow> ledger_key \<Rightarrow> restored_key_data option res" where
  "extractRestoredKeyData E now input durability restoredFrom key = (case marshalLedgerKey E key of
     Err e \<Rightarrow> Ok None | Panic \<Rightarrow> Panic
   | Ok bs \<Rightarrow> mapR (\<lambda>(contractID, keyType). Some
      \<lparr>rk_KeyHash = hashHex bs, rk_LedgerSequence = in_Sequence input, rk_ContractID = contractID,
       rk_KeyType = keyType, rk_Durability = durability, rk_RestoredFromLedger = restoredFrom,
       rk_ClosedAt = in_ClosedAt input, rk_LedgerRange = in_LedgerRange input, rk_CreatedAt = now,
       rk_EraID = in_EraID input\<rparr>)
      (restoredIdType E key))"

text \<open>Only a change of type restored, read from its new state; its key is derived by the SDK.\<close>

definition restoredEntry :: "change \<Rightarrow> ledger_entry option" where
  "restoredEntry ch = (if ch_ChangeType ch = ChRestored then ch_Post ch else None)"

definition restoredStep ::
    "sdk \<Rightarrow> (nat \<Rightarrow> gotime) \<Rightarrow> ledger_input \<Rightarrow> nat \<times> change \<Rightarrow> (string \<times> restored_key_data) list res" where
  "restoredStep E now input ic = (case ic of (i, ch) \<Rightarrow> (case restoredEntry ch of
     None \<Rightarrow> Ok []
   | Some le \<Rightarrow> (case entryLedgerKey E le of
       Err e \<Rightarrow> Ok [] | Panic \<Rightarrow> Panic
     | Ok key \<Rightarrow> mapR (\<lambda>d. case d of None \<Rightarrow> [] | Some r \<Rightarrow> [(rk_KeyHash r, r)])
         (extractRestoredKeyData E (now i) input (restoredEntryDurability key) (le_LastModified le) key))))"

definition extractRestoredKeys :: "sdk \<Rightarrow> (nat \<Rightarrow> gotime) \<Rightarrow> ledger_input \<Rightarrow> restored_key_data list res" where
  "extractRestoredKeys E now input = (case in_Changes input of
     Err e \<Rightarrow> Ok [] | Panic \<Rightarrow> Panic
   | Ok changes \<Rightarrow> collectRows (restoredStep E now input) (enumerate 0 changes))"

section \<open>What the tables hold\<close>

lemma restoredStep_keys: "restoredStep E now input ic = Ok kvs \<Longrightarrow> (k, r) \<in> set kvs \<Longrightarrow> k = rk_KeyHash r"
  by (auto simp: restoredStep_def mapR_Ok_iff split: prod.splits option.splits res.splits)

lemma restoredIdType_not_Err: "restoredIdType E key \<noteq> Err e"
  by (cases "(E, key)" rule: restoredIdType.cases) (auto simp: hexIfOk_def split: option.splits res.splits)

lemma restoredStep_not_Err: "restoredStep E now input ic \<noteq> Err e"
proof -
  have "extractRestoredKeyData E t input d l key \<noteq> Err e" for t d l key
    using restoredIdType_not_Err [of E key]
    by (cases "restoredIdType E key") (auto simp: extractRestoredKeyData_def split: res.splits)
  then have m: "mapR f (extractRestoredKeyData E t input d l key) \<noteq> Err e" for f t d l key
    by (cases "extractRestoredKeyData E t input d l key") auto
  show ?thesis
    by (auto simp: restoredStep_def m split: prod.splits option.splits res.splits)
qed

interpretation restored: keyed_writes "restoredStep E now input" "\<lambda>ic. restoredStep E now input ic \<noteq> Panic"
  "writtenRows (restoredStep E now input)" rk_KeyHash for E now input
  by (rule keyed_writesI [OF restoredStep_not_Err restoredStep_keys])

lemma restoredRows_iff:
  assumes "restoredStep E now input (i, ch) \<noteq> Panic"
  shows "(\<exists>r \<in> set (writtenRows (restoredStep E now input) (i, ch)). rk_KeyHash r = h) \<longleftrightarrow> (\<exists>le key bs.
    restoredEntry ch = Some le \<and> entryLedgerKey E le = Ok key \<and> marshalLedgerKey E key = Ok bs \<and> h = hashHex bs)"
proof (cases "restoredEntry ch")
  case None
  then show ?thesis by (simp add: writtenRows_def restoredStep_def)
next
  case (Some le)
  show ?thesis
  proof (cases "entryLedgerKey E le")
    case (Ok key)
    show ?thesis
    proof (cases "marshalLedgerKey E key")
      case (Ok bs)
      with assms Some \<open>entryLedgerKey E le = Ok key\<close> obtain it where "restoredIdType E key = Ok it"
        using restoredIdType_not_Err [of E key]
        by (cases "restoredIdType E key") (auto simp: restoredStep_def extractRestoredKeyData_def)
      with Ok Some \<open>entryLedgerKey E le = Ok key\<close> show ?thesis
        by (cases it) (auto simp: writtenRows_def restoredStep_def extractRestoredKeyData_def)
    qed (use Some Ok assms in \<open>auto simp: writtenRows_def restoredStep_def extractRestoredKeyData_def\<close>)
  qed (use Some assms in \<open>auto simp: writtenRows_def restoredStep_def\<close>)
qed

lemma ex_nth_iff: "(\<exists>i < length xs. P (xs ! i)) \<longleftrightarrow> (\<exists>x \<in> set xs. P x)"
  by (metis in_set_conv_nth)

lemma restoredEntry_Some: "restoredEntry ch = Some le \<longleftrightarrow> ch_ChangeType ch = ChRestored \<and> ch_Post ch = Some le"
  by (simp add: restoredEntry_def)

text \<open>
  When nothing panics, the restored keys are exactly the keys of the entries a change of type restored
  brings back, one row per key hash and by ascending hash; a created entry, which has no old state either, is
  never taken for one.
\<close>

theorem extractRestoredKeys_rows:
  assumes "in_Changes input = Ok changes"
    and "\<forall>ic \<in> set (enumerate 0 changes). restoredStep E now input ic \<noteq> Panic"
  shows "\<exists>rows. extractRestoredKeys E now input = Ok rows
    \<and> sorted (map rk_KeyHash rows) \<and> distinct (map rk_KeyHash rows)
    \<and> rk_KeyHash ` set rows = {hashHex bs |ch le key bs. ch \<in> set changes \<and> ch_ChangeType ch = ChRestored
         \<and> ch_Post ch = Some le \<and> entryLedgerKey E le = Ok key \<and> marshalLedgerKey E key = Ok bs}"
proof -
  obtain rows where rows: "collectRows (restoredStep E now input) (enumerate 0 changes) = Ok rows"
    using restored.last_writes [OF assms(2)] by blast
  note written = restored.rows_written [OF assms(2) rows]
  have "h \<in> rk_KeyHash ` set rows \<longleftrightarrow> (\<exists>ic \<in> set (enumerate 0 changes).
      \<exists>r \<in> set (writtenRows (restoredStep E now input) ic). rk_KeyHash r = h)" for h
    unfolding written(2) by auto
  also have "\<dots> h \<longleftrightarrow> (\<exists>i < length changes. \<exists>le key bs. restoredEntry (changes ! i) = Some le
      \<and> entryLedgerKey E le = Ok key \<and> marshalLedgerKey E key = Ok bs \<and> h = hashHex bs)" for h
    unfolding bex_enumerate using assms(2) restoredRows_iff [of E now input _ _ h]
    by (simp add: in_set_enumerate_eq cong: conj_cong)
  finally have "h \<in> rk_KeyHash ` set rows \<longleftrightarrow> (\<exists>ch \<in> set changes. \<exists>le key bs. restoredEntry ch = Some le
      \<and> entryLedgerKey E le = Ok key \<and> marshalLedgerKey E key = Ok bs \<and> h = hashHex bs)" for h
    by (simp only: ex_nth_iff [of changes "\<lambda>ch. \<exists>le key bs. restoredEntry ch = Some le
      \<and> entryLedgerKey E le = Ok key \<and> marshalLedgerKey E key = Ok bs \<and> h = hashHex bs"])
  note keys = this
  have "rk_KeyHash ` set rows = {hashHex bs |ch le key bs. ch \<in> set changes \<and> ch_ChangeType ch = ChRestored
         \<and> ch_Post ch = Some le \<and> entryLedgerKey E le = Ok key \<and> marshalLedgerKey E key = Ok bs}"
    by (rule set_eqI) (simp only: keys restoredEntry_Some mem_Collect_eq, blast)
  with rows written(3) show ?thesis by (simp add: extractRestoredKeys_def assms(1))
qed

definition demoRestored :: "change_type \<Rightarrow> change" where
  "demoRestored t = \<lparr>ch_Type = EContractCode, ch_ChangeType = t, ch_Pre = None,
     ch_Post = Some \<lparr>le_LastModified = 5, le_Data = DContractCode \<lparr>co_ExtV = 0, co_ExtV1 = False, co_Hash = [7], co_Code = []\<rparr>,
       le_Sponsor = None\<rparr>\<rparr>"

theorem extractRestoredKeys_rows_witness:
  "\<exists>rows. extractRestoredKeys demoSdk (\<lambda>i. int i) (demoChanges [demoRestored ChRestored, demoRestored ChCreated]) = Ok rows
    \<and> rk_KeyHash ` set rows = {hashHex [0]}"
proof -
  let ?chs = "[demoRestored ChRestored, demoRestored ChCreated]"
  have entry: "entryLedgerKey demoSdk le = Ok (KeyOther (dataType (le_Data le)))" "marshalLedgerKey demoSdk k = Ok [0]" for le k
    by (simp_all add: demoSdk_def)
  have "\<forall>ic \<in> set (enumerate 0 ?chs). restoredStep demoSdk (\<lambda>i. int i) (demoChanges ?chs) ic \<noteq> Panic"
    by (simp add: restoredStep_def restoredEntry_def demoRestored_def entry extractRestoredKeyData_def)
  from extractRestoredKeys_rows [OF demoChanges_simps(1) this]
  obtain rows where rows: "extractRestoredKeys demoSdk (\<lambda>i. int i) (demoChanges ?chs) = Ok rows"
    "rk_KeyHash ` set rows = {hashHex bs |ch le key bs. ch \<in> set ?chs \<and> ch_ChangeType ch = ChRestored
         \<and> ch_Post ch = Some le \<and> entryLedgerKey demoSdk le = Ok key \<and> marshalLedgerKey demoSdk key = Ok bs}"
    by blast
  have "{hashHex bs |ch le key bs. ch \<in> set ?chs \<and> ch_ChangeType ch = ChRestored
         \<and> ch_Post ch = Some le \<and> entryLedgerKey demoSdk le = Ok key \<and> marshalLedgerKey demoSdk key = Ok bs} = {hashHex [0]}"
    (is "?lhs = _")
  proof (intro equalityI subsetI)
    fix h assume "h \<in> ?lhs"
    then show "h \<in> {hashHex [0]}" by (clarsimp simp: entry)
  next
    fix h assume "h \<in> {hashHex [0]}"
    then have "h = hashHex [0]" by simp
    moreover have "demoRestored ChRestored \<in> set ?chs" "ch_ChangeType (demoRestored ChRestored) = ChRestored"
      "\<exists>le. ch_Post (demoRestored ChRestored) = Some le" by (simp_all add: demoRestored_def)
    ultimately show "h \<in> ?lhs" using entry by blast
  qed
  with rows show ?thesis by (intro exI [of _ rows] conjI) (simp_all only:)
qed

text \<open>
  A contract data key that is evicted and later restored has the same key hash in both tables, but not the
  same contract id: one is a hash of the address, the other the contract's own id.
\<close>

theorem evicted_restored_contract_id:
  assumes "marshalLedgerKey E (KeyContractData (Some (AddrContract (Some c), k, d))) = Ok bs"
    and "marshalScAddress E (AddrContract (Some c)) = Ok ab" "ab \<noteq> []"
    and "marshalScVal E k \<noteq> Panic" "marshalHash E c = Ok c"
  shows "\<exists>e r. extractEvictedKeyData E now input dur (KeyContractData (Some (AddrContract (Some c), k, d))) = Ok (Some e)
    \<and> extractRestoredKeyData E now input dur' l (KeyContractData (Some (AddrContract (Some c), k, d))) = Ok (Some r)
    \<and> ek_KeyHash e = rk_KeyHash r
    \<and> ek_ContractID e = hexEncode (sha256 ab) \<and> rk_ContractID r = hexEncode c
    \<and> (ek_ContractID e = rk_ContractID r \<longleftrightarrow> sha256 ab = c)"
proof -
  obtain kt where "evictedIdType E (KeyContractData (Some (AddrContract (Some c), k, d))) = Ok (hexEncode (sha256 ab), kt)"
    using assms(2-4) by (cases "marshalScVal E k") (auto simp: usable_def hashHex_def)
  moreover have "restoredIdType E (KeyContractData (Some (AddrContract (Some c), k, d)))
      = Ok (hexEncode c, scvTypeString E (scvType k))"
    using assms(5) by (simp add: contractIdOf_def hexIfOk_def)
  ultimately show ?thesis using assms(1) by (simp add: extractEvictedKeyData_def extractRestoredKeyData_def)
qed

theorem evicted_restored_contract_id_witness:
  "\<exists>e r. extractEvictedKeyData demoSdk 0 (demoChanges []) ''unknown'' (KeyContractData (Some (AddrContract (Some [3]), ScvVoid, DurPersistent))) = Ok (Some e)
    \<and> extractRestoredKeyData demoSdk 0 (demoChanges []) ''persistent'' 5 (KeyContractData (Some (AddrContract (Some [3]), ScvVoid, DurPersistent))) = Ok (Some r)
    \<and> ek_KeyHash e = rk_KeyHash r \<and> ek_ContractID e \<noteq> rk_ContractID r"
proof -
  have m: "marshalLedgerKey demoSdk key = Ok [0]" "marshalScAddress demoSdk a = Ok [1]" "marshalScVal demoSdk v = Ok [2]"
    "marshalHash demoSdk h = Ok h" for key a v h by (simp_all add: demoSdk_def)
  have "sha256 [1] \<noteq> [3]"
  proof
    assume "sha256 [1] = [3]"
    then have "length (sha256 [1]) = length [3 :: byte]" by (rule arg_cong)
    then show False unfolding length_sha256 by simp
  qed
  with m show ?thesis
    using evicted_restored_contract_id [of demoSdk "[3]" ScvVoid DurPersistent "[0]" "[1]" 0 "demoChanges []" "''unknown''" "''persistent''" 5]
    by auto
qed

text \<open>The evicted keys, read from both versions of the meta that carry them.\<close>

lemma evictedStep_keys: "evictedStep E now input ik = Ok kvs \<Longrightarrow> (k, r) \<in> set kvs \<Longrightarrow> k = ek_KeyHash r"
  by (auto simp: evictedStep_def mapR_Ok_iff split: prod.splits option.splits)

lemma evictedStep_not_Err: "evictedStep E now input ik \<noteq> Err e"
proof -
  have u: "usable r \<noteq> Err e" for r e by (auto simp: usable_def split: res.splits)
  have b: "bindR r f \<noteq> Err e" if "\<And>e. r \<noteq> Err e" "\<And>a e. f a \<noteq> Err e" for r :: "'x res" and f :: "'x \<Rightarrow> 'y res" and e
    using that by (cases r) auto
  have m: "mapR f r \<noteq> Err e" if "\<And>e. r \<noteq> Err e" for r :: "'x res" and f :: "'x \<Rightarrow> 'y" and e
    using that by (cases r) auto
  have i: "evictedIdType E key \<noteq> Err e" for key e
    by (cases "(E, key)" rule: evictedIdType.cases) (simp_all add: b m u)
  have "extractEvictedKeyData E t input d key \<noteq> Err e" for t d key e
    by (auto simp: extractEvictedKeyData_def m i split: res.splits)
  then show ?thesis by (cases ik) (simp add: evictedStep_def m)
qed

interpretation evicted: keyed_writes "evictedStep E now input" "\<lambda>ik. evictedStep E now input ik \<noteq> Panic"
  "writtenRows (evictedStep E now input)" ek_KeyHash for E now input
  by (rule keyed_writesI [OF evictedStep_not_Err evictedStep_keys])

lemma extractEvictedKeys_rows:
  assumes "evictedKeys (lcm_Arm (in_LCM input)) = Some keys"
    and "\<forall>ik \<in> set (enumerate 0 keys). evictedStep E now input ik \<noteq> Panic"
  shows "\<exists>rows. extractEvictedKeys E now input = Ok rows
    \<and> map ek_KeyHash rows = sorted_list_of_set
        (ek_KeyHash ` set (concat (map (writtenRows (evictedStep E now input)) (enumerate 0 keys))))"
  using evicted.last_writes [OF assms(2)] by (auto simp: extractEvictedKeys_def assms(1))

end
