(* ===== verification/ContractEvents.thy ===== *)
theory ContractEvents
  imports ScVal Input
begin

text \<open>
  The contract events of \<open>soroban.go\<close>: one row per event of the three streams of each transaction, read
  from the decoded transactions or from borrowed views of their XDR.
\<close>

section \<open>Event bodies\<close>

definition eventTypeString :: "event_type \<Rightarrow> string" where
  "eventTypeString t = (case t of EvSystem \<Rightarrow> ''system'' | EvContract \<Rightarrow> ''contract''
     | EvDiagnostic \<Rightarrow> ''diagnostic'' | EvOther n \<Rightarrow> ''unknown'')"

text \<open>A string under a key of a decoded map.\<close>

definition stringAt :: "string \<Rightarrow> (string, gval) gomap \<Rightarrow> string option" where
  "stringAt k m = (case gmGet m k of Some (GStr s) \<Rightarrow> Some s | _ \<Rightarrow> None)"

definition flattenTopicValue :: "gval \<Rightarrow> string" where
  "flattenTopicValue g = (case g of
     GStr s \<Rightarrow> s
   | GMap m \<Rightarrow> (case stringAt ''address'' m of Some s \<Rightarrow> s
       | None \<Rightarrow> (case stringAt ''value'' m of Some s \<Rightarrow> s | None \<Rightarrow> jsonMarshal g))
   | _ \<Rightarrow> fmtV g)"

text \<open>What stands for a value that cannot be converted.\<close>

definition conversionError :: "sdk \<Rightarrow> string \<Rightarrow> sc_val \<Rightarrow> gval" where
  "conversionError E e v = gobj [(''error'', GStr e), (''type'', GStr (scvTypeString E (scvType v)))]"

record event_body =
  eb_TopicsJSON :: string
  eb_TopicsDecoded :: string
  eb_TopicCount :: i32
  eb_DataXDR :: string
  eb_DataDecoded :: string
  eb_Positional :: "string option list"  \<comment> \<open>the four positional topics\<close>

text \<open>The topic loop's accumulators: the encoded topics, the decoded ones, and the positional strings.\<close>

type_synonym topic_acc = "string list \<times> gval list \<times> string option list"

definition topicStep :: "sdk \<Rightarrow> nat \<Rightarrow> sc_val \<Rightarrow> topic_acc \<Rightarrow> topic_acc res" where
  "topicStep E i topic acc = (case acc of (xdrs, decoded, pos) \<Rightarrow>
     (case marshalScVal E topic of
       Err e \<Rightarrow> Ok acc | Panic \<Rightarrow> Panic
     | Ok bs \<Rightarrow> (case convertScVal E topic of
         Panic \<Rightarrow> Panic
       | Err e \<Rightarrow> Ok (xdrs @ [base64Encode bs], decoded @ [conversionError E e topic], pos)
       | Ok g \<Rightarrow> Ok (xdrs @ [base64Encode bs], decoded @ [g],
           if i < 4 then pos[i := Some (flattenTopicValue g)] else pos))))"

fun topicLoop :: "sdk \<Rightarrow> nat \<Rightarrow> sc_val list \<Rightarrow> topic_acc \<Rightarrow> topic_acc res" where
  "topicLoop E i [] acc = Ok acc"
| "topicLoop E i (t # ts) acc = bindR (topicStep E i t acc) (topicLoop E (Suc i) ts)"

definition noPositional :: "string option list" where
  "noPositional = [None, None, None, None]"

text \<open>The data column: base64 and decoded JSON, an empty text and \<open>{}\<close> when it cannot be marshalled.\<close>

definition eventDataText :: "sdk \<Rightarrow> sc_val \<Rightarrow> (string \<times> string) res" where
  "eventDataText E d = (case marshalScVal E d of
     Err e \<Rightarrow> Ok ([], ''{}'') | Panic \<Rightarrow> Panic
   | Ok bs \<Rightarrow> (case convertScVal E d of
       Panic \<Rightarrow> Panic
     | Err e \<Rightarrow> Ok (base64Encode bs, jsonMarshal (conversionError E e d))
     | Ok g \<Rightarrow> Ok (base64Encode bs, jsonMarshal g)))"

text \<open>\<open>MustV0\<close> of version 0 dereferences the arm.\<close>

definition extractEventBody :: "sdk \<Rightarrow> contract_event \<Rightarrow> event_body res" where
  "extractEventBody E ev = (if ce_BodyV ev \<noteq> 0
     then Ok \<lparr>eb_TopicsJSON = ''[]'', eb_TopicsDecoded = ''[]'', eb_TopicCount = 0, eb_DataXDR = [],
       eb_DataDecoded = ''{}'', eb_Positional = noPositional\<rparr>
     else case ce_BodyV0 ev of
       None \<Rightarrow> Panic
     | Some (topics, d) \<Rightarrow>
         bindR (topicLoop E 0 topics ([], [], noPositional)) (\<lambda>(xdrs, decoded, pos).
         mapR (\<lambda>(xdr, text). \<lparr>eb_TopicsJSON = jsonArray (map jsonString xdrs),
             eb_TopicsDecoded = jsonMarshal (GArr decoded), eb_TopicCount = of_nat (length topics),
             eb_DataXDR = xdr, eb_DataDecoded = text, eb_Positional = pos\<rparr>)
           (eventDataText E d)))"

section \<open>Rows\<close>

record contract_event_data =
  ev_EventID :: string
  ev_ContractID :: "string option"
  ev_LedgerSequence :: u32
  ev_TransactionHash :: string
  ev_TransactionID :: i64
  ev_ClosedAt :: gotime
  ev_EventType :: string
  ev_InSuccessfulContractCall :: bool
  ev_Successful :: bool
  ev_ContractEventXDR :: string
  ev_Body :: event_body  \<comment> \<open>the topic and data columns\<close>
  ev_OperationIndex :: u32
  ev_EventStream :: string
  ev_EventIndex :: u32
  ev_CreatedAt :: gotime
  ev_LedgerRange :: u32
  ev_EraID :: "string option"

text \<open>
  The constants of a transaction: ledger columns, hash, TOID and outcome, and the clock by event index.  The
  two inputs give the same: \<open>EraID\<close> and \<open>TransactionID\<close> are set on every row after the mapping.
\<close>

record event_context =
  ec_Sequence :: u32
  ec_ClosedAt :: gotime
  ec_LedgerRange :: u32
  ec_EraID :: "string option"
  ec_TxHash :: string
  ec_TxID :: i64
  ec_Successful :: bool
  ec_Now :: "u32 \<Rightarrow> gotime"

definition eventContractId :: "sdk \<Rightarrow> contract_event \<Rightarrow> string option res" where
  "eventContractId E ev = (case ce_ContractId ev of
     None \<Rightarrow> Ok None
   | Some c \<Rightarrow> (case strkeyEncode E VContract c of Ok s \<Rightarrow> Ok (Some s) | Err e \<Rightarrow> Ok None | Panic \<Rightarrow> Panic))"

definition eventXDR :: "sdk \<Rightarrow> contract_event \<Rightarrow> string res" where
  "eventXDR E ev = (case marshalContractEvent E ev of
     Ok bs \<Rightarrow> Ok (base64Encode bs) | Err e \<Rightarrow> Ok [] | Panic \<Rightarrow> Panic)"

definition extractContractEvent ::
    "sdk \<Rightarrow> event_context \<Rightarrow> contract_event \<Rightarrow> u32 \<Rightarrow> u32 \<Rightarrow> string \<Rightarrow> bool \<Rightarrow> contract_event_data res" where
  "extractContractEvent E ctx ev opIndex eventIndex stream inSuccessfulCall =
     bindR (eventContractId E ev) (\<lambda>contractID.
     bindR (eventXDR E ev) (\<lambda>xdr.
     mapR (\<lambda>body.
       \<lparr>ev_EventID = ec_TxHash ctx @ '':'' @ udec eventIndex, ev_ContractID = contractID,
        ev_LedgerSequence = ec_Sequence ctx, ev_TransactionHash = ec_TxHash ctx,
        ev_TransactionID = ec_TxID ctx, ev_ClosedAt = ec_ClosedAt ctx,
        ev_EventType = eventTypeString (ce_Type ev), ev_InSuccessfulContractCall = inSuccessfulCall,
        ev_Successful = ec_Successful ctx, ev_ContractEventXDR = xdr, ev_Body = body,
        ev_OperationIndex = opIndex, ev_EventStream = stream, ev_EventIndex = eventIndex,
        ev_CreatedAt = ec_Now ctx eventIndex, ev_LedgerRange = ec_LedgerRange ctx, ev_EraID = ec_EraID ctx\<rparr>)
       (extractEventBody E ev)))"

definition extractDiagnosticEvent :: "sdk \<Rightarrow> event_context \<Rightarrow> diagnostic_event \<Rightarrow> u32 \<Rightarrow> contract_event_data res" where
  "extractDiagnosticEvent E ctx d eventIndex =
     mapR (\<lambda>r. r\<lparr>ev_EventType := ''diagnostic''\<rparr>)
       (extractContractEvent E ctx (de_Event d) 0 eventIndex ''diagnostic'' (de_InSuccessfulContractCall d))"

text \<open>A stream: a row per element, numbered from the counter's value, which goes on to the next stream.\<close>

fun streamRows :: "('a \<Rightarrow> u32 \<Rightarrow> contract_event_data res) \<Rightarrow> u32 \<Rightarrow> 'a list \<Rightarrow> (contract_event_data list \<times> u32) res" where
  "streamRows f idx [] = Ok ([], idx)"
| "streamRows f idx (a # as) = bindR (f a idx) (\<lambda>row.
     mapR (\<lambda>(rows, idx'). (row # rows, idx')) (streamRows f (idx + 1) as))"

fun operationStreams ::
    "(u32 \<Rightarrow> 'a \<Rightarrow> u32 \<Rightarrow> contract_event_data res) \<Rightarrow> u32 \<Rightarrow> u32 \<Rightarrow> 'a list list \<Rightarrow> (contract_event_data list \<times> u32) res" where
  "operationStreams f opIdx idx [] = Ok ([], idx)"
| "operationStreams f opIdx idx (evs # rest) = bindR (streamRows (f opIdx) idx evs) (\<lambda>(rows, idx').
     mapR (\<lambda>(rows', idx''). (rows @ rows', idx'')) (operationStreams f (opIdx + 1) idx' rest))"

definition transactionEventRows ::
    "('d \<Rightarrow> u32 \<Rightarrow> contract_event_data res) \<Rightarrow> (u32 \<Rightarrow> 'o \<Rightarrow> u32 \<Rightarrow> contract_event_data res) \<Rightarrow>
     ('t \<Rightarrow> u32 \<Rightarrow> contract_event_data res) \<Rightarrow> 'd list \<Rightarrow> 'o list list \<Rightarrow> 't list \<Rightarrow> contract_event_data list res" where
  "transactionEventRows diag oper trn ds os ts =
     bindR (streamRows diag 0 ds) (\<lambda>(rows, idx).
     bindR (operationStreams oper 0 idx os) (\<lambda>(rows', idx').
     mapR (\<lambda>(rows'', idx''). rows @ rows' @ rows'') (streamRows trn idx' ts)))"

definition operationEvent :: "sdk \<Rightarrow> event_context \<Rightarrow> u32 \<Rightarrow> contract_event \<Rightarrow> u32 \<Rightarrow> contract_event_data res" where
  "operationEvent E ctx opIdx ev idx = extractContractEvent E ctx ev opIdx idx ''operation'' False"

definition transactionEvent :: "sdk \<Rightarrow> event_context \<Rightarrow> contract_event \<Rightarrow> u32 \<Rightarrow> contract_event_data res" where
  "transactionEvent E ctx ev idx = extractContractEvent E ctx ev 0 idx ''transaction'' True"

section \<open>From the decoded transactions\<close>

definition txContext ::
    "ledger_input \<Rightarrow> (u32 \<Rightarrow> gotime) \<Rightarrow> string \<Rightarrow> bool \<Rightarrow> i64 \<Rightarrow> event_context" where
  "txContext input now txHash successful txID =
     \<lparr>ec_Sequence = in_Sequence input, ec_ClosedAt = in_ClosedAt input, ec_LedgerRange = in_LedgerRange input,
      ec_EraID = in_EraID input, ec_TxHash = txHash, ec_TxID = txID, ec_Successful = successful, ec_Now = now\<rparr>"

text \<open>A transaction whose events cannot be read is skipped; its TOID has been taken all the same.\<close>

definition txEventRows :: "sdk \<Rightarrow> (nat \<Rightarrow> u32 \<Rightarrow> gotime) \<Rightarrow> ledger_input \<Rightarrow> nat \<times> ledger_tx \<Rightarrow> contract_event_data list res" where
  "txEventRows E now input itx = (case itx of (i, tx) \<Rightarrow>
     bindR (toidInt64 E (in_Sequence input) (of_nat i + 1) 0) (\<lambda>txID.
     case tx_Events tx of
       Err e \<Rightarrow> Ok [] | Panic \<Rightarrow> Panic
     | Ok evs \<Rightarrow>
         let ctx = txContext input (now i) (hexEncode (tx_Hash tx)) (tx_Successful tx) txID
         in transactionEventRows (extractDiagnosticEvent E ctx) (operationEvent E ctx) (transactionEvent E ctx)
              (te_DiagnosticEvents evs) (te_OperationEvents evs) (te_TransactionEvents evs)))"

definition extractContractEvents :: "sdk \<Rightarrow> (nat \<Rightarrow> u32 \<Rightarrow> gotime) \<Rightarrow> ledger_input \<Rightarrow> contract_event_data list res" where
  "extractContractEvents E now input = (case in_Transactions input of
     Err e \<Rightarrow> Ok [] | Panic \<Rightarrow> Panic
   | Ok txs \<Rightarrow> concatR (txEventRows E now input) (enumerate 0 txs))"

section \<open>From views\<close>

text \<open>
  \<open>ingest.LedgerTransactionView\<close>: hash, outcome and the raw XDR of the events; and the view input, whose
  transactions are what the SDK's view walk returns.  \<open>unmarshal\<close> arguments are the SDK's
  \<open>UnmarshalBinary\<close> of the three event types (a transaction event's \<open>Event\<close>).
\<close>

record tx_view =
  tv_Hash :: hash
  tv_Successful :: bool
  tv_DiagnosticEvents :: "byte list list"
  tv_ContractEvents :: "byte list list list"
  tv_TransactionEvents :: "byte list list"

record unmarshallers =
  um_Diagnostic :: "byte list \<Rightarrow> diagnostic_event res"
  um_Contract :: "byte list \<Rightarrow> contract_event res"
  um_Transaction :: "byte list \<Rightarrow> contract_event res"

text \<open>
  The error texts carry the position in the stream, kept beside the raw event.
\<close>

definition viewDiagnostic ::
    "sdk \<Rightarrow> unmarshallers \<Rightarrow> event_context \<Rightarrow> nat \<times> byte list \<Rightarrow> u32 \<Rightarrow> contract_event_data res" where
  "viewDiagnostic E U ctx kraw idx = (case kraw of (k, raw) \<Rightarrow>
     bindR (wrapErr (''transaction '' @ ec_TxHash ctx @ '' diagnostic event '' @ showNat k) (um_Diagnostic U raw))
       (\<lambda>d. extractDiagnosticEvent E ctx d idx))"

definition viewOperation ::
    "sdk \<Rightarrow> unmarshallers \<Rightarrow> event_context \<Rightarrow> u32 \<Rightarrow> nat \<times> byte list \<Rightarrow> u32 \<Rightarrow> contract_event_data res" where
  "viewOperation E U ctx opIdx kraw idx = (case kraw of (k, raw) \<Rightarrow>
     bindR (wrapErr (''transaction '' @ ec_TxHash ctx @ '' operation '' @ udec opIdx @ '' event '' @ showNat k)
       (um_Contract U raw)) (\<lambda>ev. operationEvent E ctx opIdx ev idx))"

definition viewTransaction ::
    "sdk \<Rightarrow> unmarshallers \<Rightarrow> event_context \<Rightarrow> nat \<times> byte list \<Rightarrow> u32 \<Rightarrow> contract_event_data res" where
  "viewTransaction E U ctx kraw idx = (case kraw of (k, raw) \<Rightarrow>
     bindR (wrapErr (''transaction '' @ ec_TxHash ctx @ '' transaction event '' @ showNat k) (um_Transaction U raw))
       (\<lambda>ev. transactionEvent E ctx ev idx))"

definition txViewRows ::
    "sdk \<Rightarrow> unmarshallers \<Rightarrow> (nat \<Rightarrow> u32 \<Rightarrow> gotime) \<Rightarrow> ledger_input \<Rightarrow> nat \<times> tx_view \<Rightarrow> contract_event_data list res" where
  "txViewRows E U now input iv = (case iv of (i, v) \<Rightarrow>
     bindR (toidInt64 E (in_Sequence input) (of_nat i + 1) 0) (\<lambda>txID.
     let ctx = txContext input (now i) (hexEncode (tv_Hash v)) (tv_Successful v) txID
     in transactionEventRows (viewDiagnostic E U ctx) (viewOperation E U ctx) (viewTransaction E U ctx)
          (enumerate 0 (tv_DiagnosticEvents v)) (map (enumerate 0) (tv_ContractEvents v))
          (enumerate 0 (tv_TransactionEvents v))))"

text \<open>
  \<open>LedgerViewInput\<close> has the ledger columns of \<open>LedgerInput\<close>, given here by one; its transactions are a
  separate argument.
\<close>

definition extractContractEventsView ::
    "sdk \<Rightarrow> unmarshallers \<Rightarrow> (nat \<Rightarrow> u32 \<Rightarrow> gotime) \<Rightarrow> ledger_input \<Rightarrow> tx_view list res \<Rightarrow> contract_event_data list res" where
  "extractContractEventsView E U now input views = (case views of
     Err e \<Rightarrow> Err (''extract ledger transaction views: '' @ e) | Panic \<Rightarrow> Panic
   | Ok vs \<Rightarrow> concatR (txViewRows E U now input) (enumerate 0 vs))"

section \<open>One counter over three streams\<close>

text \<open>
  The reference: the events of a transaction as one list of row makers, the row at position \<open>k\<close> made with
  event index \<open>k\<close>.
\<close>

fun numberedRows :: "u32 \<Rightarrow> (u32 \<Rightarrow> 'r res) list \<Rightarrow> 'r list res" where
  "numberedRows idx [] = Ok []"
| "numberedRows idx (g # gs) = bindR (g idx) (\<lambda>r. mapR (Cons r) (numberedRows (idx + 1) gs))"

lemma numberedRows_append:
  "numberedRows idx (gs @ gs')
   = bindR (numberedRows idx gs) (\<lambda>rs. mapR ((@) rs) (numberedRows (idx + of_nat (length gs)) gs'))"
proof (induction gs arbitrary: idx)
  case Nil
  then show ?case by (cases "numberedRows idx gs'") auto
next
  case (Cons g gs)
  show ?case using Cons.IH [of "idx + 1"]
    by (cases "g idx"; cases "numberedRows (idx + 1) gs";
        cases "numberedRows (idx + 1 + of_nat (length gs)) gs'") (simp_all add: add.assoc)
qed

lemma numberedRows_Ok_iff:
  "numberedRows idx gs = Ok rs \<longleftrightarrow>
   length rs = length gs \<and> (\<forall>k < length gs. (gs ! k) (idx + of_nat k) = Ok (rs ! k))"
proof (induction gs arbitrary: idx rs)
  case (Cons g gs)
  show ?case
  proof (cases rs)
    case (Cons r rs')
    show ?thesis unfolding Cons
      by (auto simp: bindR_Ok_iff mapR_Ok_iff Cons.IH All_less_Suc2 add.assoc)
  qed (auto simp: bindR_Ok_iff mapR_Ok_iff)
qed auto

lemma streamRows_numbered:
  "streamRows f idx as = mapR (\<lambda>rs. (rs, idx + of_nat (length as))) (numberedRows idx (map (\<lambda>a. f a) as))"
proof (induction as arbitrary: idx)
  case (Cons a as)
  then show ?case by (cases "f a idx"; cases "numberedRows (idx + 1) (map f as)") simp_all
qed simp

fun operationMakers :: "(u32 \<Rightarrow> 'o \<Rightarrow> u32 \<Rightarrow> 'r res) \<Rightarrow> u32 \<Rightarrow> 'o list list \<Rightarrow> (u32 \<Rightarrow> 'r res) list" where
  "operationMakers f opIdx [] = []"
| "operationMakers f opIdx (evs # rest) = map (f opIdx) evs @ operationMakers f (opIdx + 1) rest"

lemma operationStreams_numbered:
  "operationStreams f opIdx idx os = mapR (\<lambda>rs. (rs, idx + of_nat (length (operationMakers f opIdx os))))
     (numberedRows idx (operationMakers f opIdx os))"
proof (induction os arbitrary: opIdx idx)
  case (Cons evs os)
  let ?n = "idx + of_nat (length evs)"
  show ?case
    by (cases "numberedRows idx (map (f opIdx) evs)"; cases "numberedRows ?n (operationMakers f (opIdx + 1) os)")
      (simp_all add: streamRows_numbered Cons.IH numberedRows_append add.assoc)
qed simp

definition eventMakers ::
    "('d \<Rightarrow> u32 \<Rightarrow> 'r res) \<Rightarrow> (u32 \<Rightarrow> 'o \<Rightarrow> u32 \<Rightarrow> 'r res) \<Rightarrow> ('t \<Rightarrow> u32 \<Rightarrow> 'r res) \<Rightarrow>
     'd list \<Rightarrow> 'o list list \<Rightarrow> 't list \<Rightarrow> (u32 \<Rightarrow> 'r res) list" where
  "eventMakers diag oper trn ds os ts = map diag ds @ operationMakers oper 0 os @ map trn ts"

lemma transactionEventRows_numbered:
  "transactionEventRows diag oper trn ds os ts = numberedRows 0 (eventMakers diag oper trn ds os ts)"
proof -
  let ?n = "of_nat (length ds) :: u32"
  let ?m = "?n + of_nat (length (operationMakers oper 0 os))"
  show ?thesis
    by (cases "numberedRows 0 (map diag ds)"; cases "numberedRows ?n (operationMakers oper 0 os)";
        cases "numberedRows ?m (map trn ts)")
      (simp_all add: transactionEventRows_def eventMakers_def streamRows_numbered operationStreams_numbered
        numberedRows_append)
qed

text \<open>What a row maker of a context gives: an event row with the index it was asked for, or a panic.\<close>

definition rowMaker :: "event_context \<Rightarrow> (string \<times> u32) \<Rightarrow> (u32 \<Rightarrow> contract_event_data res) \<Rightarrow> bool" where
  "rowMaker ctx so g \<longleftrightarrow> (\<forall>idx. g idx \<noteq> Panic \<longrightarrow> (\<exists>r. g idx = Ok r \<and> ev_EventIndex r = idx
     \<and> ev_EventID r = ec_TxHash ctx @ '':'' @ udec idx \<and> ev_TransactionHash r = ec_TxHash ctx
     \<and> ev_TransactionID r = ec_TxID ctx \<and> (ev_EventStream r, ev_OperationIndex r) = so))"

lemma topicLoop_no_error: "topicLoop E i ts acc \<noteq> Err e"
proof (induction ts arbitrary: i acc)
  case (Cons t ts)
  then show ?case
    by (cases "topicStep E i t acc") (auto simp: topicStep_def split: prod.splits res.splits if_splits)
qed simp

lemma extractEventBody_no_error: "extractEventBody E ev \<noteq> Err e"
proof -
  have "eventDataText E d \<noteq> Err e" for d by (auto simp: eventDataText_def split: res.splits)
  then show ?thesis
    using topicLoop_no_error
    by (auto simp: extractEventBody_def bindR_Err_iff mapR_Err_iff split: option.splits prod.splits)
qed

lemma extractContractEvent_maker:
  "rowMaker ctx (stream, opIdx) (\<lambda>idx. extractContractEvent E ctx ev opIdx idx stream b)"
  unfolding rowMaker_def
proof (intro allI impI)
  fix idx assume "extractContractEvent E ctx ev opIdx idx stream b \<noteq> Panic"
  moreover have "eventContractId E ev \<noteq> Err e" "eventXDR E ev \<noteq> Err e" for e
    by (auto simp: eventContractId_def eventXDR_def split: option.splits res.splits)
  ultimately obtain c x b' where "eventContractId E ev = Ok c" "eventXDR E ev = Ok x" "extractEventBody E ev = Ok b'"
    using extractEventBody_no_error [of E ev]
    by (cases "eventContractId E ev"; cases "eventXDR E ev"; cases "extractEventBody E ev")
      (auto simp: extractContractEvent_def)
  then show "\<exists>r. extractContractEvent E ctx ev opIdx idx stream b = Ok r \<and> ev_EventIndex r = idx
     \<and> ev_EventID r = ec_TxHash ctx @ '':'' @ udec idx \<and> ev_TransactionHash r = ec_TxHash ctx
     \<and> ev_TransactionID r = ec_TxID ctx \<and> (ev_EventStream r, ev_OperationIndex r) = (stream, opIdx)"
    by (simp add: extractContractEvent_def)
qed

lemma rowMaker_map:
  assumes "rowMaker ctx so g" "\<And>r. ev_EventIndex (h r) = ev_EventIndex r \<and> ev_EventID (h r) = ev_EventID r
      \<and> ev_TransactionHash (h r) = ev_TransactionHash r \<and> ev_TransactionID (h r) = ev_TransactionID r
      \<and> ev_EventStream (h r) = ev_EventStream r \<and> ev_OperationIndex (h r) = ev_OperationIndex r"
  shows "rowMaker ctx so (\<lambda>idx. mapR h (g idx))"
  unfolding rowMaker_def
proof (intro allI impI)
  fix idx assume "mapR h (g idx) \<noteq> Panic"
  then have "g idx \<noteq> Panic" by auto
  with assms(1) obtain r where "g idx = Ok r" "ev_EventIndex r = idx"
     "ev_EventID r = ec_TxHash ctx @ '':'' @ udec idx" "ev_TransactionHash r = ec_TxHash ctx"
     "ev_TransactionID r = ec_TxID ctx" "(ev_EventStream r, ev_OperationIndex r) = so"
    unfolding rowMaker_def by blast
  then show "\<exists>r. mapR h (g idx) = Ok r \<and> ev_EventIndex r = idx
     \<and> ev_EventID r = ec_TxHash ctx @ '':'' @ udec idx \<and> ev_TransactionHash r = ec_TxHash ctx
     \<and> ev_TransactionID r = ec_TxID ctx \<and> (ev_EventStream r, ev_OperationIndex r) = so"
    using assms(2) [of r] by simp
qed

text \<open>The streams and operation indices of a transaction's events, in row order.\<close>

fun operationLabels :: "u32 \<Rightarrow> 'o list list \<Rightarrow> (string \<times> u32) list" where
  "operationLabels opIdx [] = []"
| "operationLabels opIdx (evs # rest) = replicate (length evs) (''operation'', opIdx) @ operationLabels (opIdx + 1) rest"

definition eventLabels :: "tx_events \<Rightarrow> (string \<times> u32) list" where
  "eventLabels evs = replicate (length (te_DiagnosticEvents evs)) (''diagnostic'', 0)
     @ operationLabels 0 (te_OperationEvents evs) @ replicate (length (te_TransactionEvents evs)) (''transaction'', 0)"

definition txMakers :: "sdk \<Rightarrow> event_context \<Rightarrow> tx_events \<Rightarrow> (u32 \<Rightarrow> contract_event_data res) list" where
  "txMakers E ctx evs = eventMakers (extractDiagnosticEvent E ctx) (operationEvent E ctx) (transactionEvent E ctx)
     (te_DiagnosticEvents evs) (te_OperationEvents evs) (te_TransactionEvents evs)"

lemma operationMakers_labels:
  "list_all2 (rowMaker ctx) (operationLabels opIdx os) (operationMakers (operationEvent E ctx) opIdx os)"
proof (induction os arbitrary: opIdx)
  case (Cons evs os)
  have "list_all2 (rowMaker ctx) (replicate (length evs) (''operation'', opIdx)) (map (operationEvent E ctx opIdx) evs)"
    by (induction evs) (simp_all add: operationEvent_def extractContractEvent_maker)
  with Cons.IH [of "opIdx + 1"] show ?case by (simp add: list_all2_appendI)
qed simp

lemma txMakers_labels: "list_all2 (rowMaker ctx) (eventLabels evs) (txMakers E ctx evs)"
proof -
  have "list_all2 (rowMaker ctx) (replicate (length ds) (''diagnostic'', 0)) (map (extractDiagnosticEvent E ctx) ds)" for ds
    by (induction ds) (simp_all add: extractDiagnosticEvent_def rowMaker_map [OF extractContractEvent_maker])
  moreover have "list_all2 (rowMaker ctx) (replicate (length ts) (''transaction'', 0)) (map (transactionEvent E ctx) ts)" for ts
    by (induction ts) (simp_all add: transactionEvent_def extractContractEvent_maker)
  ultimately show ?thesis
    unfolding eventLabels_def txMakers_def eventMakers_def by (intro list_all2_appendI operationMakers_labels) auto
qed

lemma numberedRows_labels:
  assumes "list_all2 (rowMaker ctx) labels gs" "numberedRows 0 gs \<noteq> Panic"
  shows "\<exists>rs. numberedRows 0 gs = Ok rs \<and> map (\<lambda>r. (ev_EventStream r, ev_OperationIndex r)) rs = labels
    \<and> map ev_EventIndex rs = map of_nat [0 ..< length labels]
    \<and> (\<forall>r \<in> set rs. ev_EventID r = ec_TxHash ctx @ '':'' @ udec (ev_EventIndex r)
         \<and> ev_TransactionHash r = ec_TxHash ctx \<and> ev_TransactionID r = ec_TxID ctx)"
proof -
  have no_error: "numberedRows idx gs \<noteq> Err e" for idx e
    using assms(1)
  proof (induction labels gs arbitrary: idx rule: list_all2_induct)
    case (Cons l ls f fs)
    from Cons.hyps(1) have "f idx \<noteq> Err e" unfolding rowMaker_def by (metis res.distinct(1) res.distinct(5))
    moreover have "numberedRows (idx + 1) fs \<noteq> Err e" by (rule Cons.IH)
    ultimately show ?case by (simp add: bindR_Err_iff mapR_Err_iff)
  qed simp
  obtain rs where rs: "numberedRows 0 gs = Ok rs"
    using no_error [of 0] assms(2) by (cases "numberedRows 0 gs") auto
  then have len: "length rs = length gs" "length labels = length gs"
    and nth: "\<forall>k < length gs. (gs ! k) (of_nat k) = Ok (rs ! k)"
    using list_all2_lengthD [OF assms(1)] by (simp_all add: numberedRows_Ok_iff)
  have row: "ev_EventIndex (rs ! k) = of_nat k \<and> ev_EventID (rs ! k) = ec_TxHash ctx @ '':'' @ udec (of_nat k :: u32)
      \<and> ev_TransactionHash (rs ! k) = ec_TxHash ctx \<and> ev_TransactionID (rs ! k) = ec_TxID ctx
      \<and> (ev_EventStream (rs ! k), ev_OperationIndex (rs ! k)) = labels ! k" if k: "k < length gs" for k
  proof -
    have "rowMaker ctx (labels ! k) (gs ! k)" using assms(1) k len by (simp add: list_all2_conv_all_nth)
    moreover have "(gs ! k) (of_nat k) = Ok (rs ! k)" using nth k by blast
    ultimately show ?thesis unfolding rowMaker_def by (metis res.distinct(3) res.inject(1))
  qed
  have "map (\<lambda>r. (ev_EventStream r, ev_OperationIndex r)) rs = labels"
    using row len by (intro nth_equalityI) simp_all
  moreover have "map ev_EventIndex rs = map of_nat [0 ..< length labels]"
    using row len by (intro nth_equalityI) simp_all
  moreover have "\<forall>r \<in> set rs. ev_EventID r = ec_TxHash ctx @ '':'' @ udec (ev_EventIndex r)
         \<and> ev_TransactionHash r = ec_TxHash ctx \<and> ev_TransactionID r = ec_TxID ctx"
    using row len by (auto simp: in_set_conv_nth)
  ultimately show ?thesis using rs by blast
qed

text \<open>The rows of the transaction at position \<open>i\<close>, as the table has to hold them.\<close>

definition eventRowsOf :: "sdk \<Rightarrow> ledger_input \<Rightarrow> nat \<Rightarrow> ledger_tx \<Rightarrow> contract_event_data list \<Rightarrow> bool" where
  "eventRowsOf E input i tx rs = (case tx_Events tx of
     Ok evs \<Rightarrow> map (\<lambda>r. (ev_EventStream r, ev_OperationIndex r)) rs = eventLabels evs
       \<and> map ev_EventIndex rs = map of_nat [0 ..< length rs]
       \<and> (\<forall>r \<in> set rs. ev_TransactionHash r = hexEncode (tx_Hash tx)
            \<and> ev_EventID r = hexEncode (tx_Hash tx) @ '':'' @ udec (ev_EventIndex r)
            \<and> toidInt64 E (in_Sequence input) (of_nat i + 1) 0 = Ok (ev_TransactionID r))
   | _ \<Rightarrow> rs = [])"

lemma txEventRows_rows:
  assumes "txEventRows E now input (i, tx) = Ok rs"
  shows "eventRowsOf E input i tx rs"
proof -
  obtain txID where t: "toidInt64 E (in_Sequence input) (of_nat i + 1) 0 = Ok txID"
    using assms by (auto simp: txEventRows_def bindR_Ok_iff)
  show ?thesis
  proof (cases "tx_Events tx")
    case (Ok evs)
    let ?ctx = "txContext input (now i) (hexEncode (tx_Hash tx)) (tx_Successful tx) txID"
    have rs: "numberedRows 0 (txMakers E ?ctx evs) = Ok rs"
      using assms by (simp add: txEventRows_def t Ok Let_def transactionEventRows_numbered txMakers_def)
    have "map (\<lambda>r. (ev_EventStream r, ev_OperationIndex r)) rs = eventLabels evs"
      "map ev_EventIndex rs = map of_nat [0 ..< length (eventLabels evs)]"
      "\<forall>r \<in> set rs. ev_EventID r = ec_TxHash ?ctx @ '':'' @ udec (ev_EventIndex r)
         \<and> ev_TransactionHash r = ec_TxHash ?ctx \<and> ev_TransactionID r = ec_TxID ?ctx"
      using numberedRows_labels [OF txMakers_labels [of ?ctx evs E]] rs by auto
    then show ?thesis by (auto simp: eventRowsOf_def Ok t txContext_def dest: map_eq_imp_length_eq)
  qed (use assms t in \<open>auto simp: txEventRows_def eventRowsOf_def\<close>)
qed

text \<open>
  C10: the rows of the contract-event table come transaction by transaction; those of a transaction are its
  diagnostic, operation and transaction events in this order, labelled with their stream and operation, and
  numbered 0, 1, 2 and so on by one counter; a transaction whose events cannot be read has none, and
  still takes its TOID.
\<close>

theorem contract_event_rows:
  assumes "in_Transactions input = Ok txs" "extractContractEvents E now input = Ok rows"
  shows "\<exists>rss. rows = concat rss \<and> length rss = length txs
    \<and> (\<forall>i < length txs. eventRowsOf E input i (txs ! i) (rss ! i))"
proof -
  obtain rss where rss: "map (txEventRows E now input) (enumerate 0 txs) = map Ok rss" "rows = concat rss"
    using assms by (auto simp: extractContractEvents_def concatR_Ok_iff)
  have len: "length rss = length txs" using map_eq_imp_length_eq [OF rss(1)] by simp
  have "eventRowsOf E input i (txs ! i) (rss ! i)" if i: "i < length txs" for i
  proof (rule txEventRows_rows)
    have "map (txEventRows E now input) (enumerate 0 txs) ! i = map Ok rss ! i" using rss(1) by simp
    then show "txEventRows E now input (i, txs ! i) = Ok (rss ! i)"
      using i len by (simp add: nth_enumerate_eq)
  qed
  with rss(2) len show ?thesis by blast
qed

lemma udec_no_colon: "CHR '':'' \<notin> set (udec w)"
  using showNat_digits isDigit_not_punct(2) by (auto simp: udec_def)

lemma event_id_split: "h @ CHR '':'' # udec i = h' @ CHR '':'' # udec j \<longleftrightarrow> h = h' \<and> i = j"
  using append_last_sep_inj [OF udec_no_colon [of i] udec_no_colon [of j], of h h'] by auto

lemma eventRowsOf_ids:
  assumes "eventRowsOf E input i tx rs" "length rs \<le> 2 ^ 32"
  shows "distinct (map (\<lambda>r. (ev_TransactionHash r, ev_EventIndex r)) rs)"
    and "r \<in> set rs \<Longrightarrow> ev_TransactionHash r = hexEncode (tx_Hash tx)
      \<and> ev_EventID r = ev_TransactionHash r @ CHR '':'' # udec (ev_EventIndex r)"
proof -
  have idx: "map ev_EventIndex rs = map of_nat [0 ..< length rs]"
    using assms(1) by (cases "tx_Events tx") (auto simp: eventRowsOf_def)
  have "inj_on (of_nat :: nat \<Rightarrow> u32) {0 ..< length rs}"
    using assms(2) by (intro inj_onI) (simp add: word_of_nat_eq_iff take_bit_nat_eq_self)
  then have "distinct (map ev_EventIndex rs)" unfolding idx by (simp add: distinct_map)
  then show "distinct (map (\<lambda>r. (ev_TransactionHash r, ev_EventIndex r)) rs)"
    by (auto simp: distinct_map inj_on_def)
  show "ev_TransactionHash r = hexEncode (tx_Hash tx)
      \<and> ev_EventID r = ev_TransactionHash r @ CHR '':'' # udec (ev_EventIndex r)" if "r \<in> set rs"
    using assms(1) that by (cases "tx_Events tx") (auto simp: eventRowsOf_def)
qed

text \<open>
  C20: the event ids are unique over the ledger (transaction hashes are, and there are at most \<open>2^32\<close>
  events).
\<close>

theorem contract_event_ids_unique:
  assumes "in_Transactions input = Ok txs" "extractContractEvents E now input = Ok rows"
    and "distinct (map tx_Hash txs)" "length rows \<le> 2 ^ 32"
  shows "distinct (map ev_EventID rows)"
proof -
  have rows: "concatR (txEventRows E now input) (enumerate 0 txs) = Ok rows"
    using assms(1,2) by (simp add: extractContractEvents_def)
  have of_tx: "eventRowsOf E input (fst itx) (snd itx) as" "length as \<le> 2 ^ 32"
    if "itx \<in> set (enumerate 0 txs)" "txEventRows E now input itx = Ok as" for itx as
    using txEventRows_rows [of E now input "fst itx" "snd itx" as] concatR_length [OF rows that] assms(4) that
    by simp_all
  have keys: "distinct (map (\<lambda>r. (ev_TransactionHash r, ev_EventIndex r)) rows)"
  proof (rule concatR_distinct [OF rows, where tag = "\<lambda>itx. hexEncode (tx_Hash (snd itx))" and keyTag = fst])
    show "distinct (map (\<lambda>itx. hexEncode (tx_Hash (snd itx))) (enumerate 0 txs))"
      using assms(3) by (simp add: map_snd_enumerate_comp [of "\<lambda>tx. hexEncode (tx_Hash tx)"] distinct_map inj_on_def)
    fix itx as assume itx: "itx \<in> set (enumerate 0 txs)" "txEventRows E now input itx = Ok as"
    show "distinct (map (\<lambda>r. (ev_TransactionHash r, ev_EventIndex r)) as)"
      by (rule eventRowsOf_ids(1) [OF of_tx [OF itx]])
    show "fst (ev_TransactionHash r, ev_EventIndex r) = hexEncode (tx_Hash (snd itx))" if "r \<in> set as" for r
      using eventRowsOf_ids(2) [OF of_tx [OF itx] that] by simp
  qed
  have id: "ev_EventID r = ev_TransactionHash r @ CHR '':'' # udec (ev_EventIndex r)" if r: "r \<in> set rows" for r
  proof -
    obtain itx as where "itx \<in> set (enumerate 0 txs)" "txEventRows E now input itx = Ok as" "r \<in> set as"
      using r concatR_mem [OF rows, of r] by blast
    then show ?thesis using eventRowsOf_ids(2) [OF of_tx] by blast
  qed
  have ids: "map ev_EventID rows = map (\<lambda>(h, i). h @ CHR '':'' # udec i) (map (\<lambda>r. (ev_TransactionHash r, ev_EventIndex r)) rows)"
    using id by simp
  have "inj (\<lambda>(h, i :: u32). h @ CHR '':'' # udec i)"
    by (auto simp: inj_def event_id_split)
  then have "inj_on (\<lambda>(h, i :: u32). h @ CHR '':'' # udec i) X" for X by (rule inj_on_subset) simp
  with keys have "distinct (map (\<lambda>(h, i :: u32). h @ CHR '':'' # udec i) (map (\<lambda>r. (ev_TransactionHash r, ev_EventIndex r)) rows))"
    by (subst distinct_map) blast
  with ids show ?thesis by (simp only:)
qed

section \<open>Views and decoded transactions agree\<close>

text \<open>
  A view of a transaction whose raw events unmarshal to the events the parsed reader returns.
\<close>

definition sameEvents :: "unmarshallers \<Rightarrow> tx_view \<Rightarrow> ledger_tx \<Rightarrow> bool" where
  "sameEvents U v tx \<longleftrightarrow> tv_Hash v = tx_Hash tx \<and> tv_Successful v = tx_Successful tx
     \<and> (\<exists>evs. tx_Events tx = Ok evs
          \<and> map (um_Diagnostic U) (tv_DiagnosticEvents v) = map Ok (te_DiagnosticEvents evs)
          \<and> map (map (um_Contract U)) (tv_ContractEvents v) = map (map Ok) (te_OperationEvents evs)
          \<and> map (um_Transaction U) (tv_TransactionEvents v) = map Ok (te_TransactionEvents evs))"

lemma map_enumerate_decoded:
  assumes "map um raws = map Ok ds" "\<And>k raw d. um raw = Ok d \<Longrightarrow> view (k, raw) = row d"
  shows "map view (enumerate n raws) = map row ds"
  using assms(1)
proof (induction raws arbitrary: n ds)
  case (Cons raw raws)
  then obtain d ds' where "ds = d # ds'" "um raw = Ok d" "map um raws = map Ok ds'" by (cases ds) auto
  then show ?case using Cons.IH assms(2) by simp
qed simp

lemma operationMakers_decoded:
  assumes "map (map um) raws = map (map Ok) os" "\<And>j k raw d. um raw = Ok d \<Longrightarrow> view j (k, raw) = row j d"
  shows "operationMakers view opIdx (map (enumerate 0) raws) = operationMakers row opIdx os"
  using assms(1)
proof (induction raws arbitrary: opIdx os)
  case (Cons raw raws)
  then obtain evs os' where os: "os = evs # os'" "map um raw = map Ok evs" "map (map um) raws = map (map Ok) os'"
    by (cases os) auto
  have "map (view opIdx) (enumerate 0 raw) = map (row opIdx) evs"
    by (rule map_enumerate_decoded [OF os(2)]) (rule assms(2))
  then show ?case using Cons.IH [OF os(3)] os(1) by simp
qed simp

lemma txViewRows_decoded:
  assumes "sameEvents U v tx"
  shows "txViewRows E U now input (i, v) = txEventRows E now input (i, tx)"
proof -
  obtain evs where evs: "tx_Events tx = Ok evs"
    "map (um_Diagnostic U) (tv_DiagnosticEvents v) = map Ok (te_DiagnosticEvents evs)"
    "map (map (um_Contract U)) (tv_ContractEvents v) = map (map Ok) (te_OperationEvents evs)"
    "map (um_Transaction U) (tv_TransactionEvents v) = map Ok (te_TransactionEvents evs)"
    using assms by (auto simp: sameEvents_def)
  have "map (viewDiagnostic E U ctx) (enumerate 0 (tv_DiagnosticEvents v))
      = map (extractDiagnosticEvent E ctx) (te_DiagnosticEvents evs)"
    "operationMakers (viewOperation E U ctx) 0 (map (enumerate 0) (tv_ContractEvents v))
      = operationMakers (operationEvent E ctx) 0 (te_OperationEvents evs)"
    "map (viewTransaction E U ctx) (enumerate 0 (tv_TransactionEvents v))
      = map (transactionEvent E ctx) (te_TransactionEvents evs)" for ctx
    by (rule map_enumerate_decoded [OF evs(2)] operationMakers_decoded [OF evs(3)] map_enumerate_decoded [OF evs(4)],
        simp add: viewDiagnostic_def viewOperation_def viewTransaction_def wrapErr_def fun_eq_iff)+
  then show ?thesis
    using assms by (simp add: txViewRows_def txEventRows_def evs(1) sameEvents_def transactionEventRows_numbered
        eventMakers_def)
qed

text \<open>
  C11: reading the events from views of the raw ledger gives the rows that the parsed ledger gives, when both
  list the same transactions and the raw events unmarshal to the parsed ones.
\<close>

theorem contract_events_view_parsed:
  assumes "in_Transactions input = Ok txs" "list_all2 (sameEvents U) vs txs"
  shows "extractContractEventsView E U now input (Ok vs) = extractContractEvents E now input"
proof -
  have "map (txViewRows E U now input) (enumerate n vs) = map (txEventRows E now input) (enumerate n txs)" for n
    using assms(2) by (induction vs txs arbitrary: n rule: list_all2_induct) (simp_all add: txViewRows_decoded)
  then show ?thesis by (simp add: extractContractEventsView_def extractContractEvents_def assms(1) concatR_def)
qed

section \<open>Topic columns\<close>

definition topicText :: "sdk \<Rightarrow> sc_val \<Rightarrow> string" where
  "topicText E t = (case marshalScVal E t of Ok bs \<Rightarrow> base64Encode bs | _ \<Rightarrow> [])"

definition topicDecoded :: "sdk \<Rightarrow> sc_val \<Rightarrow> gval" where
  "topicDecoded E t = (case convertScVal E t of Ok g \<Rightarrow> g | Err e \<Rightarrow> conversionError E e t | Panic \<Rightarrow> GNil)"

definition topicColumn :: "sdk \<Rightarrow> sc_val list \<Rightarrow> nat \<Rightarrow> string option" where
  "topicColumn E topics i = (if i < length topics
     then map_option flattenTopicValue (okOpt (convertScVal E (topics ! i))) else None)"

lemma topicLoop_columns:
  assumes "topicLoop E n ts (xs, ds, pos) = Ok (xs', ds', pos')" "\<forall>t \<in> set ts. isOk (marshalScVal E t)"
    and "length pos = 4" "\<forall>i. n \<le> i \<and> i < 4 \<longrightarrow> pos ! i = None"
  shows "xs' = xs @ map (topicText E) ts \<and> ds' = ds @ map (topicDecoded E) ts \<and> length pos' = 4
    \<and> (\<forall>i < 4. pos' ! i = (if i < n then pos ! i else topicColumn E ts (i - n)))"
  using assms
proof (induction ts arbitrary: n xs ds pos)
  case Nil
  then show ?case by (auto simp: topicColumn_def)
next
  case (Cons t ts)
  then obtain bs where bs: "marshalScVal E t = Ok bs" by (auto simp: isOk_iff)
  have column: "topicColumn E (t # ts) (i - n) = topicColumn E ts (i - Suc n)" if "n < i" for i
    using that Suc_diff_Suc [OF that] by (simp add: topicColumn_def nth_Cons')
  show ?case
  proof (cases "convertScVal E t")
    case (Ok g)
    let ?pos = "if n < 4 then pos[n := Some (flattenTopicValue g)] else pos"
    have "topicLoop E (Suc n) ts (xs @ [topicText E t], ds @ [topicDecoded E t], ?pos) = Ok (xs', ds', pos')"
      using Cons.prems(1) by (simp add: topicStep_def bs Ok topicText_def topicDecoded_def)
    from Cons.IH [OF this] Cons.prems(2-4)
    have ih: "xs' = (xs @ [topicText E t]) @ map (topicText E) ts" "ds' = (ds @ [topicDecoded E t]) @ map (topicDecoded E) ts"
      "length pos' = 4" "\<forall>i < 4. pos' ! i = (if i < Suc n then ?pos ! i else topicColumn E ts (i - Suc n))" by auto
    moreover have "pos' ! i = (if i < n then pos ! i else topicColumn E (t # ts) (i - n))" if "i < 4" for i
      using ih(4) that Cons.prems(3) column [of i] by (cases "i = n") (auto simp: topicColumn_def Ok)
    ultimately show ?thesis by simp
  next
    case (Err e)
    have "topicLoop E (Suc n) ts (xs @ [topicText E t], ds @ [topicDecoded E t], pos) = Ok (xs', ds', pos')"
      using Cons.prems(1) by (simp add: topicStep_def bs Err topicText_def topicDecoded_def)
    from Cons.IH [OF this] Cons.prems(2-4)
    have ih: "xs' = (xs @ [topicText E t]) @ map (topicText E) ts" "ds' = (ds @ [topicDecoded E t]) @ map (topicDecoded E) ts"
      "length pos' = 4" "\<forall>i < 4. pos' ! i = (if i < Suc n then pos ! i else topicColumn E ts (i - Suc n))" by auto
    moreover have "pos' ! i = (if i < n then pos ! i else topicColumn E (t # ts) (i - n))" if "i < 4" for i
      using ih(4) that Cons.prems(4) column [of i] by (cases "i = n") (auto simp: topicColumn_def Err)
    ultimately show ?thesis by simp
  next
    case Panic
    then show ?thesis using Cons.prems(1) by (simp add: topicStep_def bs)
  qed
qed

text \<open>
  The topic columns of an event whose topics can be marshalled: the JSON array has the base64 of every
  topic, the decoded array has every topic or a note on why it could not be decoded, and the positional
  column \<open>i\<close> is the text of topic \<open>i\<close>, null where there is none or it could not be decoded (the later topics
  do not move up).
\<close>

theorem contract_event_topics:
  assumes "ce_BodyV ev = 0" "ce_BodyV0 ev = Some (topics, d)" "extractEventBody E ev = Ok b"
    and "\<forall>t \<in> set topics. isOk (marshalScVal E t)"
  shows "eb_TopicsJSON b = jsonArray (map (\<lambda>t. jsonString (topicText E t)) topics)
    \<and> eb_TopicsDecoded b = jsonMarshal (GArr (map (topicDecoded E) topics))
    \<and> eb_TopicCount b = of_nat (length topics)
    \<and> eb_Positional b = map (topicColumn E topics) [0, 1, 2, 3]"
proof -
  obtain xs ds pos xdr dt where run: "topicLoop E 0 topics ([], [], noPositional) = Ok (xs, ds, pos)"
    and b: "b = \<lparr>eb_TopicsJSON = jsonArray (map jsonString xs), eb_TopicsDecoded = jsonMarshal (GArr ds),
      eb_TopicCount = of_nat (length topics), eb_DataXDR = xdr, eb_DataDecoded = dt, eb_Positional = pos\<rparr>"
    using assms by (auto simp: extractEventBody_def bindR_Ok_iff mapR_Ok_iff simp del: jsonMarshal.simps)
  have none: "\<forall>i. 0 \<le> i \<and> i < 4 \<longrightarrow> noPositional ! i = None"
    by (auto simp: noPositional_def nth_Cons' split: if_splits)
  have "length noPositional = 4" by (simp add: noPositional_def)
  from topicLoop_columns [OF run assms(4) this none]
  have "xs = map (topicText E) topics" "ds = map (topicDecoded E) topics" "length pos = 4"
    "\<forall>i < 4. pos ! i = topicColumn E topics i" by auto
  moreover have "pos = map (topicColumn E topics) [0, 1, 2, 3]"
  proof -
    have "pos = map ((!) pos) [0 ..< 4]" using map_nth [of pos] \<open>length pos = 4\<close> by simp
    moreover have "[0 ..< 4] = [0, 1, 2, 3 :: nat]" by code_simp
    ultimately show ?thesis
      using \<open>\<forall>i < 4. pos ! i = topicColumn E topics i\<close> by simp
  qed
  ultimately show ?thesis by (simp add: b comp_def)
qed

definition demoContractEvent :: contract_event where
  "demoContractEvent = \<lparr>ce_ContractId = Some [1], ce_Type = EvContract, ce_BodyV = 0,
     ce_BodyV0 = Some ([ScvSymbol (Some ''transfer''), ScvVec None, ScvSymbol (Some ''to'')], ScvVoid)\<rparr>"

theorem contract_event_topics_witness:
  "\<exists>b. extractEventBody demoSdk demoContractEvent = Ok b
     \<and> eb_Positional b = [Some ''transfer'', None, Some ''to'', None] \<and> eb_TopicCount b = 3"
proof -
  let ?topics = "[ScvSymbol (Some ''transfer''), ScvVec None, ScvSymbol (Some ''to'')]"
  have "isOk (extractEventBody demoSdk demoContractEvent)" by code_simp
  then obtain b where b: "extractEventBody demoSdk demoContractEvent = Ok b" by (auto simp: isOk_iff)
  have "ce_BodyV demoContractEvent = 0" "ce_BodyV0 demoContractEvent = Some (?topics, ScvVoid)"
    by (simp_all add: demoContractEvent_def)
  moreover have "\<forall>t \<in> set ?topics. isOk (marshalScVal demoSdk t)" by (simp add: demoSdk_def)
  ultimately have "eb_TopicCount b = of_nat (length ?topics)" "eb_Positional b = map (topicColumn demoSdk ?topics) [0, 1, 2, 3]"
    using contract_event_topics [OF _ _ b] by blast+
  moreover have "map (topicColumn demoSdk ?topics) [0, 1, 2, 3] = [Some ''transfer'', None, Some ''to'', None]" by code_simp
  ultimately show ?thesis using b by simp
qed

definition demoEventTx :: "hash \<Rightarrow> ledger_tx" where
  "demoEventTx h = demoTx\<lparr>tx_Hash := h, tx_Events := Ok \<lparr>te_DiagnosticEvents = [demoEvent [1] ''fn_call'' ''f''],
     te_OperationEvents = [[], [demoContractEvent, demoContractEvent]], te_TransactionEvents = [demoContractEvent]\<rparr>\<rparr>"

definition demoEventTxs :: "ledger_tx list" where
  "demoEventTxs = [demoEventTx [7], demoTx, demoEventTx [8]]"

lemma demoEventTxs_rows:
  obtains rows where "extractContractEvents demoSdk (\<lambda>i j. int i) (demoTxs demoEventTxs) = Ok rows" "length rows = 8"
proof -
  have "mapR length (extractContractEvents demoSdk (\<lambda>i j. int i) (demoTxs demoEventTxs)) = Ok 8" by code_simp
  with that show ?thesis by (auto simp: mapR_Ok_iff)
qed

theorem contract_event_rows_witness:
  "\<exists>rows. extractContractEvents demoSdk (\<lambda>i j. int i) (demoTxs demoEventTxs) = Ok rows
    \<and> (\<exists>rss. rows = concat rss \<and> length rss = 3 \<and> rss ! 1 = []
         \<and> map ev_EventStream (rss ! 2) = [''diagnostic'', ''operation'', ''operation'', ''transaction''])"
proof -
  obtain rows where rows: "extractContractEvents demoSdk (\<lambda>i j. int i) (demoTxs demoEventTxs) = Ok rows"
    using demoEventTxs_rows by metis
  from contract_event_rows [OF demoTxs_simps(1) this] obtain rss where rss: "rows = concat rss" "length rss = 3"
    "\<forall>i < 3. eventRowsOf demoSdk (demoTxs demoEventTxs) i (demoEventTxs ! i) (rss ! i)"
    by (auto simp: demoEventTxs_def)
  then have "eventRowsOf demoSdk (demoTxs demoEventTxs) 1 (demoEventTxs ! 1) (rss ! 1)"
    "eventRowsOf demoSdk (demoTxs demoEventTxs) 2 (demoEventTxs ! 2) (rss ! 2)" by auto
  then have "rss ! 1 = []" "map (\<lambda>r. (ev_EventStream r, ev_OperationIndex r)) (rss ! 2)
      = [(''diagnostic'', 0), (''operation'', 1), (''operation'', 1), (''transaction'', 0)]"
    by (simp_all add: eventRowsOf_def demoEventTxs_def demoEventTx_def demoTx_def eventLabels_def numeral_2_eq_2)
  then have "map fst (map (\<lambda>r. (ev_EventStream r, ev_OperationIndex r)) (rss ! 2))
      = [''diagnostic'', ''operation'', ''operation'', ''transaction'']" by simp
  then have "map ev_EventStream (rss ! 2) = [''diagnostic'', ''operation'', ''operation'', ''transaction'']"
    by (simp add: comp_def)
  with rows rss(1,2) \<open>rss ! 1 = []\<close> show ?thesis by (intro exI [of _ rows] exI [of _ rss] conjI)
qed

theorem contract_event_ids_unique_witness:
  "\<exists>rows. extractContractEvents demoSdk (\<lambda>i j. int i) (demoTxs demoEventTxs) = Ok rows
    \<and> length rows = 8 \<and> distinct (map ev_EventID rows)"
proof -
  obtain rows where rows: "extractContractEvents demoSdk (\<lambda>i j. int i) (demoTxs demoEventTxs) = Ok rows" "length rows = 8"
    using demoEventTxs_rows by metis
  moreover have "distinct (map tx_Hash demoEventTxs)" by code_simp
  ultimately show ?thesis using contract_event_ids_unique [OF demoTxs_simps(1) rows(1)] by simp
qed

definition demoUnmarshal :: unmarshallers where
  "demoUnmarshal = \<lparr>um_Diagnostic = (\<lambda>bs. Ok (demoEvent [1] ''fn_call'' ''f'')),
     um_Contract = (\<lambda>bs. if bs = [] then Err ''EOF'' else Ok demoContractEvent),
     um_Transaction = (\<lambda>bs. Ok demoContractEvent)\<rparr>"

definition demoView :: tx_view where
  "demoView = \<lparr>tv_Hash = [7], tv_Successful = True, tv_DiagnosticEvents = [[1]],
     tv_ContractEvents = [[], [[2], [3]]], tv_TransactionEvents = [[4]]\<rparr>"

theorem contract_events_view_parsed_witness:
  "extractContractEventsView demoSdk demoUnmarshal (\<lambda>i j. int i) (demoTxs [demoEventTx [7]]) (Ok [demoView])
   = extractContractEvents demoSdk (\<lambda>i j. int i) (demoTxs [demoEventTx [7]])"
  by (rule contract_events_view_parsed [OF demoTxs_simps(1)])
    (simp add: sameEvents_def demoUnmarshal_def demoView_def demoEventTx_def demoTx_def)


end
