(* ===== verification/Soroban.thy ===== *)
theory Soroban
  imports Archival Wasm State
begin

text \<open>
  The contract data, contract code and contract creation tables of \<open>soroban.go\<close>.
\<close>

section \<open>Contract data\<close>

record contract_data_row =
  dr_ContractId :: string
  dr_LedgerSequence :: u32
  dr_LedgerKeyHash :: string
  dr_ContractKeyType :: string
  dr_ContractDurability :: string
  dr_AssetCode :: "string option"
  dr_AssetIssuer :: "string option"
  dr_AssetType :: "string option"
  dr_BalanceHolder :: "string option"
  dr_Balance :: "string option"
  dr_LastModifiedLedger :: i32
  dr_LedgerEntryChange :: i32
  dr_Deleted :: bool
  dr_ClosedAt :: gotime
  dr_ContractDataXDR :: string
  dr_TokenName :: "string option"
  dr_TokenSymbol :: "string option"
  dr_TokenDecimals :: "i32 option"
  dr_CreatedAt :: gotime
  dr_LedgerRange :: u32
  dr_EraID :: "string option"

definition isContractDataChange :: "change \<Rightarrow> bool" where
  "isContractDataChange ch \<longleftrightarrow> entryHasType EContractData (ch_Pre ch) \<or> entryHasType EContractData (ch_Post ch)"

text \<open>
  The contract address of an entry: none for another kind of address or one that cannot be encoded, a panic
  when the arm of the id is nil.
\<close>

definition contractAddress :: "sdk \<Rightarrow> sc_address \<Rightarrow> string option res" where
  "contractAddress E a = (case a of
     AddrContract None \<Rightarrow> Panic
   | AddrContract (Some c) \<Rightarrow> ignoreErr None (mapR Some (bindR (marshalHash E c) (strkeyEncode E VContract)))
   | _ \<Rightarrow> Ok None)"

definition dataKeyHash :: "sdk \<Rightarrow> ledger_entry \<Rightarrow> string res" where
  "dataKeyHash E le = ignoreErr [] (mapR hashHex (bindR (entryLedgerKey E le) (marshalLedgerKey E)))"

text \<open>Code, issuer and type of the asset a Stellar asset contract's instance names.\<close>

definition sacAssetColumns :: "sdk \<Rightarrow> asset option \<Rightarrow> string option \<times> string option \<times> string option" where
  "sacAssetColumns E oa = (case oa of
     None \<Rightarrow> (None, None, None)
   | Some a \<Rightarrow> if a = AssetNative then (None, None, Some ''native'')
       else (Some (assetCode E a), Some (assetIssuer E a),
         Some (if length (assetCode E a) \<le> 4 then ''credit_alphanum4'' else ''credit_alphanum12'')))"

definition sacBalanceColumns :: "sdk \<Rightarrow> (hash \<times> int) option \<Rightarrow> (string option \<times> string option) res" where
  "sacBalanceColumns E ob = (case ob of
     None \<Rightarrow> Ok (None, None)
   | Some (holder, amt) \<Rightarrow> mapR (\<lambda>h. (h, Some (showInt amt)))
       (ignoreErr None (mapR Some (strkeyEncode E VContract holder))))"

text \<open>Token name, symbol and decimals: each item of a \<open>METADATA\<close> map overwrites the one it names.\<close>

type_synonym token_metadata = "string option \<times> string option \<times> i32 option"

definition metadataItem :: "token_metadata \<Rightarrow> sc_val \<times> sc_val \<Rightarrow> token_metadata" where
  "metadataItem acc kv = (case acc of (name, symbol, decimals) \<Rightarrow> (case fst kv of
     ScvSymbol (Some key) \<Rightarrow>
       if key = ''name'' then (case snd kv of ScvString (Some s) \<Rightarrow> (Some s, symbol, decimals) | _ \<Rightarrow> acc)
       else if key = ''symbol'' then (case snd kv of ScvString (Some s) \<Rightarrow> (name, Some s, decimals) | _ \<Rightarrow> acc)
       else if key = ''decimal'' \<or> key = ''decimals'' then
         (case snd kv of ScvU32 (Some n) \<Rightarrow> (name, symbol, Some n) | _ \<Rightarrow> acc)
       else acc
   | _ \<Rightarrow> acc))"

fun storageEntry :: "sc_val \<times> sc_val \<Rightarrow> token_metadata \<Rightarrow> token_metadata res" where
  "storageEntry (ScvSymbol (Some skey), ScvMap (Some m)) acc = (if skey = ''METADATA''
     then case m of None \<Rightarrow> Panic | Some items \<Rightarrow> Ok (foldl metadataItem acc items)
     else Ok acc)"
| "storageEntry kv acc = Ok acc"

fun storageLoop :: "(sc_val \<times> sc_val) list \<Rightarrow> token_metadata \<Rightarrow> token_metadata res" where
  "storageLoop [] acc = Ok acc"
| "storageLoop (e # es) acc = bindR (storageEntry e acc) (storageLoop es)"

definition extractTokenMetadata :: "contract_data_entry \<Rightarrow> token_metadata res" where
  "extractTokenMetadata d = (case cd_Val d of
     ScvContractInstance None \<Rightarrow> Panic
   | ScvContractInstance (Some (exec, None)) \<Rightarrow> Ok (None, None, None)
   | ScvContractInstance (Some (exec, Some storage)) \<Rightarrow> storageLoop storage (None, None, None)
   | _ \<Rightarrow> Ok (None, None, None))"

definition instanceMetadata :: "contract_data_entry \<Rightarrow> token_metadata res" where
  "instanceMetadata d = (if scvType (cd_Key d) = TLedgerKeyContractInstance then extractTokenMetadata d
     else Ok (None, None, None))"

definition contractDataKey :: "contract_data_row \<Rightarrow> string" where
  "contractDataKey r = dr_ContractId r @ ''_'' @ dr_ContractKeyType r @ ''_'' @ dr_LedgerKeyHash r"

definition contractDataRow ::
    "sdk \<Rightarrow> gotime \<Rightarrow> ledger_input \<Rightarrow> change \<Rightarrow> ledger_entry \<Rightarrow> bool \<Rightarrow> contract_data_entry \<Rightarrow> string \<Rightarrow>
     contract_data_row res" where
  "contractDataRow E now input ch le deleted d contractId =
     bindR (dataKeyHash E le) (\<lambda>keyHash.
     bindR (ignoreErr [] (mapR base64Encode (marshalContractData E d))) (\<lambda>xdr.
     bindR (sacBalanceColumns E (sacBalance E le (in_NetworkPassphrase input))) (\<lambda>(holder, balance).
     mapR (\<lambda>(name, symbol, decimals).
       (case sacAssetColumns E (sacAsset E le (in_NetworkPassphrase input)) of (code, issuer, ty) \<Rightarrow>
       \<lparr>dr_ContractId = contractId, dr_LedgerSequence = in_Sequence input, dr_LedgerKeyHash = keyHash,
        dr_ContractKeyType = scvTypeString E (scvType (cd_Key d)),
        dr_ContractDurability = durabilityString E (cd_Durability d),
        dr_AssetCode = code, dr_AssetIssuer = issuer, dr_AssetType = ty,
        dr_BalanceHolder = holder, dr_Balance = balance,
        dr_LastModifiedLedger = le_LastModified le, dr_LedgerEntryChange = entryTypeNum E (ch_Type ch),
        dr_Deleted = deleted, dr_ClosedAt = in_ClosedAt input, dr_ContractDataXDR = xdr,
        dr_TokenName = name, dr_TokenSymbol = symbol, dr_TokenDecimals = decimals,
        dr_CreatedAt = now, dr_LedgerRange = in_LedgerRange input, dr_EraID = in_EraID input\<rparr>))
       (instanceMetadata d))))"

text \<open>
  The entry read is the new state, or the old one when there is none; nonce entries and entries whose
  contract cannot be named are skipped.
\<close>

definition contractDataStep ::
    "sdk \<Rightarrow> (nat \<Rightarrow> gotime) \<Rightarrow> ledger_input \<Rightarrow> nat \<times> change \<Rightarrow> (string \<times> contract_data_row) list res" where
  "contractDataStep E now input ic = (case ic of (i, ch) \<Rightarrow>
     if \<not> isContractDataChange ch then Ok []
     else case readEntry ch of
       None \<Rightarrow> Ok []
     | Some (le, deleted) \<Rightarrow> (case le_Data le of
         DContractData d \<Rightarrow>
           if scvType (cd_Key d) = TLedgerKeyNonce then Ok []
           else bindR (contractAddress E (cd_Contract d)) (\<lambda>c. case c of
             None \<Rightarrow> Ok []
           | Some contractId \<Rightarrow> mapR (\<lambda>r. [(contractDataKey r, r)])
               (contractDataRow E (now i) input ch le deleted d contractId))
       | _ \<Rightarrow> Ok []))"

definition extractContractData :: "sdk \<Rightarrow> (nat \<Rightarrow> gotime) \<Rightarrow> ledger_input \<Rightarrow> contract_data_row list res" where
  "extractContractData E now input = (case in_Changes input of
     Err e \<Rightarrow> Ok [] | Panic \<Rightarrow> Panic
   | Ok changes \<Rightarrow> collectRows (contractDataStep E now input) (enumerate 0 changes))"

section \<open>Contract code\<close>

record contract_code_row =
  cr_ContractCodeHash :: string
  cr_LedgerKeyHash :: string
  cr_ContractCodeExtV :: i32
  cr_LastModifiedLedger :: i32
  cr_LedgerEntryChange :: i32
  cr_Deleted :: bool
  cr_ClosedAt :: gotime
  cr_LedgerSequence :: u32
  cr_Metadata :: wasm_metadata  \<comment> \<open>the ten counters\<close>
  cr_CreatedAt :: gotime
  cr_LedgerRange :: u32
  cr_EraID :: "string option"

definition isContractCodeChange :: "change \<Rightarrow> bool" where
  "isContractCodeChange ch \<longleftrightarrow> entryHasType EContractCode (ch_Pre ch) \<or> entryHasType EContractCode (ch_Post ch)"

text \<open>\<open>GetContractCode\<close> of an entry of another type: the zero value.\<close>

definition getContractCode :: "ledger_entry \<Rightarrow> contract_code_entry" where
  "getContractCode le = (case le_Data le of DContractCode c \<Rightarrow> c
   | _ \<Rightarrow> \<lparr>co_ExtV = 0, co_ExtV1 = False, co_Hash = replicate 32 0, co_Code = []\<rparr>)"

text \<open>The "hash" of this table is the key's bytes in hex.\<close>

definition codeKeyHex :: "sdk \<Rightarrow> ledger_entry \<Rightarrow> string res" where
  "codeKeyHex E le = ignoreErr [] (mapR hexEncode (bindR (entryLedgerKey E le) (marshalLedgerKey E)))"

definition contractCodeRow ::
    "sdk \<Rightarrow> gotime \<Rightarrow> ledger_input \<Rightarrow> change \<Rightarrow> ledger_entry \<Rightarrow> bool \<Rightarrow> contract_code_row res" where
  "contractCodeRow E now input ch le deleted = (let code = getContractCode le in
     bindR (codeKeyHex E le) (\<lambda>keyHex.
     mapR (\<lambda>meta.
       \<lparr>cr_ContractCodeHash = hexEncode (co_Hash code), cr_LedgerKeyHash = keyHex,
        cr_ContractCodeExtV = (if co_ExtV code = 1 \<and> co_ExtV1 code then 1 else 0),
        cr_LastModifiedLedger = le_LastModified le, cr_LedgerEntryChange = entryTypeNum E (ch_Type ch),
        cr_Deleted = deleted, cr_ClosedAt = in_ClosedAt input, cr_LedgerSequence = in_Sequence input,
        cr_Metadata = meta, cr_CreatedAt = now, cr_LedgerRange = in_LedgerRange input,
        cr_EraID = in_EraID input\<rparr>)
       (parseWASMMetadata (co_Code code))))"

definition contractCodeStep ::
    "sdk \<Rightarrow> (nat \<Rightarrow> gotime) \<Rightarrow> ledger_input \<Rightarrow> nat \<times> change \<Rightarrow> (string \<times> contract_code_row) list res" where
  "contractCodeStep E now input ic = (case ic of (i, ch) \<Rightarrow>
     if \<not> isContractCodeChange ch then Ok []
     else case readEntry ch of
       None \<Rightarrow> Ok []
     | Some (le, deleted) \<Rightarrow> mapR (\<lambda>r. [(cr_ContractCodeHash r, r)])
         (contractCodeRow E (now i) input ch le deleted))"

definition extractContractCode :: "sdk \<Rightarrow> (nat \<Rightarrow> gotime) \<Rightarrow> ledger_input \<Rightarrow> contract_code_row list res" where
  "extractContractCode E now input = (case in_Changes input of
     Err e \<Rightarrow> Ok [] | Panic \<Rightarrow> Panic
   | Ok changes \<Rightarrow> collectRows (contractCodeStep E now input) (enumerate 0 changes))"

section \<open>Contract creations\<close>

record contract_creation =
  cn_ContractID :: string
  cn_CreatorAddress :: string
  cn_WasmHash :: "string option"
  cn_ExecutableType :: string
  cn_ExternalRefOwner :: "string option"
  cn_ExternalRefTag :: "string option"
  cn_CreatedLedger :: u32
  cn_CreatedAt :: gotime
  cn_LedgerRange :: u32
  cn_EraID :: "string option"

definition nullableString :: "string \<Rightarrow> string option" where
  "nullableString s = (if s = [] then None else Some s)"

fun applyExecutable :: "sdk \<Rightarrow> executable \<Rightarrow> contract_creation \<Rightarrow> contract_creation res" where
  "applyExecutable E (ExecWasm h) c =
     Ok (c\<lparr>cn_ExecutableType := ''wasm'', cn_WasmHash := nullableString (hexEncode h)\<rparr>)"
| "applyExecutable E ExecStellarAsset c = Ok (c\<lparr>cn_ExecutableType := ''stellar_asset''\<rparr>)"
| "applyExecutable E (ExecExternalRef owner tag) c = mapR (\<lambda>o'.
     c\<lparr>cn_ExecutableType := ''external_ref'', cn_ExternalRefOwner := o', cn_ExternalRefTag := nullableString tag\<rparr>)
     (ignoreErr None (mapR Some (scAddressString E owner)))"
| "applyExecutable E (ExecOther n) c = Ok (c\<lparr>cn_ExecutableType := executableTypeString E n\<rparr>)"

text \<open>The executable of a host function that creates a contract.\<close>

fun createdExecutable :: "host_function \<Rightarrow> executable option" where
  "createdExecutable (HfCreateContract e) = Some e"
| "createdExecutable (HfCreateContractV2 e) = Some e"
| "createdExecutable (HfInvokeContract a) = None"
| "createdExecutable (HfOther n) = None"

text \<open>The changes of an operation in the transaction meta; none unless there is Soroban meta.\<close>

fun metaChanges :: "tx_meta \<Rightarrow> nat \<Rightarrow> raw_change list" where
  "metaChanges (MetaV3 soroban ops) i = (if soroban \<noteq> None \<and> i < length ops then om_Changes (ops ! i) else [])"
| "metaChanges (MetaV4 soroban ops) i = (if soroban \<noteq> None \<and> i < length ops then om_Changes (ops ! i) else [])"
| "metaChanges (MetaOther n) i = []"

text \<open>The contract of a created persistent contract-data entry.\<close>

fun createdContract :: "sdk \<Rightarrow> raw_change \<Rightarrow> string option res" where
  "createdContract E (LecCreated le) = (case le_Data le of
     DContractData d \<Rightarrow> if cd_Durability d \<noteq> DurPersistent then Ok None
       else (case cd_Contract d of
         AddrContract None \<Rightarrow> Panic
       | AddrContract (Some c) \<Rightarrow> ignoreErr None (mapR Some (strkeyEncode E VContract c))
       | _ \<Rightarrow> Ok None)
   | _ \<Rightarrow> Ok None)"
| "createdContract E (LecOther t) = Ok None"

text \<open>The first one: the loop ends with the row it makes.\<close>

fun firstCreated :: "sdk \<Rightarrow> raw_change list \<Rightarrow> string option res" where
  "firstCreated E [] = Ok None"
| "firstCreated E (ch # chs) = bindR (createdContract E ch) (\<lambda>c. case c of
     Some s \<Rightarrow> Ok (Some s) | None \<Rightarrow> firstCreated E chs)"

definition newCreation :: "ledger_input \<Rightarrow> string \<Rightarrow> string \<Rightarrow> contract_creation" where
  "newCreation input contractID creator =
     \<lparr>cn_ContractID = contractID, cn_CreatorAddress = creator, cn_WasmHash = None, cn_ExecutableType = [],
      cn_ExternalRefOwner = None, cn_ExternalRefTag = None, cn_CreatedLedger = in_Sequence input,
      cn_CreatedAt = in_ClosedAt input, cn_LedgerRange = in_LedgerRange input, cn_EraID = in_EraID input\<rparr>"

definition creatorAddress :: "sdk \<Rightarrow> ledger_tx \<Rightarrow> operation \<Rightarrow> string" where
  "creatorAddress E tx op = (case op_SourceAccount op of
     Some m \<Rightarrow> accountAddress E (muxAccountId m)
   | None \<Rightarrow> accountAddress E (muxAccountId (tx_SourceAccount tx)))"

definition opCreation :: "sdk \<Rightarrow> ledger_input \<Rightarrow> ledger_tx \<Rightarrow> nat \<times> operation \<Rightarrow> contract_creation list res" where
  "opCreation E input tx iop = (case iop of (i, op) \<Rightarrow> (case op_Body op of
     OpInvokeHostFunction inv' \<Rightarrow> (case createdExecutable (ih_HostFunction inv') of
       None \<Rightarrow> Ok []
     | Some exec \<Rightarrow> bindR (firstCreated E (metaChanges (tx_Meta tx) i)) (\<lambda>c. case c of
         None \<Rightarrow> Ok []
       | Some contractID \<Rightarrow> mapR (\<lambda>r. [r])
           (applyExecutable E exec (newCreation input contractID (creatorAddress E tx op)))))
   | _ \<Rightarrow> Ok []))"

definition txCreations :: "sdk \<Rightarrow> ledger_input \<Rightarrow> ledger_tx \<Rightarrow> contract_creation list res" where
  "txCreations E input tx = (if \<not> tx_Successful tx then Ok []
     else concatR (opCreation E input tx) (enumerate 0 (tx_Operations tx)))"

definition extractContractCreations :: "sdk \<Rightarrow> ledger_input \<Rightarrow> contract_creation list res" where
  "extractContractCreations E input = (case in_Transactions input of
     Err e \<Rightarrow> Ok [] | Panic \<Rightarrow> Panic
   | Ok txs \<Rightarrow> concatR (txCreations E input) txs)"

section \<open>Contract data rows\<close>

text \<open>
  The entry a change writes a row for, with its contract, and the key and row; a change is readable when its
  body does not panic.
\<close>

type_synonym data_write = "change \<times> ledger_entry \<times> bool \<times> contract_data_entry \<times> string"

definition dataWrite :: "sdk \<Rightarrow> change \<Rightarrow> data_write option" where
  "dataWrite E ch = (if \<not> isContractDataChange ch then None
     else case readEntry ch of
       Some (le, deleted) \<Rightarrow> (case le_Data le of
         DContractData d \<Rightarrow> if scvType (cd_Key d) = TLedgerKeyNonce then None
           else (case contractAddress E (cd_Contract d) of
             Ok (Some contractId) \<Rightarrow> Some (ch, le, deleted, d, contractId) | _ \<Rightarrow> None)
       | _ \<Rightarrow> None)
     | None \<Rightarrow> None)"

definition dataWriteKey :: "sdk \<Rightarrow> data_write \<Rightarrow> string" where
  "dataWriteKey E w = (case w of (ch, le, deleted, d, contractId) \<Rightarrow>
     contractId @ ''_'' @ scvTypeString E (scvType (cd_Key d)) @ ''_''
       @ (case dataKeyHash E le of Ok h \<Rightarrow> h | _ \<Rightarrow> []))"

definition dataWriteRow :: "sdk \<Rightarrow> gotime \<Rightarrow> ledger_input \<Rightarrow> data_write \<Rightarrow> contract_data_row" where
  "dataWriteRow E now input w = (case w of (ch, le, deleted, d, contractId) \<Rightarrow>
     the (okOpt (contractDataRow E now input ch le deleted d contractId)))"

definition dataReadable :: "sdk \<Rightarrow> ledger_input \<Rightarrow> change \<Rightarrow> bool" where
  "dataReadable E input ch \<longleftrightarrow> contractDataStep E (\<lambda>i. 0) input (0, ch) \<noteq> Panic"

lemma contractDataRow_clock:
  "contractDataRow E now input ch le deleted d c
   = mapR (\<lambda>r. r\<lparr>dr_CreatedAt := now\<rparr>) (contractDataRow E 0 input ch le deleted d c)"
  by (simp add: contractDataRow_def mapR_bindR mapR_mapR split_def cong: prod.case_cong)

lemma contractDataRow_key:
  assumes "contractDataRow E now input ch le deleted d c = Ok r"
  shows "contractDataKey r = dataWriteKey E (ch, le, deleted, d, c)" "dr_Deleted r = deleted" "dr_ContractId r = c"
    "dr_LedgerSequence r = in_Sequence input"
  using assms
  by (auto simp: contractDataRow_def dataWriteKey_def contractDataKey_def bindR_Ok_iff mapR_Ok_iff split_def)

lemma contractDataRow_no_error: "contractDataRow E now input ch le deleted d c \<noteq> Err e"
proof -
  have "storageLoop es acc \<noteq> Err e" for es acc e
  proof (induction es arbitrary: acc)
    case (Cons kv es)
    have "storageEntry kv acc \<noteq> Err e" for e
      by (cases "(kv, acc)" rule: storageEntry.cases) (auto split: option.splits)
    with Cons show ?case by (auto simp: bindR_Err_iff)
  qed simp
  then have "instanceMetadata d \<noteq> Err e" for e
    by (auto simp: instanceMetadata_def extractTokenMetadata_def split: sc_val.splits option.splits)
  then show ?thesis
    by (auto simp: contractDataRow_def bindR_Err_iff mapR_Err_iff sacBalanceColumns_def dataKeyHash_def split: option.splits)
qed

lemma contractAddress_no_error: "contractAddress E a \<noteq> Err e"
  by (auto simp: contractAddress_def split: sc_address.splits option.splits)

interpretation data_table: snapshot "contractDataStep E now input" "dataReadable E input" "dataWrite E"
  "dataWriteKey E" "\<lambda>i. dataWriteRow E (now i) input" contractDataKey for E now input
proof
  fix ch i
  assume good: "dataReadable E input ch"
  have eq: "contractDataStep E now input (i, ch) = Ok (case dataWrite E ch of None \<Rightarrow> []
      | Some w \<Rightarrow> [(dataWriteKey E w, dataWriteRow E (now i) input w)])
    \<and> (\<forall>w. dataWrite E ch = Some w \<longrightarrow> contractDataKey (dataWriteRow E (now i) input w) = dataWriteKey E w)"
  proof (cases "dataWrite E ch")
    case None
    with good show ?thesis
      by (auto simp: dataWrite_def dataReadable_def contractDataStep_def contractAddress_no_error split: option.splits
          entry_data.splits res.splits if_splits)
  next
    case (Some w)
    then obtain le deleted d c where w: "w = (ch, le, deleted, d, c)" "isContractDataChange ch"
      "readEntry ch = Some (le, deleted)" "le_Data le = DContractData d" "scvType (cd_Key d) \<noteq> TLedgerKeyNonce"
      "contractAddress E (cd_Contract d) = Ok (Some c)"
      by (auto simp: dataWrite_def split: option.splits entry_data.splits res.splits if_splits)
    with good have "contractDataRow E 0 input ch le deleted d c \<noteq> Panic"
      by (auto simp: dataReadable_def contractDataStep_def)
    then have "contractDataRow E (now i) input ch le deleted d c \<noteq> Panic"
      using contractDataRow_clock [of E "now i" input ch le deleted d c]
      by (cases "contractDataRow E 0 input ch le deleted d c") auto
    then obtain r where r: "contractDataRow E (now i) input ch le deleted d c = Ok r"
      using contractDataRow_no_error by (metis res.exhaust)
    then have "dataWriteRow E (now i) input w = r" by (simp add: dataWriteRow_def w(1))
    with r w Some contractDataRow_key(1) [OF r] show ?thesis by (simp add: contractDataStep_def)
  qed
  then show "contractDataStep E now input (i, ch) = Ok (case dataWrite E ch of None \<Rightarrow> []
      | Some w \<Rightarrow> [(dataWriteKey E w, dataWriteRow E (now i) input w)])" by blast
  show "dataWrite E ch = Some w \<Longrightarrow> contractDataKey (dataWriteRow E (now i) input w) = dataWriteKey E w" for w
    using eq by blast
qed

lemma dataWriteRow_Deleted:
  assumes "dataReadable E input ch" "dataWrite E ch = Some w"
  shows "dr_Deleted (dataWriteRow E now input w) \<longleftrightarrow> ch_Post ch = None"
proof -
  obtain le deleted d c where w: "w = (ch, le, deleted, d, c)" "readEntry ch = Some (le, deleted)"
    using assms(2) by (auto simp: dataWrite_def split: option.splits entry_data.splits res.splits if_splits)
  have "contractDataStep E (\<lambda>i. now) input (0, ch) = Ok [(dataWriteKey E w, dataWriteRow E now input w)]"
    using data_table.step_eq [OF assms(1), of "\<lambda>i. now" 0] assms(2) by simp
  then have "contractDataRow E now input ch le deleted d c \<noteq> Panic"
    using assms(2) w(1)
    by (auto simp: contractDataStep_def dataWrite_def split: option.splits entry_data.splits res.splits if_splits)
  then obtain r where "contractDataRow E now input ch le deleted d c = Ok r"
    using contractDataRow_no_error by (metis res.exhaust)
  with contractDataRow_key(2) have "dr_Deleted (dataWriteRow E now input w) = deleted"
    by (simp add: dataWriteRow_def w(1))
  moreover have "deleted \<longleftrightarrow> ch_Post ch = None"
    using w(2) by (auto simp: readEntry_def split: option.splits)
  ultimately show ?thesis by simp
qed

text \<open>
  C18: the contract-data table has one row per contract, key type and key hash a change shows, in the order of
  these keys, and each row is that of the last change under its key: the new state, or the old one marked
  deleted when there is no new one; nonce entries have no row.
\<close>

theorem extractContractData_snapshot:
  assumes "in_Changes input = Ok changes" "\<forall>ch \<in> set changes. dataReadable E input ch"
  shows "\<exists>rows. extractContractData E now input = Ok rows
    \<and> map contractDataKey rows = sorted_list_of_set (dataWriteKey E ` set (List.map_filter (dataWrite E) changes))
    \<and> (\<forall>r \<in> set rows. \<exists>i w. i < length changes \<and> dataWrite E (changes ! i) = Some w
         \<and> r = dataWriteRow E (now i) input w \<and> (dr_Deleted r \<longleftrightarrow> ch_Post (changes ! i) = None)
         \<and> (\<forall>j w'. i < j \<and> j < length changes \<and> dataWrite E (changes ! j) = Some w' \<longrightarrow>
              dataWriteKey E w' \<noteq> dataWriteKey E w))"
proof -
  obtain rows where rows: "collectRows (contractDataStep E now input) (enumerate 0 changes) = Ok rows"
    "map contractDataKey rows = sorted_list_of_set (dataWriteKey E ` set (List.map_filter (dataWrite E) changes))"
    and last: "\<forall>r \<in> set rows. \<exists>i w. i < length changes \<and> dataWrite E (changes ! i) = Some w
         \<and> r = dataWriteRow E (now i) input w
         \<and> (\<forall>j w'. i < j \<and> j < length changes \<and> dataWrite E (changes ! j) = Some w' \<longrightarrow>
              dataWriteKey E w' \<noteq> dataWriteKey E w)"
    using data_table.rows [OF assms(2), of now] by blast
  have "dr_Deleted (dataWriteRow E t input w) \<longleftrightarrow> ch_Post (changes ! i) = None"
    if "i < length changes" "dataWrite E (changes ! i) = Some w" for i w t
    using that assms(2) by (intro dataWriteRow_Deleted) auto
  then have "\<exists>i w. i < length changes \<and> dataWrite E (changes ! i) = Some w
         \<and> r = dataWriteRow E (now i) input w \<and> (dr_Deleted r \<longleftrightarrow> ch_Post (changes ! i) = None)
         \<and> (\<forall>j w'. i < j \<and> j < length changes \<and> dataWrite E (changes ! j) = Some w' \<longrightarrow>
              dataWriteKey E w' \<noteq> dataWriteKey E w)" if "r \<in> set rows" for r
    using bspec [OF last that] by (elim exE conjE) (intro exI conjI; simp; fail)
  with rows show ?thesis by (simp add: extractContractData_def assms(1))
qed

definition demoDataEntry :: "hash \<Rightarrow> sc_val \<Rightarrow> sc_val \<Rightarrow> ledger_entry" where
  "demoDataEntry contract key val = \<lparr>le_LastModified = 9,
     le_Data = DContractData \<lparr>cd_Contract = AddrContract (Some contract), cd_Key = key, cd_Durability = DurPersistent,
       cd_Val = val\<rparr>, le_Sponsor = None\<rparr>"

definition demoData :: "sc_val \<Rightarrow> sc_val \<Rightarrow> change" where
  "demoData key val = \<lparr>ch_Type = EContractData, ch_ChangeType = ChUpdated, ch_Pre = None,
     ch_Post = Some (demoDataEntry [1] key val)\<rparr>"

definition demoDataChanges :: "change list" where
  "demoDataChanges = [demoData ScvLedgerKeyContractInstance (ScvContractInstance (Some (ExecStellarAsset, Some
       [(ScvSymbol (Some ''METADATA''), ScvMap (Some (Some [(ScvSymbol (Some ''name''), ScvString (Some ''a'')),
          (ScvSymbol (Some ''name''), ScvString (Some ''b''))])))]))),
     demoData (ScvLedgerKeyNonce (Some 1)) ScvVoid]"

text \<open>An SDK that cannot marshal ledger keys: the key hash stays empty.\<close>

definition keylessSdk :: sdk where
  "keylessSdk = demoSdk\<lparr>marshalLedgerKey := (\<lambda>k. Err ''no key'')\<rparr>"

theorem extractContractData_snapshot_witness:
  "\<exists>r. extractContractData keylessSdk (\<lambda>i. int i) (demoChanges demoDataChanges) = Ok [r]
     \<and> dr_TokenName r = Some ''b'' \<and> \<not> dr_Deleted r"
proof -
  let ?input = "demoChanges demoDataChanges"
  have "\<forall>ch \<in> set demoDataChanges. dataReadable keylessSdk ?input ch" by code_simp
  from extractContractData_snapshot [OF demoChanges_simps(1) this, of "\<lambda>i. int i"] obtain rows where
    rows: "extractContractData keylessSdk (\<lambda>i. int i) ?input = Ok rows"
    and last: "\<forall>r \<in> set rows. \<exists>i w. i < length demoDataChanges \<and> dataWrite keylessSdk (demoDataChanges ! i) = Some w
         \<and> r = dataWriteRow keylessSdk (int i) ?input w \<and> (dr_Deleted r \<longleftrightarrow> ch_Post (demoDataChanges ! i) = None)
         \<and> (\<forall>j w'. i < j \<and> j < length demoDataChanges \<and> dataWrite keylessSdk (demoDataChanges ! j) = Some w' \<longrightarrow>
              dataWriteKey keylessSdk w' \<noteq> dataWriteKey keylessSdk w)" by (elim exE conjE) (rule that)
  have post: "\<exists>i < length demoDataChanges. dr_Deleted r \<longleftrightarrow> ch_Post (demoDataChanges ! i) = None"
    if "r \<in> set rows" for r using bspec [OF last that] by (elim exE conjE) (intro exI conjI)
  have "mapR (map dr_TokenName) (extractContractData keylessSdk (\<lambda>i. int i) ?input) = Ok [Some ''b'']" by code_simp
  then obtain r where r: "rows = [r]" "dr_TokenName r = Some ''b''" by (auto simp: rows map_eq_Cons_conv)
  have some: "ch_Post (demoDataChanges ! i) \<noteq> None" if "i < length demoDataChanges" for i
    using that by (simp add: demoDataChanges_def demoData_def nth_Cons' split: if_splits)
  obtain i where "i < length demoDataChanges" "dr_Deleted r \<longleftrightarrow> ch_Post (demoDataChanges ! i) = None"
    using post [of r] r(1) by auto
  with some have "\<not> dr_Deleted r" by blast
  with r rows show ?thesis by simp
qed


section \<open>Token metadata\<close>

text \<open>The items of the metadata maps of an instance's storage; a nil one is dereferenced.\<close>

fun metadataItems :: "sc_val \<times> sc_val \<Rightarrow> (sc_val \<times> sc_val) list" where
  "metadataItems (ScvSymbol (Some key), ScvMap (Some (Some items))) = (if key = ''METADATA'' then items else [])"
| "metadataItems kv = []"

fun nilMetadata :: "sc_val \<times> sc_val \<Rightarrow> bool" where
  "nilMetadata (ScvSymbol (Some key), ScvMap (Some None)) = (key = ''METADATA'')"
| "nilMetadata kv = False"

text \<open>What an item sets under a name.\<close>

fun namedString :: "string \<Rightarrow> sc_val \<times> sc_val \<Rightarrow> string option" where
  "namedString n (ScvSymbol (Some key), ScvString (Some s)) = (if key = n then Some s else None)"
| "namedString n kv = None"

fun decimalsItem :: "sc_val \<times> sc_val \<Rightarrow> i32 option" where
  "decimalsItem (ScvSymbol (Some key), ScvU32 (Some d)) = (if key = ''decimal'' \<or> key = ''decimals'' then Some d else None)"
| "decimalsItem kv = None"

fun lastSome :: "'a option \<Rightarrow> ('b \<Rightarrow> 'a option) \<Rightarrow> 'b list \<Rightarrow> 'a option" where
  "lastSome d f [] = d"
| "lastSome d f (x # xs) = lastSome (case f x of None \<Rightarrow> d | Some a \<Rightarrow> Some a) f xs"

lemma lastSome_append: "lastSome d f (xs @ ys) = lastSome (lastSome d f xs) f ys"
  by (induction xs arbitrary: d) auto

definition lastOf :: "('b \<Rightarrow> 'a option) \<Rightarrow> 'b list \<Rightarrow> 'a option" where
  "lastOf f xs = (let as = List.map_filter f xs in if as = [] then None else Some (last as))"

lemma lastSome_eq: "lastSome None f xs = lastOf f xs"
proof (induction xs rule: rev_induct)
  case (snoc x xs)
  then show ?case by (cases "f x") (auto simp: lastOf_def Let_def lastSome_append map_filter_def)
qed (simp add: lastOf_def)

lemma metadataItem_fields:
  "metadataItem (name, symbol, decimals) kv =
     (case namedString ''name'' kv of None \<Rightarrow> name | Some s \<Rightarrow> Some s,
      case namedString ''symbol'' kv of None \<Rightarrow> symbol | Some s \<Rightarrow> Some s,
      case decimalsItem kv of None \<Rightarrow> decimals | Some d \<Rightarrow> Some d)"
proof (cases kv)
  case (Pair k v)
  show ?thesis
  proof (cases k)
    case (ScvSymbol key)
    then show ?thesis by (cases key; cases v) (auto simp: Pair metadataItem_def split: option.splits)
  qed (auto simp: Pair metadataItem_def)
qed

lemma metadata_fold:
  "foldl metadataItem (name, symbol, decimals) items =
     (lastSome name (namedString ''name'') items, lastSome symbol (namedString ''symbol'') items,
      lastSome decimals decimalsItem items)"
  by (induction items arbitrary: name symbol decimals) (simp_all add: metadataItem_fields)

lemma storageLoop_fold:
  "storageLoop es acc = (if \<exists>kv \<in> set es. nilMetadata kv then Panic
     else Ok (foldl metadataItem acc (concat (map metadataItems es))))"
proof (induction es arbitrary: acc)
  case (Cons kv es)
  have "storageEntry kv acc = (if nilMetadata kv then Panic else Ok (foldl metadataItem acc (metadataItems kv)))"
    by (cases "(kv, acc)" rule: storageEntry.cases) (auto split: option.splits)
  then show ?case by (auto simp: Cons.IH)
qed simp

text \<open>
  C34: the token columns of an instance: of the items of its metadata maps the last one with a string under
  "name" gives the name, and so for the symbol and for the decimals; a metadata value that is a nil map ends
  the extractor in a panic (the code checks the outer pointer only).
\<close>

theorem extractTokenMetadata_last:
  assumes "cd_Val d = ScvContractInstance (Some (exec, Some storage))"
  shows "extractTokenMetadata d = (if \<exists>kv \<in> set storage. nilMetadata kv then Panic
     else Ok (lastOf (namedString ''name'') (concat (map metadataItems storage)),
       lastOf (namedString ''symbol'') (concat (map metadataItems storage)),
       lastOf decimalsItem (concat (map metadataItems storage))))"
  by (simp add: extractTokenMetadata_def assms storageLoop_fold metadata_fold lastSome_eq)

theorem extractTokenMetadata_last_witness:
  "extractTokenMetadata \<lparr>cd_Contract = AddrContract None, cd_Key = ScvLedgerKeyContractInstance,
     cd_Durability = DurPersistent, cd_Val = ScvContractInstance (Some (ExecStellarAsset,
       Some [(ScvSymbol (Some ''METADATA''), ScvMap (Some None))]))\<rparr> = Panic"
  using extractTokenMetadata_last [of "\<lparr>cd_Contract = AddrContract None, cd_Key = ScvLedgerKeyContractInstance,
     cd_Durability = DurPersistent, cd_Val = ScvContractInstance (Some (ExecStellarAsset,
       Some [(ScvSymbol (Some ''METADATA''), ScvMap (Some None))]))\<rparr>"] by simp

section \<open>Contract code rows\<close>

definition codeWrite :: "change \<Rightarrow> (change \<times> ledger_entry \<times> bool) option" where
  "codeWrite ch = (if isContractCodeChange ch then map_option (\<lambda>e. (ch, e)) (readEntry ch) else None)"

definition codeWriteKey :: "change \<times> ledger_entry \<times> bool \<Rightarrow> string" where
  "codeWriteKey w = (case w of (ch, le, deleted) \<Rightarrow> hexEncode (co_Hash (getContractCode le)))"

definition codeWriteRow :: "sdk \<Rightarrow> gotime \<Rightarrow> ledger_input \<Rightarrow> change \<times> ledger_entry \<times> bool \<Rightarrow> contract_code_row" where
  "codeWriteRow E now input w = (case w of (ch, le, deleted) \<Rightarrow>
     the (okOpt (contractCodeRow E now input ch le deleted)))"

definition codeReadable :: "sdk \<Rightarrow> ledger_input \<Rightarrow> change \<Rightarrow> bool" where
  "codeReadable E input ch \<longleftrightarrow> contractCodeStep E (\<lambda>i. 0) input (0, ch) \<noteq> Panic"

lemma contractCodeRow_clock:
  "contractCodeRow E now input ch le deleted
   = mapR (\<lambda>r. r\<lparr>cr_CreatedAt := now\<rparr>) (contractCodeRow E 0 input ch le deleted)"
  by (simp add: contractCodeRow_def Let_def mapR_bindR mapR_mapR)

lemma parseSections_no_error: "parseSections code offset m \<noteq> Err e"
proof (induction code offset m rule: parseSections.induct)
  case (1 code offset m)
  then show ?case by (subst parseSections.simps) (auto simp: Let_def split: prod.splits)
qed

lemma contractCodeRow_Ok:
  assumes "contractCodeRow E now input ch le deleted \<noteq> Panic"
  obtains keyHex meta where "codeKeyHex E le = Ok keyHex" "parseWASMMetadata (co_Code (getContractCode le)) = Ok meta"
proof -
  have "codeKeyHex E le \<noteq> Err e" "parseWASMMetadata code \<noteq> Err e" for e code
    by (auto simp: codeKeyHex_def parseWASMMetadata_def parseSections_no_error)
  with assms that show ?thesis
    by (cases "codeKeyHex E le"; cases "parseWASMMetadata (co_Code (getContractCode le))")
      (auto simp: contractCodeRow_def Let_def)
qed

interpretation code_table: snapshot "contractCodeStep E now input" "codeReadable E input" codeWrite
  codeWriteKey "\<lambda>i. codeWriteRow E (now i) input" cr_ContractCodeHash for E now input
proof
  fix ch i
  assume good: "codeReadable E input ch"
  have eq: "contractCodeStep E now input (i, ch) = Ok (case codeWrite ch of None \<Rightarrow> []
      | Some w \<Rightarrow> [(codeWriteKey w, codeWriteRow E (now i) input w)])
    \<and> (\<forall>w. codeWrite ch = Some w \<longrightarrow> cr_ContractCodeHash (codeWriteRow E (now i) input w) = codeWriteKey w)"
  proof (cases "codeWrite ch")
    case None
    then show ?thesis by (auto simp: codeWrite_def contractCodeStep_def)
  next
    case (Some w)
    then obtain le deleted where w: "w = (ch, le, deleted)" "isContractCodeChange ch" "readEntry ch = Some (le, deleted)"
      by (auto simp: codeWrite_def split: if_splits)
    with good have "contractCodeRow E 0 input ch le deleted \<noteq> Panic"
      by (auto simp: codeReadable_def contractCodeStep_def)
    then obtain keyHex meta where "codeKeyHex E le = Ok keyHex" "parseWASMMetadata (co_Code (getContractCode le)) = Ok meta"
      by (rule contractCodeRow_Ok)
    with w Some show ?thesis
      by (simp add: contractCodeStep_def codeWriteRow_def codeWriteKey_def contractCodeRow_def Let_def)
  qed
  then show "contractCodeStep E now input (i, ch) = Ok (case codeWrite ch of None \<Rightarrow> []
      | Some w \<Rightarrow> [(codeWriteKey w, codeWriteRow E (now i) input w)])" by blast
  show "codeWrite ch = Some w \<Longrightarrow> cr_ContractCodeHash (codeWriteRow E (now i) input w) = codeWriteKey w" for w
    using eq by blast
qed

text \<open>
  The contract-code table has one row per code hash a change shows, by ascending hash, each that of the last
  change of the hash; a change of another entry type reads as a code of zeros.
\<close>

theorem extractContractCode_snapshot:
  assumes "in_Changes input = Ok changes" "\<forall>ch \<in> set changes. codeReadable E input ch"
  shows "\<exists>rows. extractContractCode E now input = Ok rows
    \<and> map cr_ContractCodeHash rows = sorted_list_of_set (codeWriteKey ` set (List.map_filter codeWrite changes))
    \<and> (\<forall>r \<in> set rows. \<exists>i w. i < length changes \<and> codeWrite (changes ! i) = Some w
         \<and> r = codeWriteRow E (now i) input w
         \<and> (\<forall>j w'. i < j \<and> j < length changes \<and> codeWrite (changes ! j) = Some w' \<longrightarrow>
              codeWriteKey w' \<noteq> codeWriteKey w))"
  using code_table.rows [OF assms(2), of now] by (simp add: extractContractCode_def assms(1))

definition demoCode :: "byte list \<Rightarrow> change" where
  "demoCode code = \<lparr>ch_Type = EContractCode, ch_ChangeType = ChCreated, ch_Pre = None,
     ch_Post = Some \<lparr>le_LastModified = 9, le_Data = DContractCode \<lparr>co_ExtV = 1, co_ExtV1 = True, co_Hash = [171],
       co_Code = code\<rparr>, le_Sponsor = None\<rparr>\<rparr>"

theorem extractContractCode_snapshot_witness:
  "\<exists>r. extractContractCode demoSdk (\<lambda>i. int i) (demoChanges [demoCode [], demoCode [0, 1]]) = Ok [r]
     \<and> cr_ContractCodeHash r = ''ab'' \<and> cr_ContractCodeExtV r = 1"
proof -
  let ?chs = "[demoCode [], demoCode [0, 1]]"
  have "mapR (map cr_ContractCodeExtV) (extractContractCode demoSdk (\<lambda>i. int i) (demoChanges ?chs)) = Ok [1]"
    by code_simp
  moreover have "\<forall>ch \<in> set ?chs. codeReadable demoSdk (demoChanges ?chs) ch" by code_simp
  from extractContractCode_snapshot [OF demoChanges_simps(1) this, of "\<lambda>i. int i"]
  have "\<exists>rows. extractContractCode demoSdk (\<lambda>i. int i) (demoChanges ?chs) = Ok rows
      \<and> map cr_ContractCodeHash rows = sorted_list_of_set (codeWriteKey ` set (List.map_filter codeWrite ?chs))"
    by (elim exE conjE) (rule exI, rule conjI)
  note snapshot = calculation this
  have "map codeWriteKey (List.map_filter codeWrite ?chs) = [''ab'', ''ab'']" by code_simp
  then have "set (map codeWriteKey (List.map_filter codeWrite ?chs)) = {''ab''}" by (simp only:) simp
  then have keys: "codeWriteKey ` set (List.map_filter codeWrite ?chs) = {''ab''}" by (simp only: set_map)
  have one: "sorted_list_of_set {''ab''} = [''ab'']" by simp
  from snapshot(2) obtain rows where rows: "extractContractCode demoSdk (\<lambda>i. int i) (demoChanges ?chs) = Ok rows"
    "map cr_ContractCodeHash rows = sorted_list_of_set (codeWriteKey ` set (List.map_filter codeWrite ?chs))"
    by (elim exE conjE) (rule that)
  from snapshot(1) have "map cr_ContractCodeExtV rows = [1]" by (simp only: rows(1) mapR.simps res.inject)
  moreover have "map cr_ContractCodeHash rows = [''ab'']" by (simp only: rows(2) keys one)
  ultimately show ?thesis using rows(1) by (auto simp: map_eq_Cons_conv)
qed

section \<open>Contract creation rows\<close>

text \<open>
  A change that creates a persistent contract-data entry of a contract, with the contract's strkey; and the rest of
  what a creation row says, written out: the creator, and the columns of each kind of executable.
\<close>

definition namesContract :: "sdk \<Rightarrow> raw_change \<Rightarrow> string \<Rightarrow> bool" where
  "namesContract E ch s \<longleftrightarrow> (\<exists>le d c. ch = LecCreated le \<and> le_Data le = DContractData d
     \<and> cd_Durability d = DurPersistent \<and> cd_Contract d = AddrContract (Some c) \<and> strkeyEncode E VContract c = Ok s)"

definition firstNamed :: "sdk \<Rightarrow> raw_change list \<Rightarrow> string \<Rightarrow> bool" where
  "firstNamed E chs s \<longleftrightarrow> (\<exists>us ch vs. chs = us @ ch # vs \<and> (\<forall>u \<in> set us. \<forall>s'. \<not> namesContract E u s') \<and> namesContract E ch s)"

definition executableColumns :: "sdk \<Rightarrow> executable \<Rightarrow> contract_creation \<Rightarrow> bool" where
  "executableColumns E exec r = (case exec of
     ExecWasm h \<Rightarrow> cn_ExecutableType r = ''wasm'' \<and> cn_WasmHash r = (if h = [] then None else Some (hexEncode h))
       \<and> cn_ExternalRefOwner r = None \<and> cn_ExternalRefTag r = None
   | ExecStellarAsset \<Rightarrow> cn_ExecutableType r = ''stellar_asset'' \<and> cn_WasmHash r = None
       \<and> cn_ExternalRefOwner r = None \<and> cn_ExternalRefTag r = None
   | ExecExternalRef owner tag \<Rightarrow> cn_ExecutableType r = ''external_ref'' \<and> cn_WasmHash r = None
       \<and> (case scAddressString E owner of Ok t \<Rightarrow> cn_ExternalRefOwner r = Some t
          | Err e \<Rightarrow> cn_ExternalRefOwner r = None | Panic \<Rightarrow> False)
       \<and> cn_ExternalRefTag r = (if tag = [] then None else Some tag)
   | ExecOther n \<Rightarrow> cn_ExecutableType r = executableTypeString E n \<and> cn_WasmHash r = None
       \<and> cn_ExternalRefOwner r = None \<and> cn_ExternalRefTag r = None)"

text \<open>The row of operation \<open>i\<close> of a transaction, when it has one; every column of it is fixed.\<close>

definition creationAt :: "sdk \<Rightarrow> ledger_input \<Rightarrow> ledger_tx \<Rightarrow> nat \<Rightarrow> contract_creation \<Rightarrow> bool" where
  "creationAt E input tx i r \<longleftrightarrow> tx_Successful tx \<and> i < length (tx_Operations tx)
     \<and> (\<exists>host exec. op_Body (tx_Operations tx ! i) = OpInvokeHostFunction host
          \<and> (ih_HostFunction host = HfCreateContract exec \<or> ih_HostFunction host = HfCreateContractV2 exec)
          \<and> executableColumns E exec r)
     \<and> firstNamed E (metaChanges (tx_Meta tx) i) (cn_ContractID r)
     \<and> cn_CreatorAddress r = accountAddress E (muxAccountId (case op_SourceAccount (tx_Operations tx ! i) of
          Some m \<Rightarrow> m | None \<Rightarrow> tx_SourceAccount tx))
     \<and> cn_CreatedLedger r = in_Sequence input \<and> cn_CreatedAt r = in_ClosedAt input
     \<and> cn_LedgerRange r = in_LedgerRange input \<and> cn_EraID r = in_EraID input"

lemma ignoreErr_Some_iff: "ignoreErr None (mapR Some a) = Ok (Some s) \<longleftrightarrow> a = Ok s"
  by (cases a) auto

lemma createdContract_names: "createdContract E ch = Ok (Some s) \<longleftrightarrow> namesContract E ch s"
  by (cases "(E, ch)" rule: createdContract.cases)
    (auto simp: namesContract_def mapR_Ok_iff ignoreErr_Some_iff split: entry_data.splits sc_address.splits option.splits)

lemma firstNamed_Cons:
  "firstNamed E (ch # chs) s \<longleftrightarrow> namesContract E ch s \<or> (\<forall>s'. \<not> namesContract E ch s') \<and> firstNamed E chs s"
proof
  assume "firstNamed E (ch # chs) s"
  then obtain us c vs where s: "ch # chs = us @ c # vs" "\<forall>u \<in> set us. \<forall>s'. \<not> namesContract E u s'" "namesContract E c s"
    by (auto simp: firstNamed_def)
  then show "namesContract E ch s \<or> (\<forall>s'. \<not> namesContract E ch s') \<and> firstNamed E chs s"
    by (cases us) (auto simp: firstNamed_def)
next
  assume "namesContract E ch s \<or> (\<forall>s'. \<not> namesContract E ch s') \<and> firstNamed E chs s"
  then show "firstNamed E (ch # chs) s"
  proof
    assume "namesContract E ch s"
    then show ?thesis unfolding firstNamed_def by (intro exI [of _ "[]"]) simp
  next
    assume c: "(\<forall>s'. \<not> namesContract E ch s') \<and> firstNamed E chs s"
    then obtain us c vs where "chs = us @ c # vs" "\<forall>u \<in> set us. \<forall>s'. \<not> namesContract E u s'" "namesContract E c s"
      by (auto simp: firstNamed_def)
    with c show ?thesis unfolding firstNamed_def by (intro exI [of _ "ch # us"]) auto
  qed
qed

lemma firstCreated_names: "firstCreated E chs = Ok found \<Longrightarrow> found = Some s \<longleftrightarrow> firstNamed E chs s"
proof (induction chs)
  case Nil
  then show ?case by (simp add: firstNamed_def)
next
  case (Cons ch chs)
  from Cons.prems obtain c where c: "createdContract E ch = Ok c" by (auto simp: bindR_Ok_iff)
  have names: "namesContract E ch s' \<longleftrightarrow> c = Some s'" for s' using createdContract_names [of E ch s'] c by auto
  with Cons c show ?case by (cases c) (auto simp: firstNamed_Cons)
qed

lemma applyExecutable_columns:
  "applyExecutable E exec (newCreation input contractID creator) = Ok r \<longleftrightarrow> executableColumns E exec r
     \<and> cn_ContractID r = contractID \<and> cn_CreatorAddress r = creator \<and> cn_CreatedLedger r = in_Sequence input
     \<and> cn_CreatedAt r = in_ClosedAt input \<and> cn_LedgerRange r = in_LedgerRange input \<and> cn_EraID r = in_EraID input"
proof (cases exec)
  case (ExecExternalRef owner tag)
  then show ?thesis
    by (cases r; cases "scAddressString E owner") (auto simp: newCreation_def executableColumns_def nullableString_def)
qed (cases r; auto simp: newCreation_def executableColumns_def nullableString_def)+

lemma creator_eq:
  "creatorAddress E tx op = accountAddress E (muxAccountId (case op_SourceAccount op of Some m \<Rightarrow> m | None \<Rightarrow> tx_SourceAccount tx))"
  by (simp add: creatorAddress_def split: option.split)

lemma createdExecutable_iff: "createdExecutable h = Some exec \<longleftrightarrow> h = HfCreateContract exec \<or> h = HfCreateContractV2 exec"
  by (cases h) auto

lemma opCreation_mem:
  assumes "opCreation E input tx (i, op) = Ok rs"
  shows "r \<in> set rs \<longleftrightarrow> (\<exists>host exec contractID. op_Body op = OpInvokeHostFunction host
     \<and> createdExecutable (ih_HostFunction host) = Some exec
     \<and> firstCreated E (metaChanges (tx_Meta tx) i) = Ok (Some contractID)
     \<and> applyExecutable E exec (newCreation input contractID (creatorAddress E tx op)) = Ok r)"
    and "length rs \<le> 1"
  using assms by (auto simp: opCreation_def bindR_Ok_iff mapR_Ok_iff split: op_body.splits option.splits)

lemma opCreation_firstNamed:
  assumes "opCreation E input tx (i, op) = Ok rs" "op_Body op = OpInvokeHostFunction host"
    "createdExecutable (ih_HostFunction host) = Some exec"
  shows "firstCreated E (metaChanges (tx_Meta tx) i) = Ok (Some s) \<longleftrightarrow> firstNamed E (metaChanges (tx_Meta tx) i) s"
proof -
  obtain found where "firstCreated E (metaChanges (tx_Meta tx) i) = Ok found"
    using assms by (auto simp: opCreation_def bindR_Ok_iff)
  then show ?thesis using firstCreated_names by fastforce
qed

lemma opCreation_creationAt:
  assumes "opCreation E input tx (i, tx_Operations tx ! i) = Ok rs" "i < length (tx_Operations tx)" "tx_Successful tx"
  shows "r \<in> set rs \<longleftrightarrow> creationAt E input tx i r"
proof -
  let ?op = "tx_Operations tx ! i" and ?chs = "metaChanges (tx_Meta tx) i"
  have "r \<in> set rs \<longleftrightarrow> (\<exists>host exec contractID. op_Body ?op = OpInvokeHostFunction host
     \<and> createdExecutable (ih_HostFunction host) = Some exec \<and> firstNamed E ?chs contractID
     \<and> applyExecutable E exec (newCreation input contractID (creatorAddress E tx ?op)) = Ok r)"
    unfolding opCreation_mem(1) [OF assms(1)] using opCreation_firstNamed [OF assms(1)] by blast
  then show ?thesis
    unfolding applyExecutable_columns creator_eq createdExecutable_iff creationAt_def using assms(2,3) by blast
qed

text \<open>The places of the operations of a ledger, in order.\<close>

definition creationPlaces :: "ledger_tx list \<Rightarrow> (ledger_tx \<times> nat) list" where
  "creationPlaces txs = concat (map (\<lambda>tx. map (Pair tx) [0 ..< length (tx_Operations tx)]) txs)"

lemma concatR_list_all2:
  assumes "concatR f xs = Ok rs" "\<And>x as. x \<in> set xs \<Longrightarrow> f x = Ok as \<Longrightarrow> list_all2 P (ps x) as"
  shows "list_all2 P (concat (map ps xs)) rs"
  using assms
proof (induction xs arbitrary: rs)
  case (Cons x xs)
  then obtain as bs where "f x = Ok as" "concatR f xs = Ok bs" "rs = as @ bs" by (auto simp: bindR_Ok_iff)
  with Cons show ?case by (auto intro!: list_all2_appendI)
qed simp

lemma txCreations_places:
  assumes "txCreations E input tx = Ok rs"
  shows "list_all2 (\<lambda>(tx, i). creationAt E input tx i)
    (filter (\<lambda>(tx, i). \<exists>r. creationAt E input tx i r) (map (Pair tx) [0 ..< length (tx_Operations tx)])) rs"
    (is "list_all2 ?at (filter ?has _) rs")
proof (cases "tx_Successful tx")
  case False
  then have "\<not> creationAt E input tx i r" for i r by (simp add: creationAt_def)
  with False assms show ?thesis by (simp add: txCreations_def)
next
  case True
  with assms have ops: "concatR (opCreation E input tx) (enumerate 0 (tx_Operations tx)) = Ok rs"
    by (simp add: txCreations_def)
  let ?ps = "\<lambda>iop. filter ?has [(tx, fst iop)]"
  have "list_all2 ?at (concat (map ?ps (enumerate 0 (tx_Operations tx)))) rs"
  proof (rule concatR_list_all2 [OF ops])
    fix iop as assume "iop \<in> set (enumerate 0 (tx_Operations tx))" "opCreation E input tx iop = Ok as"
    moreover obtain i op where "iop = (i, op)" by (cases iop) auto
    ultimately have iop: "iop = (i, tx_Operations tx ! i)" "i < length (tx_Operations tx)"
      "opCreation E input tx (i, tx_Operations tx ! i) = Ok as" by (auto simp: in_set_enumerate_eq)
    have at: "r \<in> set as \<longleftrightarrow> creationAt E input tx i r" for r using opCreation_creationAt [OF iop(3,2) True] .
    show "list_all2 ?at (?ps iop) as"
      using opCreation_mem(2) [OF iop(3)] at by (cases as) (auto simp: iop(1))
  qed
  moreover have "concat (map ?ps ios) = filter ?has (map (Pair tx) (map fst ios))" for ios :: "(nat \<times> operation) list"
    by (induction ios) simp_all
  ultimately show ?thesis by (simp del: map_map)
qed

text \<open>
  C36: the creation table has, in ledger order, exactly one row for each operation of a successful transaction that
  invokes \<open>CREATE_CONTRACT\<close> or \<open>CREATE_CONTRACT_V2\<close> and whose meta shows a created persistent contract-data entry: the
  contract is that of the first such entry, the creator the source of the operation, or of the transaction when it
  has none of its own, and the executable's type, WASM hash, owner and tag are those of the host function.
\<close>

theorem contract_creation_rows:
  assumes "in_Transactions input = Ok txs" "extractContractCreations E input = Ok rows"
  shows "list_all2 (\<lambda>(tx, i). creationAt E input tx i)
    (filter (\<lambda>(tx, i). \<exists>r. creationAt E input tx i r) (creationPlaces txs)) rows"
proof -
  have rows: "concatR (txCreations E input) txs = Ok rows"
    using assms by (simp add: extractContractCreations_def)
  have "filter Q (creationPlaces txs) = concat (map (\<lambda>tx. filter Q (map (Pair tx) [0 ..< length (tx_Operations tx)])) txs)" for Q
    by (simp add: creationPlaces_def filter_concat comp_def)
  then show ?thesis using concatR_list_all2 [OF rows txCreations_places] by simp
qed


text \<open>
  The witnesses: a deployment by an operation with a source of its own, whose meta lists an update
  before two created entries.
\<close>

definition demoDeploy2 :: ledger_tx where
  "demoDeploy2 = demoTx\<lparr>tx_Operations := [\<lparr>op_SourceAccount = Some (MuxEd25519 [3]),
       op_Body = OpInvokeHostFunction \<lparr>ih_HostFunction = HfCreateContract (ExecWasm [16]), ih_Auth = []\<rparr>\<rparr>],
     tx_Meta := MetaV4 (Some None) [\<lparr>om_Changes = LecOther ChUpdated
       # map (\<lambda>c. LecCreated (demoDataEntry c ScvLedgerKeyContractInstance ScvVoid)) [[1], [2]], om_Events = []\<rparr>]\<rparr>"

lemma demoDeploy2_rows:
  obtains r where "extractContractCreations demoSdk (demoTxs [demoDeploy2]) = Ok [r]"
    "opCreation demoSdk (demoTxs []) demoDeploy2 (0, tx_Operations demoDeploy2 ! 0) = Ok [r]"
proof -
  have "mapR length (extractContractCreations demoSdk (demoTxs [demoDeploy2])) = Ok 1" by code_simp
  then obtain r where r: "extractContractCreations demoSdk (demoTxs [demoDeploy2]) = Ok [r]"
    by (auto simp: mapR_Ok_iff) (metis One_nat_def length_0_conv length_Suc_conv)
  moreover have "opCreation demoSdk (demoTxs []) demoDeploy2 (0, tx_Operations demoDeploy2 ! 0)
      = extractContractCreations demoSdk (demoTxs [demoDeploy2])" by code_simp
  ultimately show ?thesis using that by metis
qed

theorem contract_creation_rows_witness:
  "\<exists>r. extractContractCreations demoSdk (demoTxs [demoDeploy2]) = Ok [r]
     \<and> cn_CreatorAddress r = ''GAD'' \<and> cn_ExecutableType r = ''wasm'' \<and> cn_WasmHash r = Some ''10''"
proof -
  obtain r where r: "extractContractCreations demoSdk (demoTxs [demoDeploy2]) = Ok [r]"
    using demoDeploy2_rows by metis
  have addr: "accountAddress demoSdk [3] = ''GAD''" "hexEncode [16] = ''10''" by code_simp+
  have places: "creationPlaces [demoDeploy2] = [(demoDeploy2, 0)]" by (simp add: creationPlaces_def demoDeploy2_def)
  from contract_creation_rows [OF demoTxs_simps(1) r] have "creationAt demoSdk (demoTxs [demoDeploy2]) demoDeploy2 0 r"
    unfolding places by (simp split: if_splits)
  then show ?thesis
    using r by (auto simp: creationAt_def demoDeploy2_def executableColumns_def addr)
qed


end
