(* ===== verification/Transactions.thy ===== *)
theory Transactions
  imports ContractError Input
begin

text \<open>
  \<open>transactions.go\<close>: a row per transaction, whatever its outcome.  One field that cannot be read ends
  the extractor with an error.
\<close>

section \<open>Rows\<close>

record transaction_data =
  td_LedgerSequence :: u32
  td_TransactionHash :: string
  td_SourceAccount :: string
  td_SourceAccountMuxed :: "string option"
  td_FeeCharged :: i64
  td_MaxFee :: i64
  td_Successful :: bool
  td_TransactionResultCode :: string
  td_OperationCount :: nat
  td_MemoType :: "string option"
  td_Memo :: "string option"
  td_MemoRaw :: "string option"
  td_CreatedAt :: gotime
  td_AccountSequence :: i64
  td_LedgerRange :: u32
  td_SignaturesCount :: nat
  td_NewAccount :: bool
  td_TimeboundsMinTime :: "i64 option"
  td_TimeboundsMaxTime :: "i64 option"
  td_SorobanHostFunctionType :: "string option"
  td_SorobanContractID :: "string option"
  td_RentFeeCharged :: "i64 option"
  td_SorobanResourcesInstructions :: "i64 option"
  td_SorobanResourcesReadBytes :: "i64 option"
  td_SorobanResourcesWriteBytes :: "i64 option"
  td_SorobanFootprintReadEntries :: "i32 option"
  td_SorobanFootprintWriteEntries :: "i32 option"
  td_ContractErrorType :: "string option"
  td_ContractErrorCode :: "i32 option"
  td_FeeBumpFee :: "i64 option"
  td_InnerTransactionHash :: "string option"
  td_InnerSourceAccount :: "string option"
  td_FeeAccountMuxed :: "string option"
  td_LedgerboundsMin :: "i64 option"
  td_LedgerboundsMax :: "i64 option"
  td_MinSequenceNumber :: "i64 option"
  td_MinSequenceAge :: "i64 option"
  td_ExtraSigners :: "string option"
  td_SorobanDataSizeBytes :: "i32 option"
  td_SorobanDataResources :: "string option"
  td_SorobanContractEventsCount :: "i32 option"
  td_TxEnvelope :: "string option"
  td_TxResult :: "string option"
  td_TxMeta :: "string option"
  td_TxFeeMeta :: "string option"
  td_TxSigners :: "string option"
  td_EnvelopeSizeBytes :: nat
  td_TransactionID :: i64
  td_EraID :: "string option"

section \<open>Columns read from the envelope and the meta\<close>

text \<open>\<open>account.Address()\<close> of a muxed account is its M-address.\<close>

fun getMuxedAddress :: "sdk \<Rightarrow> muxed_account \<Rightarrow> string option" where
  "getMuxedAddress E (MuxMed25519 i k) = Some (muxedAddress E (MuxMed25519 i k))"
| "getMuxedAddress E (MuxEd25519 k) = None"

text \<open>Two helpers nothing calls: the text of an asset, and the base64 of what marshals.\<close>

fun getAssetString :: "sdk \<Rightarrow> asset \<Rightarrow> string" where
  "getAssetString E AssetNative = ''native''"
| "getAssetString E (Asset4 code issuer) = bytesString code @ '':'' @ accountAddress E issuer"
| "getAssetString E (Asset12 code issuer) = bytesString code @ '':'' @ accountAddress E issuer"
| "getAssetString E AssetPoolShare = []"
| "getAssetString E (AssetOther n) = []"

definition marshalToBase64 :: "byte list res \<Rightarrow> string option res" where
  "marshalToBase64 marshalled = ignoreErr None (mapR (\<lambda>bs. Some (base64Encode bs)) marshalled)"

text \<open>
  The type of the first host function the transaction invokes, and the contract it calls.  An address that
  has no text, or the empty one, leaves the contract null.
\<close>

fun firstInvocation :: "operation list \<Rightarrow> invoke_op option" where
  "firstInvocation [] = None"
| "firstInvocation (op # ops) = (case op_Body op of OpInvokeHostFunction host \<Rightarrow> Some host | _ \<Rightarrow> firstInvocation ops)"

definition addressText :: "sdk \<Rightarrow> sc_address \<Rightarrow> string option res" where
  "addressText E a = ignoreErr None (mapR (\<lambda>s. if s = [] then None else Some s) (scAddressString E a))"

definition invokedContract :: "sdk \<Rightarrow> host_function \<Rightarrow> string option res" where
  "invokedContract E h = (case h of HfInvokeContract (Some args) \<Rightarrow> addressText E (ic_ContractAddress args) | _ \<Rightarrow> Ok None)"

definition hostFunctionColumns :: "sdk \<Rightarrow> operation list \<Rightarrow> (string option \<times> string option) res" where
  "hostFunctionColumns E ops = (case firstInvocation ops of
     None \<Rightarrow> Ok (None, None)
   | Some host \<Rightarrow> mapR (\<lambda>c. (Some (hostFunctionTypeString E (ih_HostFunction host)), c))
       (invokedContract E (ih_HostFunction host)))"

text \<open>Memo type, memo and raw memo.  A memo of an unknown type leaves all three null.\<close>

fun memoColumns :: "memo \<Rightarrow> string option \<times> string option \<times> string option" where
  "memoColumns MemoNone = (Some ''none'', None, None)"
| "memoColumns (MemoText t) = (Some ''text'', if utf8Valid t then Some t else None, Some (base64Encode (stringBytes t)))"
| "memoColumns (MemoId i) = (Some ''id'', Some (udec i), None)"
| "memoColumns (MemoHash h) = (Some ''hash'', Some (hexEncode h), None)"
| "memoColumns (MemoReturn h) = (Some ''return'', Some (hexEncode h), None)"
| "memoColumns (MemoOther n) = (None, None, None)"

definition isCreateAccount :: "operation \<Rightarrow> bool" where
  "isCreateAccount op \<longleftrightarrow> (case op_Body op of OpCreateAccount d b \<Rightarrow> True | _ \<Rightarrow> False)"

text \<open>The extension of the Soroban meta, none without Soroban meta; it is its rent fee, if it is of version 1.\<close>

fun sorobanMetaExt :: "tx_meta \<Rightarrow> i64 option option" where
  "sorobanMetaExt (MetaV3 soroban ops) = map_option snd soroban"
| "sorobanMetaExt (MetaV4 soroban ops) = soroban"
| "sorobanMetaExt (MetaOther n) = None"

definition rentFee :: "tx_meta \<Rightarrow> i64 option" where
  "rentFee m = (case sorobanMetaExt m of Some (Some fee) \<Rightarrow> Some fee | _ \<Rightarrow> None)"

text \<open>The row before the \<open>populate\<close> functions; \<open>int64\<close> of an unsigned 64-bit time keeps the bits.\<close>

definition baseRow ::
    "sdk \<Rightarrow> ledger_input \<Rightarrow> ledger_tx \<Rightarrow> string option \<times> string option \<Rightarrow> error_facts \<Rightarrow> transaction_data" where
  "baseRow E input tx host facts =
     (let info = tx_Info tx; (memoType, memo, memoRaw) = memoColumns (ti_Memo info);
          (errorType, errorCode, failed) = facts
      in \<lparr>td_LedgerSequence = in_Sequence input, td_TransactionHash = hexEncode (tx_Hash tx),
      td_SourceAccount = accountAddress E (muxAccountId (tx_SourceAccount tx)),
      td_SourceAccountMuxed = getMuxedAddress E (tx_SourceAccount tx),
      td_FeeCharged = ti_FeeCharged info, td_MaxFee = ti_Fee info, td_Successful = tx_Successful tx,
      td_TransactionResultCode = ti_ResultCode info, td_OperationCount = length (tx_Operations tx),
      td_MemoType = memoType, td_Memo = memo, td_MemoRaw = memoRaw, td_CreatedAt = in_ClosedAt input,
      td_AccountSequence = ti_SeqNum info, td_LedgerRange = in_LedgerRange input,
      td_SignaturesCount = length (ti_Signatures info), td_NewAccount = (\<exists>op \<in> set (tx_Operations tx). isCreateAccount op),
      td_TimeboundsMinTime = map_option fst (ti_TimeBounds info),
      td_TimeboundsMaxTime = map_option snd (ti_TimeBounds info),
      td_SorobanHostFunctionType = fst host, td_SorobanContractID = snd host,
      td_RentFeeCharged = rentFee (tx_Meta tx),
      td_SorobanResourcesInstructions = map_option ucast (ti_Instructions info),
      td_SorobanResourcesReadBytes = map_option ucast (ti_DiskReadBytes info),
      td_SorobanResourcesWriteBytes = map_option ucast (ti_WriteBytes info),
      td_SorobanFootprintReadEntries = map_option (\<lambda>d. of_nat (length (sb_ReadOnly d))) (ti_SorobanData info),
      td_SorobanFootprintWriteEntries = map_option (\<lambda>d. of_nat (length (sb_ReadWrite d))) (ti_SorobanData info),
      td_ContractErrorType = (if failed then Some errorType else None),
      td_ContractErrorCode = (if failed then errorCode else None),
      td_FeeBumpFee = None, td_InnerTransactionHash = None, td_InnerSourceAccount = None,
      td_FeeAccountMuxed = None, td_LedgerboundsMin = None, td_LedgerboundsMax = None,
      td_MinSequenceNumber = None, td_MinSequenceAge = None, td_ExtraSigners = None,
      td_SorobanDataSizeBytes = None, td_SorobanDataResources = None, td_SorobanContractEventsCount = None,
      td_TxEnvelope = None, td_TxResult = None, td_TxMeta = None, td_TxFeeMeta = None, td_TxSigners = None,
      td_EnvelopeSizeBytes = 0, td_TransactionID = 0, td_EraID = in_EraID input\<rparr>)"

section \<open>The populate functions\<close>

text \<open>The decoder's error names the offending position too; the text here leaves it out.\<close>

definition decodedBase64Length :: "string \<Rightarrow> nat res" where
  "decodedBase64Length encoded = (case base64Decode encoded of
     Some raw \<Rightarrow> Ok (length raw) | None \<Rightarrow> Err ''illegal base64 data'')"

definition marshalDecoratedSignatures :: "byte list list \<Rightarrow> string" where
  "marshalDecoratedSignatures signatures = jsonArray (map (\<lambda>s. jsonString (base64Encode s)) signatures)"

definition populateTransactionXDRFields :: "ledger_tx \<Rightarrow> transaction_data \<Rightarrow> transaction_data res" where
  "populateTransactionXDRFields tx row = (let info = tx_Info tx in
     bindR (wrapErr ''marshal envelope'' (ti_EnvelopeB64 info)) (\<lambda>envelope.
     bindR (wrapErr ''size envelope'' (decodedBase64Length envelope)) (\<lambda>size.
     bindR (wrapErr ''marshal result'' (ti_ResultB64 info)) (\<lambda>result.
     bindR (wrapErr ''marshal meta'' (ti_MetaB64 info)) (\<lambda>meta.
     bindR (wrapErr ''marshal fee meta'' (ti_FeeChangesB64 info)) (\<lambda>feeMeta.
     Ok (row\<lparr>td_EnvelopeSizeBytes := size, td_TxEnvelope := Some envelope, td_TxResult := Some result,
       td_TxMeta := Some meta, td_TxFeeMeta := Some feeMeta,
       td_TxSigners := Some (marshalDecoratedSignatures (ti_Signatures info))\<rparr>)))))))"

definition populateFeeBumpFields :: "sdk \<Rightarrow> ledger_tx \<Rightarrow> string \<Rightarrow> transaction_data \<Rightarrow> transaction_data res" where
  "populateFeeBumpFields E tx passphrase row = (case ti_FeeBump (tx_Info tx) of
     None \<Rightarrow> Ok row
   | Some fb \<Rightarrow>
       let row = row\<lparr>td_FeeBumpFee := Some (fb_Fee fb), td_FeeAccountMuxed := getMuxedAddress E (fb_FeeAccount fb)\<rparr>
       in (case fb_InnerV1 fb of
         None \<Rightarrow> Err (''fee bump inner transaction has unhandled type '' @ sdec (fb_InnerType fb))
       | Some source \<Rightarrow> mapR (\<lambda>h.
           row\<lparr>td_InnerSourceAccount := Some (accountAddress E (muxAccountId source)),
             td_InnerTransactionHash := Some (hexEncode h)\<rparr>)
           (wrapErr ''hash inner transaction'' (fb_InnerHash fb passphrase))))"

text \<open>\<open>MinSeqAge\<close> is no pointer: zero counts as not declared.\<close>

definition populatePreconditionFields :: "sdk \<Rightarrow> ledger_tx \<Rightarrow> transaction_data \<Rightarrow> transaction_data" where
  "populatePreconditionFields E tx row = (case ti_Preconditions (tx_Info tx) of
     None \<Rightarrow> row
   | Some cond \<Rightarrow> row\<lparr>
       td_LedgerboundsMin := map_option (\<lambda>b. ucast (fst b)) (pc_LedgerBounds cond),
       td_LedgerboundsMax := map_option (\<lambda>b. ucast (snd b)) (pc_LedgerBounds cond),
       td_MinSequenceNumber := pc_MinSeqNum cond,
       td_MinSequenceAge := (if pc_MinSeqAge cond = 0 then None else Some (pc_MinSeqAge cond)),
       td_ExtraSigners := (if pc_ExtraSigners cond = [] then None
         else Some (jsonArray (map (\<lambda>k. jsonString (signerKeyAddress E k)) (pc_ExtraSigners cond))))\<rparr>)"

definition resourcesJSON :: "soroban_data \<Rightarrow> string" where
  "resourcesJSON d = jsonMarshal (GMap [(''instructions'', GInt (uint (sb_Instructions d))),
     (''disk_read_bytes'', GInt (uint (sb_DiskReadBytes d))), (''write_bytes'', GInt (uint (sb_WriteBytes d))),
     (''footprint_read'', GInt (int (length (sb_ReadOnly d)))),
     (''footprint_write'', GInt (int (length (sb_ReadWrite d)))),
     (''resource_fee'', GInt (sint (sb_ResourceFee d)))])"

definition declaredResources :: "sdk \<Rightarrow> ledger_tx \<Rightarrow> transaction_data \<Rightarrow> transaction_data res" where
  "declaredResources E tx row = (case ti_SorobanData (tx_Info tx) of
     None \<Rightarrow> Ok row
   | Some d \<Rightarrow> mapR (\<lambda>encoded.
       row\<lparr>td_SorobanDataSizeBytes := Some (of_nat (length encoded)), td_SorobanDataResources := Some (resourcesJSON d)\<rparr>)
       (wrapErr ''marshal soroban data'' (marshalSorobanData E d)))"

definition contractEventsTotal :: "tx_events \<Rightarrow> i32" where
  "contractEventsTotal evs = foldl (\<lambda>n os. n + of_nat (length os)) 0 (te_OperationEvents evs)"

definition populateSorobanDeclaredFields :: "sdk \<Rightarrow> ledger_tx \<Rightarrow> transaction_data \<Rightarrow> transaction_data res" where
  "populateSorobanDeclaredFields E tx row = bindR (declaredResources E tx row) (\<lambda>row.
     if \<not> ti_IsSoroban (tx_Info tx) then Ok row
     else mapR (\<lambda>evs. row\<lparr>td_SorobanContractEventsCount := Some (contractEventsTotal evs)\<rparr>)
       (wrapErr ''transaction events'' (tx_Events tx)))"

section \<open>ExtractTransactions\<close>

definition transactionRow :: "sdk \<Rightarrow> ledger_input \<Rightarrow> nat \<times> ledger_tx \<Rightarrow> transaction_data res" where
  "transactionRow E input itx = (case itx of (i, tx) \<Rightarrow> (let prefix = ''transaction '' @ hexEncode (tx_Hash tx) in
     bindR (hostFunctionColumns E (tx_Operations tx)) (\<lambda>host.
     bindR (contractErrorFacts tx) (\<lambda>facts.
     bindR (wrapErr prefix (populateTransactionXDRFields tx (baseRow E input tx host facts))) (\<lambda>row.
     bindR (wrapErr prefix (populateFeeBumpFields E tx (in_NetworkPassphrase input) row)) (\<lambda>row.
     bindR (wrapErr prefix (populateSorobanDeclaredFields E tx (populatePreconditionFields E tx row))) (\<lambda>row.
     mapR (\<lambda>txId. row\<lparr>td_TransactionID := txId\<rparr>)
       (toidInt64 E (in_Sequence input) (of_nat i + 1) 0))))))))"

definition extractTransactions :: "sdk \<Rightarrow> ledger_input \<Rightarrow> transaction_data list res" where
  "extractTransactions E input = (case in_Transactions input of
     Err e \<Rightarrow> Err (''failed to read transactions: '' @ e) | Panic \<Rightarrow> Panic
   | Ok txs \<Rightarrow> seqR (map (transactionRow E input) (enumerate 0 txs)))"

section \<open>What the rows say\<close>

lemma transactionRow_Ok:
  assumes "transactionRow E input (i, tx) = Ok r"
  obtains host facts row1 row2 row3 txId where
    "hostFunctionColumns E (tx_Operations tx) = Ok host" "contractErrorFacts tx = Ok facts"
    "populateTransactionXDRFields tx (baseRow E input tx host facts) = Ok row1"
    "populateFeeBumpFields E tx (in_NetworkPassphrase input) row1 = Ok row2"
    "populateSorobanDeclaredFields E tx (populatePreconditionFields E tx row2) = Ok row3"
    "toidInt64 E (in_Sequence input) (of_nat i + 1) 0 = Ok txId" "r = row3\<lparr>td_TransactionID := txId\<rparr>"
  using assms by (auto simp: transactionRow_def Let_def bindR_Ok_iff mapR_Ok_iff)

text \<open>What the populate functions write: each is one update of the row, so a row is \<open>baseRow\<close> updated.\<close>

lemma xdrFields_shape:
  assumes "populateTransactionXDRFields tx row = Ok row'"
  obtains envelope size result meta feeMeta where "ti_EnvelopeB64 (tx_Info tx) = Ok envelope"
    "decodedBase64Length envelope = Ok size" "ti_ResultB64 (tx_Info tx) = Ok result" "ti_MetaB64 (tx_Info tx) = Ok meta"
    "ti_FeeChangesB64 (tx_Info tx) = Ok feeMeta"
    "row' = row\<lparr>td_EnvelopeSizeBytes := size, td_TxEnvelope := Some envelope, td_TxResult := Some result,
      td_TxMeta := Some meta, td_TxFeeMeta := Some feeMeta,
      td_TxSigners := Some (marshalDecoratedSignatures (ti_Signatures (tx_Info tx)))\<rparr>"
  using assms unfolding populateTransactionXDRFields_def Let_def bindR_Ok_iff wrapErr_Ok_iff res.inject
  by (elim exE conjE) (rule that, assumption+, rule sym, assumption)

text \<open>The fee-bump columns: fee, fee account, inner source account and inner hash.\<close>

definition feeBumpColumns ::
    "sdk \<Rightarrow> string \<Rightarrow> ledger_tx \<Rightarrow> i64 option \<times> string option \<times> string option \<times> string option \<Rightarrow> bool" where
  "feeBumpColumns E passphrase tx cols = (case ti_FeeBump (tx_Info tx) of
     None \<Rightarrow> cols = (None, None, None, None)
   | Some fb \<Rightarrow> (\<exists>source h. fb_InnerV1 fb = Some source \<and> fb_InnerHash fb passphrase = Ok h
       \<and> cols = (Some (fb_Fee fb), getMuxedAddress E (fb_FeeAccount fb),
           Some (accountAddress E (muxAccountId source)), Some (hexEncode h))))"

lemma feeBumpFields_shape:
  assumes "populateFeeBumpFields E tx p row = Ok row'" "td_FeeBumpFee row = None" "td_FeeAccountMuxed row = None"
    "td_InnerSourceAccount row = None" "td_InnerTransactionHash row = None"
  obtains fee account source h where "feeBumpColumns E p tx (fee, account, source, h)"
    "row' = row\<lparr>td_FeeBumpFee := fee, td_FeeAccountMuxed := account, td_InnerSourceAccount := source,
      td_InnerTransactionHash := h\<rparr>"
proof (cases "ti_FeeBump (tx_Info tx)")
  case None
  with assms that [of None None None None] show ?thesis
    by (cases row) (simp add: populateFeeBumpFields_def feeBumpColumns_def)
next
  case (Some fb)
  with assms(1) obtain source h where "fb_InnerV1 fb = Some source" "fb_InnerHash fb p = Ok h"
    and "row' = row\<lparr>td_FeeBumpFee := Some (fb_Fee fb),
        td_FeeAccountMuxed := getMuxedAddress E (fb_FeeAccount fb),
        td_InnerSourceAccount := Some (accountAddress E (muxAccountId source)), td_InnerTransactionHash := Some (hexEncode h)\<rparr>"
    unfolding populateFeeBumpFields_def Let_def
    by (cases "fb_InnerV1 fb") (auto simp only: option.case mapR_Ok_iff wrapErr_Ok_iff res.distinct)
  with Some show ?thesis by (intro that) (auto simp: feeBumpColumns_def)
qed

text \<open>
  The precondition columns: the ledger bounds, the minimum sequence number, the minimum age unless it is zero, and
  the addresses of the extra signers unless there are none.
\<close>

definition preconditionColumns ::
    "sdk \<Rightarrow> ledger_tx \<Rightarrow> i64 option \<times> i64 option \<times> i64 option \<times> i64 option \<times> string option" where
  "preconditionColumns E tx = (case ti_Preconditions (tx_Info tx) of
     None \<Rightarrow> (None, None, None, None, None)
   | Some cond \<Rightarrow>
       (case pc_LedgerBounds cond of None \<Rightarrow> None | Some (lo, hi) \<Rightarrow> Some (ucast lo),
        case pc_LedgerBounds cond of None \<Rightarrow> None | Some (lo, hi) \<Rightarrow> Some (ucast hi),
        pc_MinSeqNum cond, if pc_MinSeqAge cond = 0 then None else Some (pc_MinSeqAge cond),
        case pc_ExtraSigners cond of [] \<Rightarrow> None
        | ks \<Rightarrow> Some (jsonArray (map (\<lambda>k. jsonString (signerKeyAddress E k)) ks))))"

lemma preconditionFields_shape:
  assumes "td_LedgerboundsMin row = None" "td_LedgerboundsMax row = None" "td_MinSequenceNumber row = None"
    "td_MinSequenceAge row = None" "td_ExtraSigners row = None"
  obtains lo hi seq age signers where "preconditionColumns E tx = (lo, hi, seq, age, signers)"
    "populatePreconditionFields E tx row = row\<lparr>td_LedgerboundsMin := lo, td_LedgerboundsMax := hi,
      td_MinSequenceNumber := seq, td_MinSequenceAge := age, td_ExtraSigners := signers\<rparr>"
proof (cases "ti_Preconditions (tx_Info tx)")
  case None
  with assms show ?thesis
    by (intro that [of None None None None None]) (cases row, simp_all add: populatePreconditionFields_def preconditionColumns_def)
next
  case (Some cond)
  obtain lo hi seq age signers where cols: "preconditionColumns E tx = (lo, hi, seq, age, signers)"
    by (cases "preconditionColumns E tx") auto
  with Some have "lo = map_option (\<lambda>b. ucast (fst b)) (pc_LedgerBounds cond)"
    "hi = map_option (\<lambda>b. ucast (snd b)) (pc_LedgerBounds cond)" "seq = pc_MinSeqNum cond"
    "age = (if pc_MinSeqAge cond = 0 then None else Some (pc_MinSeqAge cond))"
    "signers = (if pc_ExtraSigners cond = [] then None
       else Some (jsonArray (map (\<lambda>k. jsonString (signerKeyAddress E k)) (pc_ExtraSigners cond))))"
    by (cases "pc_LedgerBounds cond"; cases "pc_ExtraSigners cond"; auto simp: preconditionColumns_def)+
  with Some show ?thesis by (intro that [OF cols]) (simp add: populatePreconditionFields_def)
qed

text \<open>
  The columns of the declared Soroban data: the size of its encoding and its resources as JSON, and for a Soroban
  transaction the number of contract events of all its operations.
\<close>

definition declaredColumns :: "sdk \<Rightarrow> ledger_tx \<Rightarrow> i32 option \<times> string option \<times> i32 option \<Rightarrow> bool" where
  "declaredColumns E tx cols \<longleftrightarrow>
     (case ti_SorobanData (tx_Info tx) of
        None \<Rightarrow> fst cols = None \<and> fst (snd cols) = None
      | Some d \<Rightarrow> (\<exists>encoded. marshalSorobanData E d = Ok encoded \<and> fst cols = Some (of_nat (length encoded)))
          \<and> fst (snd cols) = Some (jsonMarshal (GMap [(''instructions'', GInt (uint (sb_Instructions d))),
              (''disk_read_bytes'', GInt (uint (sb_DiskReadBytes d))), (''write_bytes'', GInt (uint (sb_WriteBytes d))),
              (''footprint_read'', GInt (int (length (sb_ReadOnly d)))),
              (''footprint_write'', GInt (int (length (sb_ReadWrite d)))),
              (''resource_fee'', GInt (sint (sb_ResourceFee d)))])))
     \<and> (if ti_IsSoroban (tx_Info tx)
        then \<exists>evs. tx_Events tx = Ok evs \<and> snd (snd cols) = Some (of_nat (length (concat (te_OperationEvents evs))))
        else snd (snd cols) = None)"

lemma contractEventsTotal_length: "contractEventsTotal evs = of_nat (length (concat (te_OperationEvents evs)))"
proof -
  have "foldl (\<lambda>n os. n + of_nat (length os)) m oss = m + of_nat (length (concat oss))"
    for m :: i32 and oss :: "contract_event list list"
    by (induction oss arbitrary: m) simp_all
  then show ?thesis by (simp add: contractEventsTotal_def)
qed

lemma declaredResources_shape:
  assumes "declaredResources E tx row = Ok row'" "td_SorobanDataSizeBytes row = None" "td_SorobanDataResources row = None"
  obtains size resources where "\<And>n. ti_IsSoroban (tx_Info tx) \<longrightarrow> (\<exists>evs. tx_Events tx = Ok evs \<and> n = Some (contractEventsTotal evs))
      \<Longrightarrow> \<not> ti_IsSoroban (tx_Info tx) \<longrightarrow> n = None \<Longrightarrow> declaredColumns E tx (size, resources, n)"
    "row' = row\<lparr>td_SorobanDataSizeBytes := size, td_SorobanDataResources := resources\<rparr>"
proof (cases "ti_SorobanData (tx_Info tx)")
  case None
  with assms show ?thesis
    by (intro that [of None None]) (cases row, auto simp: declaredResources_def declaredColumns_def contractEventsTotal_length)
next
  case (Some d)
  with assms(1) obtain encoded where "marshalSorobanData E d = Ok encoded"
    "row' = row\<lparr>td_SorobanDataSizeBytes := Some (of_nat (length encoded)), td_SorobanDataResources := Some (resourcesJSON d)\<rparr>"
    unfolding declaredResources_def by (auto simp only: option.case mapR_Ok_iff wrapErr_Ok_iff)
  with Some show ?thesis
    by (intro that) (auto simp: declaredColumns_def resourcesJSON_def contractEventsTotal_length)
qed

lemma declaredFields_shape:
  assumes "populateSorobanDeclaredFields E tx row = Ok row'" "td_SorobanDataSizeBytes row = None"
    "td_SorobanDataResources row = None" "td_SorobanContractEventsCount row = None"
  obtains size resources n where "declaredColumns E tx (size, resources, n)"
    "row' = row\<lparr>td_SorobanDataSizeBytes := size, td_SorobanDataResources := resources, td_SorobanContractEventsCount := n\<rparr>"
proof -
  obtain row1 where row1: "declaredResources E tx row = Ok row1" using assms(1)
    unfolding populateSorobanDeclaredFields_def bindR_Ok_iff by blast
  then have row': "if ti_IsSoroban (tx_Info tx) then \<exists>evs. tx_Events tx = Ok evs
        \<and> row' = row1\<lparr>td_SorobanContractEventsCount := Some (contractEventsTotal evs)\<rparr> else row' = row1"
    using assms(1) by (auto simp: populateSorobanDeclaredFields_def mapR_Ok_iff)
  from declaredResources_shape [OF row1 assms(2,3)] obtain size resources where cols:
    "\<And>n. ti_IsSoroban (tx_Info tx) \<longrightarrow> (\<exists>evs. tx_Events tx = Ok evs \<and> n = Some (contractEventsTotal evs))
      \<Longrightarrow> \<not> ti_IsSoroban (tx_Info tx) \<longrightarrow> n = None \<Longrightarrow> declaredColumns E tx (size, resources, n)"
    and r1: "row1 = row\<lparr>td_SorobanDataSizeBytes := size, td_SorobanDataResources := resources\<rparr>" by blast
  show ?thesis
  proof (cases "ti_IsSoroban (tx_Info tx)")
    case True
    with row' obtain evs where "tx_Events tx = Ok evs"
      "row' = row1\<lparr>td_SorobanContractEventsCount := Some (contractEventsTotal evs)\<rparr>" by auto
    with True show ?thesis by (intro that [OF cols [of "Some (contractEventsTotal evs)"]]) (simp_all add: r1)
  next
    case False
    with row' assms(4) show ?thesis by (intro that [OF cols [of None]]) (use False row' assms(4) in \<open>cases row, simp_all add: r1\<close>)
  qed
qed

text \<open>
  What a row of the transaction at position \<open>i\<close> has to say.  The host function columns are those of the first
  operation that invokes one.
\<close>

definition invokesHost :: "operation \<Rightarrow> bool" where
  "invokesHost op \<longleftrightarrow> (case op_Body op of OpInvokeHostFunction host \<Rightarrow> True | _ \<Rightarrow> False)"

definition hostColumns :: "sdk \<Rightarrow> ledger_tx \<Rightarrow> string option \<times> string option \<Rightarrow> bool" where
  "hostColumns E tx cols = (case List.find invokesHost (tx_Operations tx) of
     None \<Rightarrow> cols = (None, None)
   | Some op \<Rightarrow> (\<exists>host. op_Body op = OpInvokeHostFunction host
       \<and> fst cols = Some (hostFunctionTypeString E (ih_HostFunction host))
       \<and> (case ih_HostFunction host of
            HfInvokeContract (Some args) \<Rightarrow> ignoreErr None (mapR (\<lambda>s. if s = [] then None else Some s)
              (scAddressString E (ic_ContractAddress args))) = Ok (snd cols)
          | _ \<Rightarrow> snd cols = None)))"

lemma find_invokesHost:
  "firstInvocation ops = (case List.find invokesHost ops of None \<Rightarrow> None
     | Some op \<Rightarrow> (case op_Body op of OpInvokeHostFunction host \<Rightarrow> Some host | _ \<Rightarrow> None))"
  by (induction ops) (auto simp: invokesHost_def split: op_body.splits)

lemma hostFunctionColumns_cols:
  assumes "hostFunctionColumns E (tx_Operations tx) = Ok cols"
  shows "hostColumns E tx cols"
proof (cases "List.find invokesHost (tx_Operations tx)")
  case None
  with assms show ?thesis by (simp add: hostFunctionColumns_def hostColumns_def find_invokesHost)
next
  case (Some op)
  then have "invokesHost op" by (auto simp: find_Some_iff)
  then obtain host where "op_Body op = OpInvokeHostFunction host" by (auto simp: invokesHost_def split: op_body.splits)
  with assms Some show ?thesis
    by (auto simp: hostFunctionColumns_def hostColumns_def find_invokesHost mapR_Ok_iff invokedContract_def
        addressText_def split: host_function.splits option.splits)
qed

definition rowOfTx :: "sdk \<Rightarrow> ledger_input \<Rightarrow> nat \<Rightarrow> ledger_tx \<Rightarrow> transaction_data \<Rightarrow> bool" where
  "rowOfTx E input i tx r \<longleftrightarrow> td_TransactionHash r = hexEncode (tx_Hash tx) \<and> td_Successful r = tx_Successful tx
     \<and> td_OperationCount r = length (tx_Operations tx)
     \<and> (td_MemoType r, td_Memo r, td_MemoRaw r) = memoColumns (ti_Memo (tx_Info tx))
     \<and> toidInt64 E (in_Sequence input) (of_nat i + 1) 0 = Ok (td_TransactionID r)
     \<and> (\<exists>facts. contractErrorFacts tx = Ok facts
          \<and> td_ContractErrorType r = (if snd (snd facts) then Some (fst facts) else None)
          \<and> td_ContractErrorCode r = (if snd (snd facts) then fst (snd facts) else None))
     \<and> (\<forall>bs. ti_EnvelopeB64 (tx_Info tx) = Ok (base64Encode bs) \<longrightarrow> td_EnvelopeSizeBytes r = length bs)
     \<and> td_FeeBumpFee r = map_option fb_Fee (ti_FeeBump (tx_Info tx))
     \<and> td_SourceAccount r = accountAddress E (muxAccountId (tx_SourceAccount tx))
     \<and> td_SourceAccountMuxed r = (case tx_SourceAccount tx of
          MuxMed25519 n k \<Rightarrow> Some (muxedAddress E (tx_SourceAccount tx)) | MuxEd25519 k \<Rightarrow> None)
     \<and> td_FeeCharged r = ti_FeeCharged (tx_Info tx) \<and> td_MaxFee r = ti_Fee (tx_Info tx)
     \<and> td_TransactionResultCode r = ti_ResultCode (tx_Info tx) \<and> td_AccountSequence r = ti_SeqNum (tx_Info tx)
     \<and> td_SignaturesCount r = length (ti_Signatures (tx_Info tx))
     \<and> (td_NewAccount r \<longleftrightarrow> (\<exists>op \<in> set (tx_Operations tx). \<exists>d b. op_Body op = OpCreateAccount d b))
     \<and> (case ti_TimeBounds (tx_Info tx) of
          None \<Rightarrow> td_TimeboundsMinTime r = None \<and> td_TimeboundsMaxTime r = None
        | Some (lo, hi) \<Rightarrow> td_TimeboundsMinTime r = Some lo \<and> td_TimeboundsMaxTime r = Some hi)
     \<and> preconditionColumns E tx = (td_LedgerboundsMin r, td_LedgerboundsMax r, td_MinSequenceNumber r,
          td_MinSequenceAge r, td_ExtraSigners r)
     \<and> hostColumns E tx (td_SorobanHostFunctionType r, td_SorobanContractID r)
     \<and> td_RentFeeCharged r = (case tx_Meta tx of MetaV3 (Some (evs, Some fee)) ops \<Rightarrow> Some fee
          | MetaV4 (Some (Some fee)) ops \<Rightarrow> Some fee | _ \<Rightarrow> None)
     \<and> td_SorobanResourcesInstructions r = map_option ucast (ti_Instructions (tx_Info tx))
     \<and> td_SorobanResourcesReadBytes r = map_option ucast (ti_DiskReadBytes (tx_Info tx))
     \<and> td_SorobanResourcesWriteBytes r = map_option ucast (ti_WriteBytes (tx_Info tx))
     \<and> td_SorobanFootprintReadEntries r = map_option (\<lambda>d. of_nat (length (sb_ReadOnly d))) (ti_SorobanData (tx_Info tx))
     \<and> td_SorobanFootprintWriteEntries r = map_option (\<lambda>d. of_nat (length (sb_ReadWrite d))) (ti_SorobanData (tx_Info tx))
     \<and> declaredColumns E tx (td_SorobanDataSizeBytes r, td_SorobanDataResources r, td_SorobanContractEventsCount r)
     \<and> feeBumpColumns E (in_NetworkPassphrase input) tx
          (td_FeeBumpFee r, td_FeeAccountMuxed r, td_InnerSourceAccount r, td_InnerTransactionHash r)
     \<and> map_option Ok (td_TxEnvelope r) = Some (ti_EnvelopeB64 (tx_Info tx))
     \<and> map_option Ok (td_TxResult r) = Some (ti_ResultB64 (tx_Info tx))
     \<and> map_option Ok (td_TxMeta r) = Some (ti_MetaB64 (tx_Info tx))
     \<and> map_option Ok (td_TxFeeMeta r) = Some (ti_FeeChangesB64 (tx_Info tx))
     \<and> td_TxSigners r = Some (jsonArray (map (\<lambda>s. jsonString (base64Encode s)) (ti_Signatures (tx_Info tx))))
     \<and> td_LedgerSequence r = in_Sequence input \<and> td_CreatedAt r = in_ClosedAt input
     \<and> td_LedgerRange r = in_LedgerRange input \<and> td_EraID r = in_EraID input"

text \<open>The row before the populate functions: its own columns, and none of theirs.\<close>

lemma baseRow_unset:
  "td_FeeBumpFee (baseRow E input tx host facts) = None" "td_FeeAccountMuxed (baseRow E input tx host facts) = None"
  "td_InnerSourceAccount (baseRow E input tx host facts) = None" "td_InnerTransactionHash (baseRow E input tx host facts) = None"
  "td_LedgerboundsMin (baseRow E input tx host facts) = None" "td_LedgerboundsMax (baseRow E input tx host facts) = None"
  "td_MinSequenceNumber (baseRow E input tx host facts) = None" "td_MinSequenceAge (baseRow E input tx host facts) = None"
  "td_ExtraSigners (baseRow E input tx host facts) = None" "td_SorobanDataSizeBytes (baseRow E input tx host facts) = None"
  "td_SorobanDataResources (baseRow E input tx host facts) = None"
  "td_SorobanContractEventsCount (baseRow E input tx host facts) = None"
  by (simp_all add: baseRow_def Let_def split: prod.split)

lemma transactionRow_shape:
  assumes "transactionRow E input (i, tx) = Ok r"
  obtains host facts envelope size result meta feeMeta fee account source h lo hi seq age signers encoded resources n txId where
    "hostFunctionColumns E (tx_Operations tx) = Ok host" "contractErrorFacts tx = Ok facts"
    "ti_EnvelopeB64 (tx_Info tx) = Ok envelope" "decodedBase64Length envelope = Ok size"
    "ti_ResultB64 (tx_Info tx) = Ok result" "ti_MetaB64 (tx_Info tx) = Ok meta" "ti_FeeChangesB64 (tx_Info tx) = Ok feeMeta"
    "feeBumpColumns E (in_NetworkPassphrase input) tx (fee, account, source, h)"
    "preconditionColumns E tx = (lo, hi, seq, age, signers)" "declaredColumns E tx (encoded, resources, n)"
    "toidInt64 E (in_Sequence input) (of_nat i + 1) 0 = Ok txId"
    "r = (baseRow E input tx host facts)\<lparr>td_EnvelopeSizeBytes := size, td_TxEnvelope := Some envelope,
       td_TxResult := Some result, td_TxMeta := Some meta, td_TxFeeMeta := Some feeMeta,
       td_TxSigners := Some (marshalDecoratedSignatures (ti_Signatures (tx_Info tx))),
       td_FeeBumpFee := fee, td_FeeAccountMuxed := account, td_InnerSourceAccount := source, td_InnerTransactionHash := h,
       td_LedgerboundsMin := lo, td_LedgerboundsMax := hi, td_MinSequenceNumber := seq, td_MinSequenceAge := age,
       td_ExtraSigners := signers, td_SorobanDataSizeBytes := encoded, td_SorobanDataResources := resources,
       td_SorobanContractEventsCount := n, td_TransactionID := txId\<rparr>"
proof -
  from assms obtain host facts row1 row2 row3 txId where base: "hostFunctionColumns E (tx_Operations tx) = Ok host"
    "contractErrorFacts tx = Ok facts"
    and row1: "populateTransactionXDRFields tx (baseRow E input tx host facts) = Ok row1"
    and row2: "populateFeeBumpFields E tx (in_NetworkPassphrase input) row1 = Ok row2"
    and row3: "populateSorobanDeclaredFields E tx (populatePreconditionFields E tx row2) = Ok row3"
    and r: "toidInt64 E (in_Sequence input) (of_nat i + 1) 0 = Ok txId" "r = row3\<lparr>td_TransactionID := txId\<rparr>"
    by (rule transactionRow_Ok)
  note unset = baseRow_unset [of E input tx host facts]
  from row1 obtain envelope size result meta feeMeta where x: "ti_EnvelopeB64 (tx_Info tx) = Ok envelope"
    "decodedBase64Length envelope = Ok size" "ti_ResultB64 (tx_Info tx) = Ok result" "ti_MetaB64 (tx_Info tx) = Ok meta"
    "ti_FeeChangesB64 (tx_Info tx) = Ok feeMeta"
    "row1 = (baseRow E input tx host facts)\<lparr>td_EnvelopeSizeBytes := size, td_TxEnvelope := Some envelope, td_TxResult := Some result,
      td_TxMeta := Some meta, td_TxFeeMeta := Some feeMeta,
      td_TxSigners := Some (marshalDecoratedSignatures (ti_Signatures (tx_Info tx)))\<rparr>"
    by (rule xdrFields_shape)
  from row2 obtain fee account source h where f: "feeBumpColumns E (in_NetworkPassphrase input) tx (fee, account, source, h)"
    "row2 = row1\<lparr>td_FeeBumpFee := fee, td_FeeAccountMuxed := account, td_InnerSourceAccount := source,
      td_InnerTransactionHash := h\<rparr>"
    by (rule feeBumpFields_shape) (simp_all add: x(6) unset)
  obtain lo hi seq age signers where p: "preconditionColumns E tx = (lo, hi, seq, age, signers)"
    "populatePreconditionFields E tx row2 = row2\<lparr>td_LedgerboundsMin := lo, td_LedgerboundsMax := hi,
      td_MinSequenceNumber := seq, td_MinSequenceAge := age, td_ExtraSigners := signers\<rparr>"
    by (rule preconditionFields_shape [of row2 E tx]) (simp_all add: f(2) x(6) unset)
  from row3 obtain encoded resources n where d: "declaredColumns E tx (encoded, resources, n)"
    "row3 = (populatePreconditionFields E tx row2)\<lparr>td_SorobanDataSizeBytes := encoded, td_SorobanDataResources := resources,
       td_SorobanContractEventsCount := n\<rparr>"
    by (rule declaredFields_shape) (unfold p(2), simp_all add: f(2) x(6) unset)
  show ?thesis using that base x(1-5) f(1) p(1) d(1) r(1) r(2) [unfolded d(2) p(2), unfolded f(2) x(6)] by blast
qed

lemma feeBumpColumns_fee: "feeBumpColumns E p tx (fee, cols) \<Longrightarrow> fee = map_option fb_Fee (ti_FeeBump (tx_Info tx))"
  by (auto simp: feeBumpColumns_def split: option.splits)

lemma transactionRow_rowOfTx:
  assumes "transactionRow E input (i, tx) = Ok r"
  shows "rowOfTx E input i tx r"
proof -
  from assms obtain host facts envelope size result meta feeMeta fee account source h lo hi seq age signers encoded resources n txId where
    host: "hostFunctionColumns E (tx_Operations tx) = Ok host" and facts: "contractErrorFacts tx = Ok facts"
    and env: "ti_EnvelopeB64 (tx_Info tx) = Ok envelope" "decodedBase64Length envelope = Ok size"
    and xdr: "ti_ResultB64 (tx_Info tx) = Ok result" "ti_MetaB64 (tx_Info tx) = Ok meta" "ti_FeeChangesB64 (tx_Info tx) = Ok feeMeta"
    and fb: "feeBumpColumns E (in_NetworkPassphrase input) tx (fee, account, source, h)"
    and pc: "preconditionColumns E tx = (lo, hi, seq, age, signers)" and dc: "declaredColumns E tx (encoded, resources, n)"
    and id: "toidInt64 E (in_Sequence input) (of_nat i + 1) 0 = Ok txId"
    and r: "r = (baseRow E input tx host facts)\<lparr>td_EnvelopeSizeBytes := size, td_TxEnvelope := Some envelope,
       td_TxResult := Some result, td_TxMeta := Some meta, td_TxFeeMeta := Some feeMeta,
       td_TxSigners := Some (marshalDecoratedSignatures (ti_Signatures (tx_Info tx))),
       td_FeeBumpFee := fee, td_FeeAccountMuxed := account, td_InnerSourceAccount := source, td_InnerTransactionHash := h,
       td_LedgerboundsMin := lo, td_LedgerboundsMax := hi, td_MinSequenceNumber := seq, td_MinSequenceAge := age,
       td_ExtraSigners := signers, td_SorobanDataSizeBytes := encoded, td_SorobanDataResources := resources,
       td_SorobanContractEventsCount := n, td_TransactionID := txId\<rparr>"
    by (rule transactionRow_shape)
  obtain ty mm raw et ec failed where memo: "memoColumns (ti_Memo (tx_Info tx)) = (ty, mm, raw)" and fs: "facts = (et, ec, failed)"
    by (cases "memoColumns (ti_Memo (tx_Info tx))"; cases facts) auto
  have mux: "getMuxedAddress E m = (case m of MuxMed25519 n k \<Rightarrow> Some (muxedAddress E m) | MuxEd25519 k \<Rightarrow> None)" for m
    by (cases m) simp_all
  have rent: "rentFee m = (case m of MetaV3 (Some (evs, Some fee)) ops \<Rightarrow> Some fee
      | MetaV4 (Some (Some fee)) ops \<Rightarrow> Some fee | _ \<Rightarrow> None)" for m
    by (cases m) (auto simp: rentFee_def split: option.split)
  have size: "\<forall>bs. ti_EnvelopeB64 (tx_Info tx) = Ok (base64Encode bs) \<longrightarrow> size = length bs"
    using env by (auto simp: decodedBase64Length_def)
  have created: "isCreateAccount op \<longleftrightarrow> (\<exists>d b. op_Body op = OpCreateAccount d b)" for op
    by (auto simp: isCreateAccount_def split: op_body.split)
  note row = baseRow_def Let_def memo fs prod.case transaction_data.simps marshalDecoratedSignatures_def mux rent created
  show ?thesis
    using size host [THEN hostFunctionColumns_cols] facts env(1) xdr fb feeBumpColumns_fee [OF fb] pc dc id
    unfolding rowOfTx_def r by (simp add: row split: option.split)
qed

text \<open>
  C8: the transaction table has one row per transaction, in ledger order, failed ones included; row \<open>i\<close> has every
  column of transaction \<open>i\<close>: hash, accounts, fees, outcome, memo, time bounds, preconditions, first host function,
  declared and charged Soroban resources, error facts, fee bump, the XDR parts with the byte length of the envelope
  (not that of its base64), and the TOID of its one-based position.
\<close>

theorem transaction_rows:
  assumes "in_Transactions input = Ok txs" "extractTransactions E input = Ok rows"
  shows "length rows = length txs \<and> (\<forall>i < length txs. rowOfTx E input i (txs ! i) (rows ! i))"
proof -
  have rows: "map (transactionRow E input) (enumerate 0 txs) = map Ok rows"
    using assms by (simp add: extractTransactions_def seqR_Ok_iff)
  have len: "length rows = length txs" using map_eq_imp_length_eq [OF rows] by simp
  have "rowOfTx E input i (txs ! i) (rows ! i)" if i: "i < length txs" for i
  proof (rule transactionRow_rowOfTx)
    have "map (transactionRow E input) (enumerate 0 txs) ! i = map Ok rows ! i" using rows by simp
    then show "transactionRow E input (i, txs ! i) = Ok (rows ! i)" using i len by (simp add: nth_enumerate_eq)
  qed
  with len show ?thesis by blast
qed

text \<open>
  C29: the three memo columns lose nothing: two memos of known types with the same columns are the same memo,
  text that is not UTF-8 included.
\<close>

theorem memoColumns_injective:
  assumes "memoColumns m = memoColumns m'" "\<forall>n. m \<noteq> MemoOther n"
  shows "m = m'"
proof -
  have "stringBytes s = stringBytes t \<Longrightarrow> s = t" for s t
    by (metis bytesString_stringBytes)
  with assms show ?thesis by (cases m; cases m') auto
qed

text \<open>
  The time-bound columns hold the unsigned bounds as signed numbers: exact below \<open>2^63\<close>, and negative from
  there on, where a transaction that never expires reads as one that expired before the epoch.
\<close>

theorem timebounds_columns:
  assumes "transactionRow E input (i, tx) = Ok r" "ti_TimeBounds (tx_Info tx) = Some (lo, hi)"
  shows "td_TimeboundsMinTime r = Some lo \<and> td_TimeboundsMaxTime r = Some hi
    \<and> (uint hi < 2 ^ 63 \<longrightarrow> sint hi = uint hi) \<and> (2 ^ 63 \<le> uint hi \<longrightarrow> sint hi = uint hi - 2 ^ 64 \<and> sint hi < 0)"
proof -
  have "td_TimeboundsMinTime r = Some lo \<and> td_TimeboundsMaxTime r = Some hi"
    using transactionRow_rowOfTx [OF assms(1)] assms(2) by (simp add: rowOfTx_def)
  then show ?thesis using uint_bounded [of hi] by (auto simp: sint_u64)
qed

text \<open>An ordinary transaction and one with an open time bound.\<close>

definition demoTxs2 :: "ledger_tx list" where
  "demoTxs2 = [demoTx, demoTx\<lparr>tx_Hash := [8], tx_Successful := False,
     tx_Info := demoTxInfo\<lparr>ti_Memo := MemoText [CHR 0xff], ti_EnvelopeB64 := Ok (base64Encode [1, 2, 3]),
       ti_TimeBounds := Some (0, - 1)\<rparr>\<rparr>]"

lemma demoTxs2_rows:
  obtains rows where "extractTransactions demoSdk (demoTxs demoTxs2) = Ok rows"
    "transactionRow demoSdk (demoTxs demoTxs2) (1, demoTxs2 ! 1) = Ok (rows ! 1)"
proof -
  have "isOk (extractTransactions demoSdk (demoTxs demoTxs2))" by code_simp
  then obtain rows where rows: "extractTransactions demoSdk (demoTxs demoTxs2) = Ok rows" by (auto simp: isOk_iff)
  then have "map (transactionRow demoSdk (demoTxs demoTxs2)) (enumerate 0 demoTxs2) = map Ok rows"
    by (simp add: extractTransactions_def seqR_Ok_iff)
  then have "map (transactionRow demoSdk (demoTxs demoTxs2)) (enumerate 0 demoTxs2) ! 1 = map Ok rows ! 1"
    "length rows = 2" by (simp_all add: demoTxs2_def map_eq_Cons_conv) (auto dest: map_eq_imp_length_eq)
  with rows that show ?thesis by (simp add: demoTxs2_def)
qed

theorem transaction_rows_witness:
  "\<exists>rows. extractTransactions demoSdk (demoTxs demoTxs2) = Ok rows \<and> length rows = 2
     \<and> td_EnvelopeSizeBytes (rows ! 1) = 3 \<and> td_Memo (rows ! 1) = None \<and> td_MemoRaw (rows ! 1) = Some ''/w==''
     \<and> td_TimeboundsMinTime (rows ! 1) = Some 0 \<and> td_TimeboundsMaxTime (rows ! 1) = Some (- 1)"
proof -
  obtain rows where rows: "extractTransactions demoSdk (demoTxs demoTxs2) = Ok rows" using demoTxs2_rows by metis
  have memo: "memoColumns (MemoText [CHR 0xff]) = (Some ''text'', None, Some ''/w=='')" by code_simp
  from transaction_rows [OF demoTxs_simps(1) rows] have "length rows = 2"
    "rowOfTx demoSdk (demoTxs demoTxs2) 1 (demoTxs2 ! 1) (rows ! 1)" by (auto simp: demoTxs2_def)
  then have row: "(td_MemoType (rows ! 1), td_Memo (rows ! 1), td_MemoRaw (rows ! 1)) = memoColumns (ti_Memo (tx_Info (demoTxs2 ! 1)))"
    "\<forall>bs. ti_EnvelopeB64 (tx_Info (demoTxs2 ! 1)) = Ok (base64Encode bs) \<longrightarrow> td_EnvelopeSizeBytes (rows ! 1) = length bs"
    and times: "td_TimeboundsMinTime (rows ! 1) = Some 0 \<and> td_TimeboundsMaxTime (rows ! 1) = Some (- 1)"
    by (simp_all add: rowOfTx_def demoTxs2_def)
  have info: "ti_EnvelopeB64 (tx_Info (demoTxs2 ! 1)) = Ok (base64Encode [1, 2, 3])"
    "ti_Memo (tx_Info (demoTxs2 ! 1)) = MemoText [CHR 0xff]" by (simp_all add: demoTxs2_def)
  have "td_EnvelopeSizeBytes (rows ! 1) = length [1, 2, 3 :: byte]" using row(2) info(1) by blast
  moreover have "td_Memo (rows ! 1) = None" "td_MemoRaw (rows ! 1) = Some ''/w==''"
    using row(1) unfolding info(2) memo by (simp_all only: prod.inject)
  ultimately show ?thesis using rows \<open>length rows = 2\<close> times by simp
qed

theorem memoColumns_injective_witness: "memoColumns (MemoText [CHR 0xff]) \<noteq> memoColumns (MemoText [CHR 0xfe])"
  using memoColumns_injective [of "MemoText [CHR 0xff]" "MemoText [CHR 0xfe]"] by auto

theorem timebounds_columns_witness:
  "\<exists>r. transactionRow demoSdk (demoTxs demoTxs2) (1, demoTxs2 ! 1) = Ok r
     \<and> td_TimeboundsMaxTime r = Some (- 1) \<and> sint (- 1 :: i64) = - 1"
proof -
  obtain rows where r: "transactionRow demoSdk (demoTxs demoTxs2) (1, demoTxs2 ! 1) = Ok (rows ! 1)"
    using demoTxs2_rows by metis
  have "ti_TimeBounds (tx_Info (demoTxs2 ! 1)) = Some (0, - 1)" by (simp add: demoTxs2_def)
  from timebounds_columns [OF r this] r show ?thesis by auto
qed

end
