(* ===== verification/Operations.thy ===== *)
theory Operations
  imports CallGraph Transactions
begin

text \<open>
  \<open>operations.go\<close> with its helpers in \<open>transactions.go\<close> and \<open>integrateCallGraph\<close> of
  \<open>call_graph.go\<close>: a row per operation.  A Go \<open>int\<close> made from an unsigned number is a
  \<^typ>\<open>nat\<close>.
\<close>

section \<open>Rows\<close>

record operation_data =
  od_TransactionHash :: string
  od_TransactionIndex :: nat
  od_OperationIndex :: nat
  od_LedgerSequence :: u32
  od_SourceAccount :: string
  od_SourceAccountMuxed :: "string option"
  od_OpType :: int
  od_TypeString :: string
  od_CreatedAt :: gotime
  od_TransactionSuccessful :: bool
  od_OperationResultCode :: "string option"
  od_LedgerRange :: u32
  od_Amount :: "i64 option"
  od_Asset :: "string option"
  od_Destination :: "string option"
  od_AssetType :: "string option"
  od_AssetCode :: "string option"
  od_AssetIssuer :: "string option"
  od_SourceAsset :: "string option"
  od_SourceAssetType :: "string option"
  od_SourceAssetCode :: "string option"
  od_SourceAssetIssuer :: "string option"
  od_SourceAmount :: "i64 option"
  od_DestinationMin :: "i64 option"
  od_StartingBalance :: "i64 option"
  od_TrustlineLimit :: "i64 option"
  od_OfferID :: "i64 option"
  od_Price :: "string option"
  od_PriceR :: "string option"
  od_BuyingAsset :: "string option"
  od_BuyingAssetType :: "string option"
  od_BuyingAssetCode :: "string option"
  od_BuyingAssetIssuer :: "string option"
  od_SellingAsset :: "string option"
  od_SellingAssetType :: "string option"
  od_SellingAssetCode :: "string option"
  od_SellingAssetIssuer :: "string option"
  od_SetFlags :: "nat option"
  od_ClearFlags :: "nat option"
  od_HomeDomain :: "string option"
  od_MasterWeight :: "nat option"
  od_LowThreshold :: "nat option"
  od_MediumThreshold :: "nat option"
  od_HighThreshold :: "nat option"
  od_DataName :: "string option"
  od_DataValue :: "string option"
  od_BalanceID :: "string option"
  od_SponsoredID :: "string option"
  od_BumpTo :: "i64 option"
  od_SorobanAuthRequired :: "bool option"
  od_SorobanOperation :: "string option"
  od_SorobanContractID :: "string option"
  od_SorobanFunction :: "string option"
  od_SorobanArgumentsJSON :: "string option"
  od_ContractCallsJSON :: "string option"
  od_ContractsInvolved :: "string list option"
  od_MaxCallDepth :: "nat option"
  od_SorobanAuthCredentialsTypes :: "string list option"
  od_SorobanAuthAddresses :: "string list option"
  od_TransactionID :: i64
  od_OperationID :: i64
  od_EraID :: "string option"

section \<open>Assets\<close>

text \<open>Type, code and issuer; three empty strings for an asset of another type.\<close>

fun decomposeAsset :: "sdk \<Rightarrow> asset \<Rightarrow> string \<times> string \<times> string" where
  "decomposeAsset E AssetNative = (''native'', [], [])"
| "decomposeAsset E (Asset4 code issuer) =
     (''credit_alphanum4'', trimRightNul (bytesString code), accountAddress E issuer)"
| "decomposeAsset E (Asset12 code issuer) =
     (''credit_alphanum12'', trimRightNul (bytesString code), accountAddress E issuer)"
| "decomposeAsset E AssetPoolShare = ([], [], [])"
| "decomposeAsset E (AssetOther n) = ([], [], [])"

definition nonEmpty :: "string \<Rightarrow> string option" where
  "nonEmpty s = (if s = [] then None else Some s)"

text \<open>Each setter leaves an earlier code or issuer in place where the asset has none.\<close>

definition orKeep :: "string \<Rightarrow> string option \<Rightarrow> string option" where
  "orKeep s old = (if s = [] then old else Some s)"

definition setAssetFields :: "sdk \<Rightarrow> asset \<Rightarrow> operation_data \<Rightarrow> operation_data" where
  "setAssetFields E a r = (case decomposeAsset E a of (ty, code, issuer) \<Rightarrow>
     r\<lparr>od_Asset := Some (assetCanonical E a), od_AssetType := Some ty,
       od_AssetCode := orKeep code (od_AssetCode r), od_AssetIssuer := orKeep issuer (od_AssetIssuer r)\<rparr>)"

definition setSourceAssetFields :: "sdk \<Rightarrow> asset \<Rightarrow> operation_data \<Rightarrow> operation_data" where
  "setSourceAssetFields E a r = (case decomposeAsset E a of (ty, code, issuer) \<Rightarrow>
     r\<lparr>od_SourceAsset := Some (assetCanonical E a), od_SourceAssetType := Some ty,
       od_SourceAssetCode := orKeep code (od_SourceAssetCode r),
       od_SourceAssetIssuer := orKeep issuer (od_SourceAssetIssuer r)\<rparr>)"

definition setBuyingAssetFields :: "sdk \<Rightarrow> asset \<Rightarrow> operation_data \<Rightarrow> operation_data" where
  "setBuyingAssetFields E a r = (case decomposeAsset E a of (ty, code, issuer) \<Rightarrow>
     r\<lparr>od_BuyingAsset := Some (assetCanonical E a), od_BuyingAssetType := Some ty,
       od_BuyingAssetCode := orKeep code (od_BuyingAssetCode r),
       od_BuyingAssetIssuer := orKeep issuer (od_BuyingAssetIssuer r)\<rparr>)"

definition setSellingAssetFields :: "sdk \<Rightarrow> asset \<Rightarrow> operation_data \<Rightarrow> operation_data" where
  "setSellingAssetFields E a r = (case decomposeAsset E a of (ty, code, issuer) \<Rightarrow>
     r\<lparr>od_SellingAsset := Some (assetCanonical E a), od_SellingAssetType := Some ty,
       od_SellingAssetCode := orKeep code (od_SellingAssetCode r),
       od_SellingAssetIssuer := orKeep issuer (od_SellingAssetIssuer r)\<rparr>)"

section \<open>The fields of each operation type\<close>

definition muxAddress :: "sdk \<Rightarrow> muxed_account \<Rightarrow> string" where
  "muxAddress E m = accountAddress E (muxAccountId m)"

definition setPrice :: "price \<Rightarrow> operation_data \<Rightarrow> operation_data" where
  "setPrice p r = r\<lparr>od_Price := Some (sdec (pr_N p) @ ''/'' @ sdec (pr_D p)),
     od_PriceR := Some ([CHR ''{'', CHR 0x22, CHR ''n'', CHR 0x22, CHR '':''] @ sdec (pr_N p)
       @ [CHR '','', CHR 0x22, CHR ''d'', CHR 0x22, CHR '':''] @ sdec (pr_D p) @ ''}'')\<rparr>"

definition setOptionsFields :: "set_options_op \<Rightarrow> operation_data \<Rightarrow> operation_data" where
  "setOptionsFields so r = r\<lparr>od_HomeDomain := so_HomeDomain so,
     od_SetFlags := map_option unat (so_SetFlags so), od_ClearFlags := map_option unat (so_ClearFlags so),
     od_MasterWeight := map_option unat (so_MasterWeight so), od_LowThreshold := map_option unat (so_LowThreshold so),
     od_MediumThreshold := map_option unat (so_MedThreshold so),
     od_HighThreshold := map_option unat (so_HighThreshold so)\<rparr>"

fun allowTrustCode :: "asset_code \<Rightarrow> string" where
  "allowTrustCode (AssetCode4 c) = trimRightNul (bytesString c)"
| "allowTrustCode (AssetCode12 c) = trimRightNul (bytesString c)"
| "allowTrustCode (AssetCodeOther n) = []"

fun opFields :: "sdk \<Rightarrow> op_body \<Rightarrow> operation_data \<Rightarrow> operation_data res" where
  "opFields E (OpCreateAccount dest bal) r = Ok (r\<lparr>od_StartingBalance := Some bal, od_Amount := Some bal,
     od_Destination := Some (accountAddress E dest)\<rparr>)"
| "opFields E (OpPayment dest a amt) r =
     Ok ((setAssetFields E a (r\<lparr>od_Amount := Some amt\<rparr>))\<lparr>od_Destination := Some (muxAddress E dest)\<rparr>)"
| "opFields E (OpPathPaymentStrictReceive sendAsset sendMax dest destAsset destAmount) r =
     Ok ((setSourceAssetFields E sendAsset
          ((setAssetFields E destAsset (r\<lparr>od_Amount := Some destAmount\<rparr>))\<lparr>od_SourceAmount := Some sendMax\<rparr>))
        \<lparr>od_Destination := Some (muxAddress E dest)\<rparr>)"
| "opFields E (OpManageSellOffer selling buying amt p i) r =
     Ok (setPrice p ((setBuyingAssetFields E buying (setSellingAssetFields E selling (r\<lparr>od_Amount := Some amt\<rparr>)))
        \<lparr>od_OfferID := Some i\<rparr>))"
| "opFields E (OpCreatePassiveSellOffer selling buying amt p) r =
     Ok (setPrice p (setBuyingAssetFields E buying (setSellingAssetFields E selling (r\<lparr>od_Amount := Some amt\<rparr>))))"
| "opFields E (OpSetOptions so) r = Ok (setOptionsFields so r)"
| "opFields E (OpChangeTrust line limit) r = (let r = r\<lparr>od_TrustlineLimit := Some limit\<rparr> in
     if line = CtlPoolShare
     then Ok (r\<lparr>od_Asset := Some ''liquidity_pool_shares'', od_AssetType := Some ''liquidity_pool_shares''\<rparr>)
     else mapR (\<lambda>a. setAssetFields E a r) (changeTrustAsset E line))"
| "opFields E (OpAllowTrust trustor code authorize) r =
     Ok (r\<lparr>od_Destination := Some (accountAddress E trustor),
       od_AssetCode := orKeep (allowTrustCode code) (od_AssetCode r), od_SetFlags := Some (unat authorize)\<rparr>)"
| "opFields E (OpAccountMerge dest) r = Ok (r\<lparr>od_Destination := Some (muxAddress E dest)\<rparr>)"
| "opFields E (OpManageData name val) r = Ok (r\<lparr>od_DataName := Some name,
     od_DataValue := (case val of Some v \<Rightarrow> Some (base64Encode v) | None \<Rightarrow> od_DataValue r)\<rparr>)"
| "opFields E (OpBumpSequence n) r = Ok (r\<lparr>od_BumpTo := Some n\<rparr>)"
| "opFields E (OpManageBuyOffer selling buying amt p i) r =
     Ok (setPrice p ((setBuyingAssetFields E buying (setSellingAssetFields E selling (r\<lparr>od_Amount := Some amt\<rparr>)))
        \<lparr>od_OfferID := Some i\<rparr>))"
| "opFields E (OpPathPaymentStrictSend sendAsset sendAmount dest destAsset destMin) r =
     Ok ((setAssetFields E destAsset (setSourceAssetFields E sendAsset (r\<lparr>od_Amount := Some sendAmount\<rparr>)))
        \<lparr>od_DestinationMin := Some destMin, od_Destination := Some (muxAddress E dest)\<rparr>)"
| "opFields E (OpCreateClaimableBalance a amt claimants) r = Ok (setAssetFields E a (r\<lparr>od_Amount := Some amt\<rparr>))"
| "opFields E (OpClaimClaimableBalance i) r = (case marshalHexCbId E i of
     Ok s \<Rightarrow> Ok (r\<lparr>od_BalanceID := Some s\<rparr>) | Err e \<Rightarrow> Ok r | Panic \<Rightarrow> Panic)"
| "opFields E (OpBeginSponsoringFutureReserves sponsored) r = Ok (r\<lparr>od_SponsoredID := Some (accountAddress E sponsored)\<rparr>)"
| "opFields E (OpClawback a from amt) r =
     Ok ((setAssetFields E a (r\<lparr>od_Amount := Some amt\<rparr>))\<lparr>od_Destination := Some (muxAddress E from)\<rparr>)"
| "opFields E (OpSetTrustLineFlags trustor a clearF setF) r =
     Ok ((setAssetFields E a (r\<lparr>od_Destination := Some (accountAddress E trustor)\<rparr>))
        \<lparr>od_SetFlags := Some (unat setF), od_ClearFlags := Some (unat clearF)\<rparr>)"
| "opFields E (OpLiquidityPoolDeposit pool maxA maxB) r = Ok (r\<lparr>od_Amount := Some maxA\<rparr>)"
| "opFields E (OpLiquidityPoolWithdraw pool amt) r = Ok (r\<lparr>od_Amount := Some amt\<rparr>)"
| "opFields E body r = Ok r"

section \<open>Contract invocations\<close>

text \<open>An argument as the JSON object that stands for it.\<close>

definition argJSON :: "sdk \<Rightarrow> sc_val \<Rightarrow> gval res" where
  "argJSON E arg = (case marshalScVal E arg of
     Err e \<Rightarrow> Ok (gobj [(''error'', GStr e), (''type'', GStr (scvTypeString E (scvType arg)))])
   | Ok bs \<Rightarrow> Ok (gobj [(''type'', GStr (scvTypeString E (scvType arg))), (''xdr_b64'', GStr (base64Encode bs))])
   | Panic \<Rightarrow> Panic)"

text \<open>Contract, function and arguments; the JSON of the arguments cannot fail.\<close>

definition extractContractInvocationDetails ::
    "sdk \<Rightarrow> host_function \<Rightarrow> (string option \<times> string option \<times> string option) res" where
  "extractContractInvocationDetails E h = (case h of
     HfInvokeContract (Some inv') \<Rightarrow>
       bindR (addressText E (ic_ContractAddress inv')) (\<lambda>contractID.
       mapR (\<lambda>args. (contractID, nonEmpty (ic_FunctionName inv'),
           if args = [] then None else Some (jsonMarshal (GArr args))))
         (seqR (map (argJSON E) (ic_Args inv'))))
   | _ \<Rightarrow> Ok (None, None, None))"

text \<open>
  Credentials first; a call graph that cannot be read leaves its three columns null.  The last component is
  the process-wide counter of skipped edges.
\<close>

definition integrateCallGraph ::
    "sdk \<Rightarrow> ledger_tx \<Rightarrow> operation \<Rightarrow> invoke_op \<Rightarrow> operation_data \<Rightarrow> nat \<Rightarrow> (operation_data \<times> nat) res" where
  "integrateCallGraph E tx op host r skipped =
     bindR (extractAuthCredentials E (ih_Auth host)) (\<lambda>(types, addrs).
     let r = r\<lparr>od_SorobanAuthCredentialsTypes := types, od_SorobanAuthAddresses := addrs\<rparr> in
     (case extractCallGraph E tx op skipped of
        Err e \<Rightarrow> Ok (r, skipped)
      | Panic \<Rightarrow> Panic
      | Ok (None, skipped') \<Rightarrow> Ok (r, skipped')
      | Ok (Some g, skipped') \<Rightarrow> (case callGraphToJSON (Some g) of (calls, involved, depth) \<Rightarrow>
          Ok (r\<lparr>od_ContractCallsJSON := calls, od_ContractsInvolved := involved, od_MaxCallDepth := depth\<rparr>, skipped'))))"

definition invocationFields ::
    "sdk \<Rightarrow> ledger_tx \<Rightarrow> operation \<Rightarrow> operation_data \<Rightarrow> nat \<Rightarrow> (operation_data \<times> nat) res" where
  "invocationFields E tx op r skipped = (case op_Body op of
     OpInvokeHostFunction host \<Rightarrow>
       bindR (extractContractInvocationDetails E (ih_HostFunction host)) (\<lambda>(contractID, function, args).
       integrateCallGraph E tx op host (r\<lparr>od_SorobanOperation := Some (hostFunctionTypeString E (ih_HostFunction host)),
         od_SorobanAuthRequired := Some (ih_Auth host \<noteq> []), od_SorobanContractID := contractID,
         od_SorobanFunction := function, od_SorobanArgumentsJSON := args\<rparr>) skipped)
   | _ \<Rightarrow> Ok (r, skipped))"

section \<open>ExtractOperations\<close>

definition sourceMuxed :: "ledger_tx \<Rightarrow> operation \<Rightarrow> muxed_account" where
  "sourceMuxed tx op = (case op_SourceAccount op of Some m \<Rightarrow> m | None \<Rightarrow> tx_SourceAccount tx)"

definition operationBase ::
    "sdk \<Rightarrow> ledger_input \<Rightarrow> nat \<Rightarrow> ledger_tx \<Rightarrow> i64 \<Rightarrow> nat \<Rightarrow> operation \<Rightarrow> i64 \<Rightarrow> operation_data" where
  "operationBase E input txPos tx txId i op opId =
     \<lparr>od_TransactionHash = hexEncode (tx_Hash tx), od_TransactionIndex = txPos + 1, od_OperationIndex = i,
      od_LedgerSequence = in_Sequence input, od_SourceAccount = muxAddress E (sourceMuxed tx op),
      od_SourceAccountMuxed = getMuxedAddress E (sourceMuxed tx op), od_OpType = sint (opTypeNum E (op_Body op)),
      od_TypeString = opTypeString E (op_Body op), od_CreatedAt = in_ClosedAt input,
      od_TransactionSuccessful = tx_Successful tx, od_OperationResultCode = None,
      od_LedgerRange = in_LedgerRange input, od_Amount = None, od_Asset = None, od_Destination = None,
      od_AssetType = None, od_AssetCode = None, od_AssetIssuer = None, od_SourceAsset = None,
      od_SourceAssetType = None, od_SourceAssetCode = None, od_SourceAssetIssuer = None, od_SourceAmount = None,
      od_DestinationMin = None, od_StartingBalance = None, od_TrustlineLimit = None, od_OfferID = None,
      od_Price = None, od_PriceR = None, od_BuyingAsset = None, od_BuyingAssetType = None,
      od_BuyingAssetCode = None, od_BuyingAssetIssuer = None, od_SellingAsset = None, od_SellingAssetType = None,
      od_SellingAssetCode = None, od_SellingAssetIssuer = None, od_SetFlags = None, od_ClearFlags = None,
      od_HomeDomain = None, od_MasterWeight = None, od_LowThreshold = None, od_MediumThreshold = None,
      od_HighThreshold = None, od_DataName = None, od_DataValue = None, od_BalanceID = None,
      od_SponsoredID = None, od_BumpTo = None, od_SorobanAuthRequired = None, od_SorobanOperation = None,
      od_SorobanContractID = None, od_SorobanFunction = None, od_SorobanArgumentsJSON = None,
      od_ContractCallsJSON = None, od_ContractsInvolved = None, od_MaxCallDepth = None,
      od_SorobanAuthCredentialsTypes = None, od_SorobanAuthAddresses = None, od_TransactionID = txId,
      od_OperationID = opId, od_EraID = in_EraID input\<rparr>"

text \<open>The result code of an operation of a successful transaction, when it has a result.\<close>

definition resultCode :: "sdk \<Rightarrow> ledger_tx \<Rightarrow> nat \<Rightarrow> string option" where
  "resultCode E tx i = (if \<not> tx_Successful tx then None
     else case tx_OpResults tx of
       Some rs \<Rightarrow> if i < length rs then Some (opResultCodeString E (rs ! i)) else None
     | None \<Rightarrow> None)"

definition operationRow ::
    "sdk \<Rightarrow> ledger_input \<Rightarrow> nat \<Rightarrow> ledger_tx \<Rightarrow> i64 \<Rightarrow> nat \<Rightarrow> operation \<Rightarrow> nat \<Rightarrow> (operation_data \<times> nat) res" where
  "operationRow E input txPos tx txId i op skipped =
     bindR (toidInt64 E (in_Sequence input) (of_nat txPos + 1) (of_nat i + 1)) (\<lambda>opId.
     bindR (opFields E (op_Body op) (operationBase E input txPos tx txId i op opId)) (\<lambda>r.
     invocationFields E tx op (r\<lparr>od_OperationResultCode := resultCode E tx i\<rparr>) skipped))"

fun operationLoop ::
    "sdk \<Rightarrow> ledger_input \<Rightarrow> nat \<Rightarrow> ledger_tx \<Rightarrow> i64 \<Rightarrow> nat \<Rightarrow> operation list \<Rightarrow> nat \<Rightarrow> (operation_data list \<times> nat) res" where
  "operationLoop E input txPos tx txId i [] skipped = Ok ([], skipped)"
| "operationLoop E input txPos tx txId i (op # ops) skipped =
     bindR (operationRow E input txPos tx txId i op skipped) (\<lambda>(r, skipped').
     mapR (\<lambda>(rs, k). (r # rs, k)) (operationLoop E input txPos tx txId (Suc i) ops skipped'))"

fun transactionLoop ::
    "sdk \<Rightarrow> ledger_input \<Rightarrow> nat \<Rightarrow> ledger_tx list \<Rightarrow> nat \<Rightarrow> (operation_data list \<times> nat) res" where
  "transactionLoop E input txPos [] skipped = Ok ([], skipped)"
| "transactionLoop E input txPos (tx # txs) skipped =
     bindR (toidInt64 E (in_Sequence input) (of_nat txPos + 1) 0) (\<lambda>txId.
     bindR (operationLoop E input txPos tx txId 0 (tx_Operations tx) skipped) (\<lambda>(rs, skipped').
     mapR (\<lambda>(rs', k). (rs @ rs', k)) (transactionLoop E input (Suc txPos) txs skipped')))"

definition extractOperations :: "sdk \<Rightarrow> ledger_input \<Rightarrow> nat \<Rightarrow> (operation_data list \<times> nat) res" where
  "extractOperations E input skipped = (case in_Transactions input of
     Err e \<Rightarrow> Err (''failed to read transactions: '' @ e) | Panic \<Rightarrow> Panic
   | Ok txs \<Rightarrow> transactionLoop E input 0 txs skipped)"

section \<open>What the rows say\<close>

text \<open>The columns that place a row; nothing after \<open>operationBase\<close> changes them.\<close>

definition samePlace :: "operation_data \<Rightarrow> operation_data \<Rightarrow> bool" where
  "samePlace r r' \<longleftrightarrow> od_TransactionHash r = od_TransactionHash r' \<and> od_TransactionIndex r = od_TransactionIndex r'
     \<and> od_OperationIndex r = od_OperationIndex r' \<and> od_SourceAccount r = od_SourceAccount r'
     \<and> od_TypeString r = od_TypeString r' \<and> od_TransactionSuccessful r = od_TransactionSuccessful r'
     \<and> od_TransactionID r = od_TransactionID r' \<and> od_OperationID r = od_OperationID r'"

lemma samePlace_trans: "samePlace r r' \<Longrightarrow> samePlace r' r'' \<Longrightarrow> samePlace r r''"
  by (simp add: samePlace_def)

lemma samePlace_setters:
  "samePlace r (setAssetFields E a r') \<longleftrightarrow> samePlace r r'"
  "samePlace r (setSourceAssetFields E a r') \<longleftrightarrow> samePlace r r'"
  "samePlace r (setBuyingAssetFields E a r') \<longleftrightarrow> samePlace r r'"
  "samePlace r (setSellingAssetFields E a r') \<longleftrightarrow> samePlace r r'"
  "samePlace r (setPrice p r') \<longleftrightarrow> samePlace r r'"
  "samePlace r (setOptionsFields so r') \<longleftrightarrow> samePlace r r'"
  "samePlace r (r'\<lparr>od_Amount := x1\<rparr>) \<longleftrightarrow> samePlace r r'"
  "samePlace r (r'\<lparr>od_Destination := x2\<rparr>) \<longleftrightarrow> samePlace r r'"
  "samePlace r (r'\<lparr>od_SourceAmount := x1\<rparr>) \<longleftrightarrow> samePlace r r'"
  "samePlace r (r'\<lparr>od_OfferID := x1\<rparr>) \<longleftrightarrow> samePlace r r'"
  "samePlace r (r'\<lparr>od_DestinationMin := x1\<rparr>) \<longleftrightarrow> samePlace r r'"
  "samePlace r (r'\<lparr>od_SetFlags := x3\<rparr>) \<longleftrightarrow> samePlace r r'"
  "samePlace r (r'\<lparr>od_ClearFlags := x3\<rparr>) \<longleftrightarrow> samePlace r r'"
  "samePlace r (r'\<lparr>od_OperationResultCode := x2\<rparr>) \<longleftrightarrow> samePlace r r'"
  by (simp_all add: samePlace_def setAssetFields_def setSourceAssetFields_def setBuyingAssetFields_def
      setSellingAssetFields_def setPrice_def setOptionsFields_def split: prod.split)

lemma opFields_samePlace: "opFields E body r = Ok r' \<Longrightarrow> samePlace r r'"
proof -
  have same: "samePlace r r" by (simp add: samePlace_def)
  have limit: "samePlace r (setAssetFields E a (r\<lparr>od_TrustlineLimit := l\<rparr>))" for a l
    by (simp add: samePlace_def setAssetFields_def split: prod.split)
  assume "opFields E body r = Ok r'"
  then show ?thesis
  proof (cases body)
    case (OpChangeTrust line limit)
    with \<open>opFields E body r = Ok r'\<close> show ?thesis
      using limit by (cases "line = CtlPoolShare") (auto simp: Let_def mapR_Ok_iff, simp add: samePlace_def)
  next
    case (OpClaimClaimableBalance i)
    with \<open>opFields E body r = Ok r'\<close> show ?thesis
      by (cases "marshalHexCbId E i") (auto simp: samePlace_def)
  next
    case (OpCreateAccount d b)
    with \<open>opFields E body r = Ok r'\<close> show ?thesis by (auto simp: samePlace_def)
  next
    case (OpAllowTrust t c a)
    with \<open>opFields E body r = Ok r'\<close> show ?thesis by (auto simp: samePlace_def)
  next
    case (OpManageData n v)
    with \<open>opFields E body r = Ok r'\<close> show ?thesis by (auto simp: samePlace_def)
  next
    case (OpBumpSequence n)
    with \<open>opFields E body r = Ok r'\<close> show ?thesis by (auto simp: samePlace_def)
  next
    case (OpBeginSponsoringFutureReserves n)
    with \<open>opFields E body r = Ok r'\<close> show ?thesis by (auto simp: samePlace_def)
  qed (insert same \<open>opFields E body r = Ok r'\<close>, auto simp: samePlace_setters)
qed

lemma invocationFields_samePlace:
  assumes "invocationFields E tx op r k = Ok (r', k')"
  shows "samePlace r r'" "od_OperationResultCode r' = od_OperationResultCode r"
proof -
  have graph: "samePlace r r' \<and> od_OperationResultCode r' = od_OperationResultCode r"
    if g: "integrateCallGraph E tx op host r k = Ok (r', k')" for host r k
  proof -
    from g obtain types addrs where g': "(case extractCallGraph E tx op k of
        Err e \<Rightarrow> Ok (r\<lparr>od_SorobanAuthCredentialsTypes := types, od_SorobanAuthAddresses := addrs\<rparr>, k)
      | Panic \<Rightarrow> Panic
      | Ok (None, k'') \<Rightarrow> Ok (r\<lparr>od_SorobanAuthCredentialsTypes := types, od_SorobanAuthAddresses := addrs\<rparr>, k'')
      | Ok (Some g, k'') \<Rightarrow> (case callGraphToJSON (Some g) of (calls, involved, depth) \<Rightarrow>
          Ok (r\<lparr>od_SorobanAuthCredentialsTypes := types, od_SorobanAuthAddresses := addrs, od_ContractCallsJSON := calls,
            od_ContractsInvolved := involved, od_MaxCallDepth := depth\<rparr>, k''))) = Ok (r', k')"
      by (auto simp: integrateCallGraph_def bindR_Ok_iff Let_def)
    show ?thesis
    proof (cases "extractCallGraph E tx op k")
      case (Ok gk)
      then show ?thesis using g'
        by (cases gk; cases "fst gk") (auto simp: samePlace_def split: prod.splits)
    qed (use g' in \<open>auto simp: samePlace_def\<close>)
  qed
  show "samePlace r r'" "od_OperationResultCode r' = od_OperationResultCode r"
    using assms by (cases "op_Body op"; auto simp: invocationFields_def bindR_Ok_iff samePlace_def dest!: graph)+
qed

definition rowOfOp :: "sdk \<Rightarrow> ledger_input \<Rightarrow> nat \<Rightarrow> ledger_tx \<Rightarrow> nat \<Rightarrow> operation_data \<Rightarrow> bool" where
  "rowOfOp E input t tx i r \<longleftrightarrow> od_TransactionHash r = hexEncode (tx_Hash tx) \<and> od_TransactionIndex r = t + 1
     \<and> od_OperationIndex r = i \<and> od_TransactionSuccessful r = tx_Successful tx
     \<and> od_SourceAccount r = muxAddress E (sourceMuxed tx (tx_Operations tx ! i))
     \<and> od_TypeString r = opTypeString E (op_Body (tx_Operations tx ! i))
     \<and> od_OperationResultCode r = resultCode E tx i
     \<and> toidInt64 E (in_Sequence input) (of_nat t + 1) 0 = Ok (od_TransactionID r)
     \<and> toidInt64 E (in_Sequence input) (of_nat t + 1) (of_nat i + 1) = Ok (od_OperationID r)"

lemma operationRow_rowOfOp:
  assumes "operationRow E input t tx txId i (tx_Operations tx ! i) k = Ok (r, k')"
    and "toidInt64 E (in_Sequence input) (of_nat t + 1) 0 = Ok txId"
  shows "rowOfOp E input t tx i r"
proof -
  let ?op = "tx_Operations tx ! i"
  obtain opId r1 where row: "toidInt64 E (in_Sequence input) (of_nat t + 1) (of_nat i + 1) = Ok opId"
    "opFields E (op_Body ?op) (operationBase E input t tx txId i ?op opId) = Ok r1"
    "invocationFields E tx ?op (r1\<lparr>od_OperationResultCode := resultCode E tx i\<rparr>) k = Ok (r, k')"
    using assms(1) by (auto simp: operationRow_def bindR_Ok_iff)
  have "samePlace (operationBase E input t tx txId i ?op opId) r1" by (rule opFields_samePlace [OF row(2)])
  moreover have "samePlace r1 r"
    using invocationFields_samePlace(1) [OF row(3)] by (simp add: samePlace_def)
  ultimately have "samePlace (operationBase E input t tx txId i ?op opId) r" by (rule samePlace_trans)
  moreover have "od_OperationResultCode r = resultCode E tx i"
    using invocationFields_samePlace(2) [OF row(3)] by simp
  ultimately show ?thesis using row(1) assms(2) by (auto simp: rowOfOp_def samePlace_def operationBase_def)
qed

lemma operationLoop_rows:
  assumes "operationLoop E input t tx txId i (drop i (tx_Operations tx)) k = Ok (rs, k')"
    and "toidInt64 E (in_Sequence input) (of_nat t + 1) 0 = Ok txId" "i \<le> length (tx_Operations tx)"
  shows "length rs = length (tx_Operations tx) - i
    \<and> (\<forall>j < length rs. rowOfOp E input t tx (i + j) (rs ! j))"
  using assms
proof (induction "length (tx_Operations tx) - i" arbitrary: i k rs)
  case 0
  then show ?case by simp
next
  case (Suc n)
  then have i: "i < length (tx_Operations tx)" by simp
  then have d: "drop i (tx_Operations tx) = tx_Operations tx ! i # drop (Suc i) (tx_Operations tx)"
    by (simp add: Cons_nth_drop_Suc)
  from Suc.prems(1) obtain r k1 rs' where r: "operationRow E input t tx txId i (tx_Operations tx ! i) k = Ok (r, k1)"
    and rest: "operationLoop E input t tx txId (Suc i) (drop (Suc i) (tx_Operations tx)) k1 = Ok (rs', k')" and rs: "rs = r # rs'"
    by (auto simp: d bindR_Ok_iff mapR_Ok_iff)
  have "length rs' = length (tx_Operations tx) - Suc i \<and> (\<forall>j < length rs'. rowOfOp E input t tx (Suc i + j) (rs' ! j))"
    using Suc.hyps(2) i by (intro Suc.hyps(1) [OF _ rest Suc.prems(2)]) auto
  moreover have "rowOfOp E input t tx i r" by (rule operationRow_rowOfOp [OF r Suc.prems(2)])
  ultimately show ?case using i by (auto simp: rs nth_Cons' less_Suc_eq_0_disj)
qed

definition opRowsOf :: "sdk \<Rightarrow> ledger_input \<Rightarrow> nat \<Rightarrow> ledger_tx \<Rightarrow> operation_data list \<Rightarrow> bool" where
  "opRowsOf E input t tx rs \<longleftrightarrow> length rs = length (tx_Operations tx)
     \<and> (\<forall>i < length rs. rowOfOp E input t tx i (rs ! i))"

lemma transactionLoop_rows:
  assumes "transactionLoop E input n txs k = Ok (rows, k')"
  shows "\<exists>rss. rows = concat rss \<and> length rss = length txs \<and> (\<forall>t < length txs. opRowsOf E input (n + t) (txs ! t) (rss ! t))"
  using assms
proof (induction txs arbitrary: n k rows)
  case (Cons tx txs)
  then obtain txId rs k1 rs' where t: "toidInt64 E (in_Sequence input) (of_nat n + 1) 0 = Ok txId"
    and rs: "operationLoop E input n tx txId 0 (tx_Operations tx) k = Ok (rs, k1)"
    and rest: "transactionLoop E input (Suc n) txs k1 = Ok (rs', k')" and rows: "rows = rs @ rs'"
    by (auto simp: bindR_Ok_iff mapR_Ok_iff)
  from Cons.IH [OF rest] obtain rss where rss: "rs' = concat rss" "length rss = length txs"
    "\<forall>t < length txs. opRowsOf E input (Suc n + t) (txs ! t) (rss ! t)" by blast
  have "opRowsOf E input n tx rs"
    using operationLoop_rows [where i = 0, simplified, OF rs t] by (simp add: opRowsOf_def)
  with rss rows show ?case
    by (intro exI [of _ "rs # rss"]) (auto simp: nth_Cons' less_Suc_eq_0_disj)
qed simp

text \<open>
  C7: the operation table has the operations of every transaction of the ledger, failed ones included, in order;
  each row has the position of its transaction (from one) and of its operation (from zero), the operation's
  source or else the transaction's, the result code where there is one, and the two TOIDs of its place.
\<close>

theorem operation_rows:
  assumes "in_Transactions input = Ok txs" "extractOperations E input k = Ok (rows, k')"
  shows "\<exists>rss. rows = concat rss \<and> length rss = length txs
    \<and> (\<forall>t < length txs. length (rss ! t) = length (tx_Operations (txs ! t))
         \<and> (\<forall>i < length (rss ! t). rowOfOp E input t (txs ! t) i (rss ! t ! i)))"
  using transactionLoop_rows [of E input 0 txs k rows k'] assms by (simp add: extractOperations_def opRowsOf_def)

text \<open>
  \<open>toid.New(..).ToInt64()\<close> on numbers within its fields: 32 bits of ledger, 20 of transaction, 12 of
  operation.
\<close>

definition toidPacks :: "sdk \<Rightarrow> bool" where
  "toidPacks E \<longleftrightarrow> (\<forall>l t p. 0 \<le> sint l \<and> uint t < 2 ^ 20 \<and> uint p < 2 ^ 12 \<longrightarrow>
     toidInt64 E l t p = Ok (word_of_int (sint l * 2 ^ 32 + uint t * 2 ^ 12 + uint p)))"

lemma toidPacks_inject:
  assumes "toidPacks E" "0 \<le> sint l" "uint t < 2 ^ 20" "uint p < 2 ^ 12" "uint t' < 2 ^ 20" "uint p' < 2 ^ 12"
    and "toidInt64 E l t p = Ok w" "toidInt64 E l t' p' = Ok w"
  shows "t = t' \<and> p = p'"
proof -
  let ?v = "\<lambda>t p. sint l * 2 ^ 32 + uint t * 2 ^ 12 + uint (p :: i32)"
  have bounds: "0 \<le> ?v t p \<and> ?v t p < 2 ^ 63" if "uint t < 2 ^ 20" "uint p < 2 ^ 12" for t p :: i32
  proof -
    have "sint l < 2 ^ 31" using sint_less [of l] by simp
    then have "sint l * 2 ^ 32 \<le> (2 ^ 31 - 1) * 2 ^ 32" by (intro mult_right_mono) auto
    then show ?thesis using that assms(2) uint_ge_0 [of t] uint_ge_0 [of p] by simp
  qed
  have "word_of_int (?v t p) = (word_of_int (?v t' p') :: i64)"
    using assms by (simp add: toidPacks_def)
  moreover have self: "uint (word_of_int v :: i64) = v" if "0 \<le> v" "v < 2 ^ 63" for v :: int
    using that by (simp add: unsigned_of_int take_bit_int_eq_self)
  have "uint (word_of_int (?v t p) :: i64) = ?v t p" if "uint t < 2 ^ 20" "uint p < 2 ^ 12" for t p :: i32
    using bounds [OF that] by (intro self) auto
  ultimately have "?v t p = ?v t' p'" using assms(3-6) by metis
  then have eq: "uint t * 2 ^ 12 + uint p = uint t' * 2 ^ 12 + uint p'" by simp
  have "uint t = (uint t * 2 ^ 12 + uint p) div 2 ^ 12" "uint p = (uint t * 2 ^ 12 + uint p) mod 2 ^ 12"
    "uint t' = (uint t' * 2 ^ 12 + uint p') div 2 ^ 12" "uint p' = (uint t' * 2 ^ 12 + uint p') mod 2 ^ 12"
    using assms(4,6) uint_ge_0 [of p] uint_ge_0 [of p'] by (simp_all add: div_pos_pos_trivial mod_pos_pos_trivial)
  then have "uint t = uint t'" "uint p = uint p'" using eq by metis+
  then show ?thesis by (auto intro: unsigned_word_eqI [where ?'a = int])
qed

lemma sint_small32: "uint w < 2 ^ 31 \<Longrightarrow> sint w = uint (w :: i32)"
proof -
  assume "uint w < 2 ^ 31"
  moreover have "- (2 ^ 31) \<le> uint w" using uint_ge_0 [of w] by (rule order_trans [rotated]) simp
  ultimately have "signed_take_bit 31 (uint w) = uint w" by (intro signed_take_bit_int_eq_self) auto
  then show ?thesis by (simp add: sint_uint)
qed

lemma demoSdk_toidPacks [simp]: "toidPacks demoSdk"
  unfolding toidPacks_def
proof (intro allI impI)
  fix l t p :: i32
  assume a: "0 \<le> sint l \<and> uint t < 2 ^ 20 \<and> uint p < 2 ^ 12"
  then have "sint t = uint t" "sint p = uint p" by (auto intro!: sint_small32)
  with a show "toidInt64 demoSdk l t p = Ok (word_of_int (sint l * 2 ^ 32 + uint t * 2 ^ 12 + uint p))"
    by (simp add: demoSdk_def)
qed

section \<open>Operation ids\<close>

definition sizesFit :: "ledger_tx list \<Rightarrow> bool" where
  "sizesFit txs \<longleftrightarrow> length txs < 2 ^ 20 \<and> (\<forall>tx \<in> set txs. length (tx_Operations tx) < 2 ^ 12)"

lemma uint_place: "n < m \<Longrightarrow> m < 2 ^ 20 \<Longrightarrow> uint (of_nat n + 1 :: u32) = int n + 1"
proof -
  assume "n < m" "m < 2 ^ 20"
  then have "uint (of_nat (n + 1) :: u32) = int (n + 1)"
    by (simp only: unsigned_of_nat) (simp add: take_bit_nat_eq_self)
  then show ?thesis by (simp add: add.commute)
qed

lemma distinct_concat_nth:
  assumes "\<And>t i t' i'. t < length rss \<Longrightarrow> i < length (rss ! t) \<Longrightarrow> t' < length rss \<Longrightarrow> i' < length (rss ! t') \<Longrightarrow>
    f (rss ! t ! i) = f (rss ! t' ! i') \<Longrightarrow> t = t' \<and> i = i'"
  shows "distinct (map f (concat rss))"
  using assms
proof (induction rss)
  case (Cons rs rss)
  have "distinct (map f rs)" using Cons.prems [of 0 _ 0] by (auto simp: distinct_conv_nth)
  moreover have "distinct (map f (concat rss))"
  proof (rule Cons.IH)
    fix t i t' i' assume "t < length rss" "i < length (rss ! t)" "t' < length rss" "i' < length (rss ! t')"
      "f (rss ! t ! i) = f (rss ! t' ! i')"
    then show "t = t' \<and> i = i'" using Cons.prems [of "Suc t" i "Suc t'" i'] by simp
  qed
  moreover have "f r \<noteq> f r'" if "r \<in> set rs" "r' \<in> set (concat rss)" for r r'
  proof -
    obtain i where "i < length rs" "r = rs ! i" using \<open>r \<in> set rs\<close> by (auto simp: in_set_conv_nth)
    moreover obtain t i' where "t < length rss" "i' < length (rss ! t)" "r' = rss ! t ! i'"
      using \<open>r' \<in> set (concat rss)\<close> by (auto simp: in_set_conv_nth)
    ultimately show ?thesis using Cons.prems [of 0 i "Suc t" i'] by auto
  qed
  ultimately show ?case by auto
qed simp

text \<open>
  C19: the operation ids of a ledger are distinct, up to the SDK's limits of a million transactions and four
  thousand operations each.
\<close>

theorem operation_ids_unique:
  assumes "in_Transactions input = Ok txs" "extractOperations E input k = Ok (rows, k')"
    and "toidPacks E" "0 \<le> sint (in_Sequence input)" "sizesFit txs"
  shows "distinct (map od_OperationID rows)"
proof -
  obtain rss where rss: "rows = concat rss" "length rss = length txs" "\<forall>t < length txs. opRowsOf E input t (txs ! t) (rss ! t)"
    using transactionLoop_rows [of E input 0 txs k rows k'] assms(1,2) by (auto simp: extractOperations_def)
  have place: "t < length txs \<and> i < length (tx_Operations (txs ! t))
      \<and> toidInt64 E (in_Sequence input) (of_nat t + 1) (of_nat i + 1) = Ok (od_OperationID (rss ! t ! i))"
    if "t < length rss" "i < length (rss ! t)" for t i
    using that rss(2,3) by (auto simp: opRowsOf_def rowOfOp_def)
  have "distinct (map od_OperationID (concat rss))"
  proof (rule distinct_concat_nth)
    fix t i t' i'
    assume ti: "t < length rss" "i < length (rss ! t)" "t' < length rss" "i' < length (rss ! t')"
      and eq: "od_OperationID (rss ! t ! i) = od_OperationID (rss ! t' ! i')"
    note p = place [OF ti(1,2)] and p' = place [OF ti(3,4)]
    have fit: "length txs < 2 ^ 20" "length (tx_Operations (txs ! t)) < 2 ^ 12" "length (tx_Operations (txs ! t')) < 2 ^ 12"
      using assms(5) p p' by (auto simp: sizesFit_def)
    have u: "uint (of_nat t + 1 :: u32) = int t + 1" "uint (of_nat t' + 1 :: u32) = int t' + 1"
      "uint (of_nat i + 1 :: u32) = int i + 1" "uint (of_nat i' + 1 :: u32) = int i' + 1"
      using p p' fit
      by (auto intro: uint_place [of _ "length txs"] uint_place [OF _ less_trans [of _ "2 ^ 12"]])
    have "of_nat t + 1 = (of_nat t' + 1 :: u32) \<and> of_nat i + 1 = (of_nat i' + 1 :: u32)"
    proof (rule toidPacks_inject [OF assms(3,4)])
      show "toidInt64 E (in_Sequence input) (of_nat t + 1) (of_nat i + 1) = Ok (od_OperationID (rss ! t ! i))"
        using p by blast
      show "toidInt64 E (in_Sequence input) (of_nat t' + 1) (of_nat i' + 1) = Ok (od_OperationID (rss ! t ! i))"
        using p' eq by simp
    qed (use u fit p p' in simp_all)
    then have "int t + 1 = int t' + 1" "int i + 1 = int i' + 1" using u by metis+
    then show "t = t' \<and> i = i'" by simp
  qed
  then show ?thesis by (simp add: rss(1))
qed

section \<open>A call graph that cannot be read\<close>

text \<open>
  When the call graph of an invocation cannot be read, the operation keeps its row: the credentials are
  recorded and the three call-graph columns stay as they were.
\<close>

theorem call_graph_error_keeps_row:
  assumes "extractCallGraph E tx op k = Err e" "extractAuthCredentials E (ih_Auth host) = Ok (types, addrs)"
  shows "\<exists>r'. integrateCallGraph E tx op host r k = Ok (r', k) \<and> samePlace r r'
    \<and> od_SorobanAuthCredentialsTypes r' = types \<and> od_SorobanAuthAddresses r' = addrs
    \<and> od_ContractCallsJSON r' = od_ContractCallsJSON r \<and> od_ContractsInvolved r' = od_ContractsInvolved r
    \<and> od_MaxCallDepth r' = od_MaxCallDepth r"
  by (simp add: integrateCallGraph_def assms samePlace_def)

definition demoInvokeOp :: operation where
  "demoInvokeOp = \<lparr>op_SourceAccount = None, op_Body = OpInvokeHostFunction \<lparr>ih_HostFunction =
     HfInvokeContract (Some \<lparr>ic_ContractAddress = AddrOther 9, ic_FunctionName = ''f'', ic_Args = []\<rparr>),
     ih_Auth = [\<lparr>au_Credentials = CrSourceAccount, au_RootInvocation = AuthInv (AfOther 1) []\<rparr>]\<rparr>\<rparr>"

theorem call_graph_error_keeps_row_witness:
  "\<exists>r'. integrateCallGraph demoSdk demoTx demoInvokeOp (case op_Body demoInvokeOp of OpInvokeHostFunction h \<Rightarrow> h)
       (operationBase demoSdk (demoTxs []) 0 demoTx 0 0 demoInvokeOp 0) 5 = Ok (r', 5)
     \<and> od_SorobanAuthCredentialsTypes r' = Some [''SOURCE_ACCOUNT''] \<and> od_ContractCallsJSON r' = None"
proof -
  let ?host = "case op_Body demoInvokeOp of OpInvokeHostFunction h \<Rightarrow> h"
  have "extractCallGraph demoSdk demoTx demoInvokeOp 5 = Err ''failed to get main contract ID: unknown address''" by code_simp
  moreover have "extractAuthCredentials demoSdk (ih_Auth ?host) = Ok (Some [''SOURCE_ACCOUNT''], Some [''''])" by code_simp
  ultimately obtain r' where
    "integrateCallGraph demoSdk demoTx demoInvokeOp ?host (operationBase demoSdk (demoTxs []) 0 demoTx 0 0 demoInvokeOp 0) 5 = Ok (r', 5)"
    "od_SorobanAuthCredentialsTypes r' = Some [''SOURCE_ACCOUNT'']"
    "od_ContractCallsJSON r' = od_ContractCallsJSON (operationBase demoSdk (demoTxs []) 0 demoTx 0 0 demoInvokeOp 0)"
    using call_graph_error_keeps_row [of demoSdk demoTx demoInvokeOp 5] by blast
  then show ?thesis by (auto simp: operationBase_def)
qed

definition demoOpTxs :: "ledger_tx list" where
  "demoOpTxs = [demoTx\<lparr>tx_Operations := [\<lparr>op_SourceAccount = None, op_Body = OpBumpSequence 7\<rparr>, demoInvokeOp]\<rparr>,
     demoTx\<lparr>tx_Hash := [8], tx_Operations := [\<lparr>op_SourceAccount = Some (MuxEd25519 [2]), op_Body = OpInflation\<rparr>]\<rparr>]"

lemma demoOpTxs_rows:
  obtains rows where "extractOperations demoSdk (demoTxs demoOpTxs) 0 = Ok (rows, 0)" "length rows = 3"
proof -
  have "mapR (\<lambda>(rows, k). (length rows, k)) (extractOperations demoSdk (demoTxs demoOpTxs) 0) = Ok (3, 0)" by code_simp
  with that show ?thesis by (auto simp: mapR_Ok_iff)
qed

theorem operation_rows_witness:
  "\<exists>rows. extractOperations demoSdk (demoTxs demoOpTxs) 0 = Ok (rows, 0)
     \<and> (\<exists>rss. rows = concat rss \<and> length rss = 2 \<and> od_SourceAccount (rss ! 1 ! 0) = ''GAC'')"
proof -
  obtain rows where rows: "extractOperations demoSdk (demoTxs demoOpTxs) 0 = Ok (rows, 0)"
    using demoOpTxs_rows by metis
  from operation_rows [OF demoTxs_simps(1) rows] obtain rss where rss: "rows = concat rss" "length rss = length demoOpTxs"
    "\<forall>t < length demoOpTxs. length (rss ! t) = length (tx_Operations (demoOpTxs ! t))
       \<and> (\<forall>i < length (rss ! t). rowOfOp demoSdk (demoTxs demoOpTxs) t (demoOpTxs ! t) i (rss ! t ! i))" by blast
  have len: "length demoOpTxs = 2" by (simp add: demoOpTxs_def)
  then have "length (rss ! 1) = length (tx_Operations (demoOpTxs ! 1))"
    "\<forall>i < length (rss ! 1). rowOfOp demoSdk (demoTxs demoOpTxs) 1 (demoOpTxs ! 1) i (rss ! 1 ! i)" using rss(3) by auto
  moreover have "length (tx_Operations (demoOpTxs ! 1)) = 1" by (simp add: demoOpTxs_def)
  ultimately have "rowOfOp demoSdk (demoTxs demoOpTxs) 1 (demoOpTxs ! 1) 0 (rss ! 1 ! 0)" by simp
  then have "od_SourceAccount (rss ! 1 ! 0) = muxAddress demoSdk (sourceMuxed (demoOpTxs ! 1) (tx_Operations (demoOpTxs ! 1) ! 0))"
    by (simp only: rowOfOp_def)
  moreover have "muxAddress demoSdk (sourceMuxed (demoOpTxs ! 1) (tx_Operations (demoOpTxs ! 1) ! 0)) = ''GAC''" by code_simp
  ultimately show ?thesis using rows rss(1,2) len by (intro exI [of _ rows] exI [of _ rss] conjI) simp_all
qed

theorem operation_ids_unique_witness:
  "\<exists>rows. extractOperations demoSdk (demoTxs demoOpTxs) 0 = Ok (rows, 0) \<and> length rows = 3
     \<and> distinct (map od_OperationID rows)"
proof -
  obtain rows where rows: "extractOperations demoSdk (demoTxs demoOpTxs) 0 = Ok (rows, 0)" "length rows = 3"
    using demoOpTxs_rows by metis
  have "0 \<le> sint (in_Sequence (demoTxs demoOpTxs))" by code_simp
  moreover have "sizesFit demoOpTxs" by (simp add: sizesFit_def demoOpTxs_def)
  ultimately show ?thesis using operation_ids_unique [OF demoTxs_simps(1) rows(1)] rows by auto
qed

end
