(* ===== verification/Effects.thy ===== *)
theory Effects
  imports Trades Transactions
begin

text \<open>
  \<open>effects.go\<close>: the effects of the operations of successful transactions.  Every generator appends
  to \<open>e.records\<close> and reads nothing of it, so it is given by the records it appends, in order.  The
  switch over the operation type has matched the arm a generator reads, so each takes the fields of its
  operation as arguments; the arms of results and ledger entries, which the switch does not check, are read
  by accessors that panic on another arm.
\<close>

section \<open>Effect types\<close>

abbreviation (input) EffectAccountCreated :: nat where "EffectAccountCreated \<equiv> 0"
abbreviation (input) EffectAccountRemoved :: nat where "EffectAccountRemoved \<equiv> 1"
abbreviation (input) EffectAccountCredited :: nat where "EffectAccountCredited \<equiv> 2"
abbreviation (input) EffectAccountDebited :: nat where "EffectAccountDebited \<equiv> 3"
abbreviation (input) EffectAccountThresholdsUpdated :: nat where "EffectAccountThresholdsUpdated \<equiv> 4"
abbreviation (input) EffectAccountHomeDomainUpdated :: nat where "EffectAccountHomeDomainUpdated \<equiv> 5"
abbreviation (input) EffectAccountFlagsUpdated :: nat where "EffectAccountFlagsUpdated \<equiv> 6"
abbreviation (input) EffectAccountInflationDestinationUpdated :: nat where "EffectAccountInflationDestinationUpdated \<equiv> 7"
abbreviation (input) EffectSignerCreated :: nat where "EffectSignerCreated \<equiv> 10"
abbreviation (input) EffectSignerRemoved :: nat where "EffectSignerRemoved \<equiv> 11"
abbreviation (input) EffectSignerUpdated :: nat where "EffectSignerUpdated \<equiv> 12"
abbreviation (input) EffectTrustlineCreated :: nat where "EffectTrustlineCreated \<equiv> 20"
abbreviation (input) EffectTrustlineRemoved :: nat where "EffectTrustlineRemoved \<equiv> 21"
abbreviation (input) EffectTrustlineUpdated :: nat where "EffectTrustlineUpdated \<equiv> 22"
abbreviation (input) EffectTrustlineFlagsUpdated :: nat where "EffectTrustlineFlagsUpdated \<equiv> 26"
abbreviation (input) EffectOfferCreated :: nat where "EffectOfferCreated \<equiv> 30"
abbreviation (input) EffectOfferRemoved :: nat where "EffectOfferRemoved \<equiv> 31"
abbreviation (input) EffectOfferUpdated :: nat where "EffectOfferUpdated \<equiv> 32"
abbreviation (input) EffectTrade :: nat where "EffectTrade \<equiv> 33"
abbreviation (input) EffectDataCreated :: nat where "EffectDataCreated \<equiv> 40"
abbreviation (input) EffectDataRemoved :: nat where "EffectDataRemoved \<equiv> 41"
abbreviation (input) EffectDataUpdated :: nat where "EffectDataUpdated \<equiv> 42"
abbreviation (input) EffectSequenceBumped :: nat where "EffectSequenceBumped \<equiv> 43"
abbreviation (input) EffectClaimableBalanceCreated :: nat where "EffectClaimableBalanceCreated \<equiv> 50"
abbreviation (input) EffectClaimableBalanceClaimantCreated :: nat where "EffectClaimableBalanceClaimantCreated \<equiv> 51"
abbreviation (input) EffectClaimableBalanceClaimed :: nat where "EffectClaimableBalanceClaimed \<equiv> 52"
abbreviation (input) EffectAccountSponsorshipCreated :: nat where "EffectAccountSponsorshipCreated \<equiv> 60"
abbreviation (input) EffectAccountSponsorshipUpdated :: nat where "EffectAccountSponsorshipUpdated \<equiv> 61"
abbreviation (input) EffectAccountSponsorshipRemoved :: nat where "EffectAccountSponsorshipRemoved \<equiv> 62"
abbreviation (input) EffectTrustlineSponsorshipCreated :: nat where "EffectTrustlineSponsorshipCreated \<equiv> 63"
abbreviation (input) EffectTrustlineSponsorshipUpdated :: nat where "EffectTrustlineSponsorshipUpdated \<equiv> 64"
abbreviation (input) EffectTrustlineSponsorshipRemoved :: nat where "EffectTrustlineSponsorshipRemoved \<equiv> 65"
abbreviation (input) EffectDataSponsorshipCreated :: nat where "EffectDataSponsorshipCreated \<equiv> 66"
abbreviation (input) EffectDataSponsorshipUpdated :: nat where "EffectDataSponsorshipUpdated \<equiv> 67"
abbreviation (input) EffectDataSponsorshipRemoved :: nat where "EffectDataSponsorshipRemoved \<equiv> 68"
abbreviation (input) EffectClaimableBalanceSponsorshipCreated :: nat where "EffectClaimableBalanceSponsorshipCreated \<equiv> 69"
abbreviation (input) EffectClaimableBalanceSponsorshipUpdated :: nat where "EffectClaimableBalanceSponsorshipUpdated \<equiv> 70"
abbreviation (input) EffectClaimableBalanceSponsorshipRemoved :: nat where "EffectClaimableBalanceSponsorshipRemoved \<equiv> 71"
abbreviation (input) EffectSignerSponsorshipCreated :: nat where "EffectSignerSponsorshipCreated \<equiv> 72"
abbreviation (input) EffectSignerSponsorshipUpdated :: nat where "EffectSignerSponsorshipUpdated \<equiv> 73"
abbreviation (input) EffectSignerSponsorshipRemoved :: nat where "EffectSignerSponsorshipRemoved \<equiv> 74"
abbreviation (input) EffectClaimableBalanceClawedBack :: nat where "EffectClaimableBalanceClawedBack \<equiv> 80"
abbreviation (input) EffectLiquidityPoolDeposited :: nat where "EffectLiquidityPoolDeposited \<equiv> 90"
abbreviation (input) EffectLiquidityPoolWithdrew :: nat where "EffectLiquidityPoolWithdrew \<equiv> 91"
abbreviation (input) EffectLiquidityPoolTrade :: nat where "EffectLiquidityPoolTrade \<equiv> 92"
abbreviation (input) EffectLiquidityPoolCreated :: nat where "EffectLiquidityPoolCreated \<equiv> 93"
abbreviation (input) EffectLiquidityPoolRemoved :: nat where "EffectLiquidityPoolRemoved \<equiv> 94"
abbreviation (input) EffectLiquidityPoolRevoked :: nat where "EffectLiquidityPoolRevoked \<equiv> 95"
abbreviation (input) EffectContractCredited :: nat where "EffectContractCredited \<equiv> 96"
abbreviation (input) EffectContractDebited :: nat where "EffectContractDebited \<equiv> 97"
abbreviation (input) EffectExtendFootprintTtl :: nat where "EffectExtendFootprintTtl \<equiv> 98"
abbreviation (input) EffectRestoreFootprint :: nat where "EffectRestoreFootprint \<equiv> 99"

definition effectTypeNames :: "(nat \<times> string) list" where
  "effectTypeNames = [
     (EffectAccountCreated, ''account_created''),
     (EffectAccountRemoved, ''account_removed''),
     (EffectAccountCredited, ''account_credited''),
     (EffectAccountDebited, ''account_debited''),
     (EffectAccountThresholdsUpdated, ''account_thresholds_updated''),
     (EffectAccountHomeDomainUpdated, ''account_home_domain_updated''),
     (EffectAccountFlagsUpdated, ''account_flags_updated''),
     (EffectAccountInflationDestinationUpdated, ''account_inflation_destination_updated''),
     (EffectSignerCreated, ''signer_created''),
     (EffectSignerRemoved, ''signer_removed''),
     (EffectSignerUpdated, ''signer_updated''),
     (EffectTrustlineCreated, ''trustline_created''),
     (EffectTrustlineRemoved, ''trustline_removed''),
     (EffectTrustlineUpdated, ''trustline_updated''),
     (EffectTrustlineFlagsUpdated, ''trustline_flags_updated''),
     (EffectOfferCreated, ''offer_created''),
     (EffectOfferRemoved, ''offer_removed''),
     (EffectOfferUpdated, ''offer_updated''),
     (EffectTrade, ''trade''),
     (EffectDataCreated, ''data_created''),
     (EffectDataRemoved, ''data_removed''),
     (EffectDataUpdated, ''data_updated''),
     (EffectSequenceBumped, ''sequence_bumped''),
     (EffectClaimableBalanceCreated, ''claimable_balance_created''),
     (EffectClaimableBalanceClaimantCreated, ''claimable_balance_claimant_created''),
     (EffectClaimableBalanceClaimed, ''claimable_balance_claimed''),
     (EffectAccountSponsorshipCreated, ''account_sponsorship_created''),
     (EffectAccountSponsorshipUpdated, ''account_sponsorship_updated''),
     (EffectAccountSponsorshipRemoved, ''account_sponsorship_removed''),
     (EffectTrustlineSponsorshipCreated, ''trustline_sponsorship_created''),
     (EffectTrustlineSponsorshipUpdated, ''trustline_sponsorship_updated''),
     (EffectTrustlineSponsorshipRemoved, ''trustline_sponsorship_removed''),
     (EffectDataSponsorshipCreated, ''data_sponsorship_created''),
     (EffectDataSponsorshipUpdated, ''data_sponsorship_updated''),
     (EffectDataSponsorshipRemoved, ''data_sponsorship_removed''),
     (EffectClaimableBalanceSponsorshipCreated, ''claimable_balance_sponsorship_created''),
     (EffectClaimableBalanceSponsorshipUpdated, ''claimable_balance_sponsorship_updated''),
     (EffectClaimableBalanceSponsorshipRemoved, ''claimable_balance_sponsorship_removed''),
     (EffectSignerSponsorshipCreated, ''signer_sponsorship_created''),
     (EffectSignerSponsorshipUpdated, ''signer_sponsorship_updated''),
     (EffectSignerSponsorshipRemoved, ''signer_sponsorship_removed''),
     (EffectClaimableBalanceClawedBack, ''claimable_balance_clawed_back''),
     (EffectLiquidityPoolDeposited, ''liquidity_pool_deposited''),
     (EffectLiquidityPoolWithdrew, ''liquidity_pool_withdrew''),
     (EffectLiquidityPoolTrade, ''liquidity_pool_trade''),
     (EffectLiquidityPoolCreated, ''liquidity_pool_created''),
     (EffectLiquidityPoolRemoved, ''liquidity_pool_removed''),
     (EffectLiquidityPoolRevoked, ''liquidity_pool_revoked''),
     (EffectContractCredited, ''contract_credited''),
     (EffectContractDebited, ''contract_debited''),
     (EffectExtendFootprintTtl, ''extend_footprint_ttl''),
     (EffectRestoreFootprint, ''restore_footprint'')]"

text \<open>The name column; a number the table does not list is printed as unknown.\<close>

definition effectTypeString :: "nat \<Rightarrow> string" where
  "effectTypeString t = (case map_of effectTypeNames t of Some name \<Rightarrow> name | None \<Rightarrow> ''unknown_'' @ showNat t)"

section \<open>Records\<close>

type_synonym details = "(string, gval) gomap"

record effect_record =
  er_Address :: string
  er_EffectType :: nat
  er_Details :: details

record op_wrapper =
  ow_Index :: nat
  ow_Tx :: ledger_tx
  ow_Op :: operation
  ow_LedgerSeq :: u32
  ow_Network :: string
  ow_ClosedAt :: gotime

definition sourceAccount :: "op_wrapper \<Rightarrow> muxed_account" where
  "sourceAccount ow = (case op_SourceAccount (ow_Op ow) of Some m \<Rightarrow> m | None \<Rightarrow> tx_SourceAccount (ow_Tx ow))"

text \<open>A result that is missing, or has no inner result, panics.\<close>

definition operationResult :: "op_wrapper \<Rightarrow> op_result_tr res" where
  "operationResult ow = (let results = (case tx_OpResults (ow_Tx ow) of Some rs \<Rightarrow> rs | None \<Rightarrow> []) in
     if ow_Index ow < length results
     then case results ! ow_Index ow of OrInner tr \<Rightarrow> Ok tr | OrCode n \<Rightarrow> Panic
     else Panic)"

definition opWrapperId :: "sdk \<Rightarrow> op_wrapper \<Rightarrow> i64 res" where
  "opWrapperId E ow = toidInt64 E (ow_LedgerSeq ow) (tx_Index (ow_Tx ow)) (of_nat (ow_Index ow + 1))"

definition operationChanges :: "op_wrapper \<Rightarrow> change list res" where
  "operationChanges ow = tx_OperationChanges (ow_Tx ow) (ow_Index ow)"

text \<open>\<open>if err != nil { return }\<close>: an error ends the generator, what it appended before stays.\<close>

fun unlessErr :: "'a res \<Rightarrow> ('a \<Rightarrow> 'b list res) \<Rightarrow> 'b list res" where
  "unlessErr (Ok a) f = f a"
| "unlessErr (Err e) f = Ok []"
| "unlessErr Panic f = Panic"

definition addRecord :: "string \<Rightarrow> nat \<Rightarrow> details \<Rightarrow> effect_record list" where
  "addRecord address effectType details =
     [\<lparr>er_Address = address, er_EffectType = effectType, er_Details = details\<rparr>]"

definition addMuxed :: "sdk \<Rightarrow> muxed_account \<Rightarrow> nat \<Rightarrow> details \<Rightarrow> effect_record list" where
  "addMuxed E account = addRecord (accountAddress E (muxAccountId account))"

definition addUnmuxed :: "sdk \<Rightarrow> account_id \<Rightarrow> nat \<Rightarrow> details \<Rightarrow> effect_record list" where
  "addUnmuxed E account = addRecord (accountAddress E account)"

section \<open>Details\<close>

definition addAssetDetails :: "sdk \<Rightarrow> details \<Rightarrow> asset \<Rightarrow> string \<Rightarrow> details" where
  "addAssetDetails E result a prefix = (case assetExtract E a of (assetType, code, issuer) \<Rightarrow>
     let result = gmPut (prefix @ ''asset_type'') (GStr assetType) result in
     if a = AssetNative then result
     else gmPut (prefix @ ''asset_issuer'') (GStr issuer) (gmPut (prefix @ ''asset_code'') (GStr code) result))"

definition poolIDToString :: "hash \<Rightarrow> string" where
  "poolIDToString pool = hexEncode pool"

text \<open>An amount of an asset, as the pool details show it.\<close>

definition assetAmount :: "sdk \<Rightarrow> asset \<Rightarrow> i64 \<Rightarrow> gval" where
  "assetAmount E a amt = GMap [(''asset'', GStr (assetCanonical E a)), (''amount'', GStr (amountString E amt))]"

definition liquidityPoolDetails :: "sdk \<Rightarrow> pool_entry \<Rightarrow> gval res" where
  "liquidityPoolDetails E lp = (case lp_Body lp of PoolOther n \<Rightarrow> Panic
   | PoolConstantProduct cp \<Rightarrow> Ok (GMap
      [(''id'', GStr (poolIDToString (lp_Id lp))),
       (''fee_bp'', GInt (uint (pp_Fee cp))),
       (''type'', GStr ''constant_product''),
       (''total_trustlines'', GStr (sdec (pp_TrustLineCount cp))),
       (''total_shares'', GStr (amountString E (pp_TotalPoolShares cp))),
       (''reserves'', GArr [assetAmount E (pp_AssetA cp) (pp_ReserveA cp),
                            assetAmount E (pp_AssetB cp) (pp_ReserveB cp)])]))"

definition setFlag :: "u32 \<Rightarrow> u32 \<Rightarrow> string \<Rightarrow> bool \<Rightarrow> details \<Rightarrow> details" where
  "setFlag flags fl name v details = (if flags AND fl \<noteq> 0 then gmPut name (GBool v) details else details)"

definition setAuthFlagDetails :: "details \<Rightarrow> u32 \<Rightarrow> bool \<Rightarrow> details" where
  "setAuthFlagDetails details flags setValue =
     setFlag flags 8 ''auth_clawback_enabled_flag'' setValue
     (setFlag flags 4 ''auth_immutable_flag'' setValue
     (setFlag flags 2 ''auth_revocable_flag'' setValue
     (setFlag flags 1 ''auth_required_flag'' setValue details)))"

definition setTrustLineFlagDetails :: "details \<Rightarrow> u32 \<Rightarrow> bool \<Rightarrow> details" where
  "setTrustLineFlagDetails details flags setValue =
     setFlag flags 4 ''clawback_enabled_flag'' setValue
     (setFlag flags 2 ''authorized_to_maintain_liabilities'' setValue
     (setFlag flags 1 ''authorized_flag'' setValue details))"

text \<open>The details of a credit or debit: an amount and its asset.\<close>

definition amountDetails :: "sdk \<Rightarrow> i64 \<Rightarrow> asset \<Rightarrow> details" where
  "amountDetails E amt a = addAssetDetails E [(''amount'', GStr (amountString E amt))] a []"

definition nativeDetails :: "sdk \<Rightarrow> i64 \<Rightarrow> details" where
  "nativeDetails E amt = [(''amount'', GStr (amountString E amt)), (''asset_type'', GStr ''native'')]"

section \<open>Ledger entry accessors\<close>

text \<open>The \<open>Must\<close> accessors and the arm pointers of a ledger entry: another arm panics.\<close>

definition dataAccount :: "entry_data \<Rightarrow> account_entry res" where
  "dataAccount d = (case d of DAccount a \<Rightarrow> Ok a | _ \<Rightarrow> Panic)"

definition dataTrustLine :: "entry_data \<Rightarrow> trustline_entry res" where
  "dataTrustLine d = (case d of DTrustline t \<Rightarrow> Ok t | _ \<Rightarrow> Panic)"

definition dataValue :: "entry_data \<Rightarrow> data_entry res" where
  "dataValue d = (case d of DData a \<Rightarrow> Ok a | _ \<Rightarrow> Panic)"

definition dataBalance :: "entry_data \<Rightarrow> claimable_balance_entry res" where
  "dataBalance d = (case d of DClaimableBalance b \<Rightarrow> Ok b | _ \<Rightarrow> Panic)"

definition dataPool :: "entry_data \<Rightarrow> pool_entry res" where
  "dataPool d = (case d of DLiquidityPool p \<Rightarrow> Ok p | _ \<Rightarrow> Panic)"

text \<open>A pointer that is dereferenced.\<close>

fun derefR :: "'a option \<Rightarrow> 'a res" where
  "derefR (Some a) = Ok a"
| "derefR None = Panic"

section \<open>The change of a liquidity pool\<close>

record lp_delta =
  ld_ReserveA :: i64
  ld_ReserveB :: i64
  ld_TotalPoolShares :: i64

text \<open>
  One side of a change of a pool: its entry with the reserves, zeroes where there is none, or none of
  these when it is another pool than the one asked for.
\<close>

definition lpSide :: "hash option \<Rightarrow> ledger_entry option \<Rightarrow> (pool_entry option \<times> lp_delta) option res" where
  "lpSide lpID side = (case side of
     None \<Rightarrow> Ok (Some (None, \<lparr>ld_ReserveA = 0, ld_ReserveB = 0, ld_TotalPoolShares = 0\<rparr>))
   | Some e \<Rightarrow> bindR (dataPool (le_Data e)) (\<lambda>lp.
       if lpID \<noteq> None \<and> lpID \<noteq> Some (lp_Id lp) then Ok None
       else case lp_Body lp of PoolOther n \<Rightarrow> Err (''unexpected LP body type '' @ sdec n)
         | PoolConstantProduct cp \<Rightarrow> Ok (Some (Some lp, \<lparr>ld_ReserveA = pp_ReserveA cp,
             ld_ReserveB = pp_ReserveB cp, ld_TotalPoolShares = pp_TotalPoolShares cp\<rparr>))))"

definition lpMinus :: "lp_delta \<Rightarrow> lp_delta \<Rightarrow> lp_delta" where
  "lpMinus post pre = \<lparr>ld_ReserveA = ld_ReserveA post - ld_ReserveA pre,
     ld_ReserveB = ld_ReserveB post - ld_ReserveB pre,
     ld_TotalPoolShares = ld_TotalPoolShares post - ld_TotalPoolShares pre\<rparr>"

fun lpDeltaLoop :: "hash option \<Rightarrow> change list \<Rightarrow> (pool_entry option \<times> lp_delta) res" where
  "lpDeltaLoop lpID [] = Err ''liquidity pool change not found''"
| "lpDeltaLoop lpID (c # cs) =
     (if ch_Type c \<noteq> ELiquidityPool then lpDeltaLoop lpID cs
      else bindR (lpSide lpID (ch_Pre c)) (\<lambda>preSide. case preSide of None \<Rightarrow> lpDeltaLoop lpID cs
        | Some (preLp, pre) \<Rightarrow>
          bindR (lpSide lpID (ch_Post c)) (\<lambda>postSide. case postSide of None \<Rightarrow> lpDeltaLoop lpID cs
            | Some (postLp, post) \<Rightarrow>
              Ok (case postLp of Some lp \<Rightarrow> Some lp | None \<Rightarrow> preLp, lpMinus post pre))))"

definition getLiquidityPoolDelta :: "op_wrapper \<Rightarrow> hash option \<Rightarrow> (pool_entry option \<times> lp_delta) res" where
  "getLiquidityPoolDelta ow lpID = bindR (operationChanges ow) (lpDeltaLoop lpID)"

section \<open>The effects of each operation type\<close>

definition addAccountCreatedEffects :: "sdk \<Rightarrow> op_wrapper \<Rightarrow> account_id \<Rightarrow> i64 \<Rightarrow> effect_record list" where
  "addAccountCreatedEffects E ow destination startingBalance =
     addUnmuxed E destination EffectAccountCreated
       [(''starting_balance'', GStr (amountString E startingBalance))]
     @ addMuxed E (sourceAccount ow) EffectAccountDebited
       [(''asset_type'', GStr ''native''), (''amount'', GStr (amountString E startingBalance))]
     @ addUnmuxed E destination EffectSignerCreated
       [(''public_key'', GStr (accountAddress E destination)), (''weight'', GInt (defaultSignerWeight E))]"

text \<open>A credit of one account and a debit of another.\<close>

definition transferEffects ::
    "sdk \<Rightarrow> muxed_account \<Rightarrow> i64 \<Rightarrow> asset \<Rightarrow> muxed_account \<Rightarrow> i64 \<Rightarrow> asset \<Rightarrow> effect_record list" where
  "transferEffects E to credited creditAsset src debited debitAsset =
     addMuxed E to EffectAccountCredited (amountDetails E credited creditAsset)
     @ addMuxed E src EffectAccountDebited (amountDetails E debited debitAsset)"

definition addPaymentEffects :: "sdk \<Rightarrow> op_wrapper \<Rightarrow> muxed_account \<Rightarrow> asset \<Rightarrow> i64 \<Rightarrow> effect_record list" where
  "addPaymentEffects E ow destination a amt =
     transferEffects E destination amt a (sourceAccount ow) amt a"

definition addLPTradeEffect :: "sdk \<Rightarrow> op_wrapper \<Rightarrow> hash \<Rightarrow> claim_amounts \<Rightarrow> effect_record list res" where
  "addLPTradeEffect E ow pool ca = unlessErr (getLiquidityPoolDelta ow (Some pool)) (\<lambda>(lp, delta).
     bindR (derefR lp) (\<lambda>lp. mapR (\<lambda>poolDetails.
       addMuxed E (sourceAccount ow) EffectLiquidityPoolTrade
         [(''liquidity_pool'', poolDetails),
          (''sold'', assetAmount E (ca_AssetSold ca) (ca_AmountSold ca)),
          (''bought'', assetAmount E (ca_AssetBought ca) (ca_AmountBought ca))])
       (liquidityPoolDetails E lp)))"

text \<open>
  \<open>SellerId()\<close>, \<open>OfferId()\<close> and the amounts of a claim; \<open>OfferId()\<close> has no value for a pool.
\<close>

fun claimParts :: "sdk \<Rightarrow> claim_atom \<Rightarrow> (account_id \<times> i64 \<times> claim_amounts) res" where
  "claimParts E (ClaimV0 seller offer ca) = Ok (seller, offer, ca)"
| "claimParts E (ClaimOrderBook seller offer ca) = Ok (seller, offer, ca)"
| "claimParts E (ClaimLiquidityPool pool ca) = Panic"
| "claimParts E (ClaimOther n) = claimOther E n"

text \<open>One side of a trade: the counterparty, what this side bought and what it sold.\<close>

definition tradeDetails :: "sdk \<Rightarrow> i64 \<Rightarrow> account_id \<Rightarrow> asset \<Rightarrow> i64 \<Rightarrow> asset \<Rightarrow> i64 \<Rightarrow> details" where
  "tradeDetails E offer counterparty bought boughtAmount sold soldAmount =
     addAssetDetails E (addAssetDetails E
       [(''offer_id'', GInt (sint offer)), (''seller'', GStr (accountAddress E counterparty)),
        (''bought_amount'', GStr (amountString E boughtAmount)),
        (''sold_amount'', GStr (amountString E soldAmount))] bought ''bought_'') sold ''sold_''"

definition orderBookEffects :: "sdk \<Rightarrow> muxed_account \<Rightarrow> account_id \<times> i64 \<times> claim_amounts \<Rightarrow> effect_record list" where
  "orderBookEffects E buyer = (\<lambda>(seller, offer, ca).
     let bd = tradeDetails E offer seller (ca_AssetSold ca) (ca_AmountSold ca) (ca_AssetBought ca) (ca_AmountBought ca);
         sd = tradeDetails E offer (muxAccountId buyer)
                (ca_AssetBought ca) (ca_AmountBought ca) (ca_AssetSold ca) (ca_AmountSold ca)
     in addMuxed E buyer EffectTrade bd @ addUnmuxed E seller EffectTrade sd
        @ addMuxed E buyer EffectOfferUpdated bd @ addUnmuxed E seller EffectOfferUpdated sd
        @ addMuxed E buyer EffectOfferRemoved bd @ addUnmuxed E seller EffectOfferRemoved sd)"

definition claimEffects :: "sdk \<Rightarrow> op_wrapper \<Rightarrow> muxed_account \<Rightarrow> claim_atom \<Rightarrow> effect_record list res" where
  "claimEffects E ow buyer claim = bindR (claimAmounts E claim) (\<lambda>(sold, bought).
     if sold = 0 \<and> bought = 0 then Ok []
     else case claim of ClaimLiquidityPool pool ca \<Rightarrow> addLPTradeEffect E ow pool ca
       | _ \<Rightarrow> mapR (orderBookEffects E buyer) (claimParts E claim))"

definition addTradeEffects :: "sdk \<Rightarrow> op_wrapper \<Rightarrow> muxed_account \<Rightarrow> claim_atom list \<Rightarrow> effect_record list res" where
  "addTradeEffects E ow buyer claims = concatR (claimEffects E ow buyer) claims"

definition addPathPaymentStrictReceiveEffects ::
    "sdk \<Rightarrow> op_wrapper \<Rightarrow> asset \<Rightarrow> muxed_account \<Rightarrow> asset \<Rightarrow> i64 \<Rightarrow> effect_record list res" where
  "addPathPaymentStrictReceiveEffects E ow sendAsset destination destAsset destAmount =
     bindR (operationResult ow) (\<lambda>tr. case tr of
       TrPathPaymentStrictReceive (Some (offers, sendAmount)) \<Rightarrow>
         mapR (\<lambda>trades. transferEffects E destination destAmount destAsset
             (sourceAccount ow) sendAmount sendAsset @ trades)
           (addTradeEffects E ow (sourceAccount ow) offers)
     | _ \<Rightarrow> Panic)"

definition addPathPaymentStrictSendEffects ::
    "sdk \<Rightarrow> op_wrapper \<Rightarrow> asset \<Rightarrow> i64 \<Rightarrow> muxed_account \<Rightarrow> asset \<Rightarrow> effect_record list res" where
  "addPathPaymentStrictSendEffects E ow sendAsset sendAmount destination destAsset =
     bindR (operationResult ow) (\<lambda>tr. case tr of
       TrPathPaymentStrictSend (Some (offers, destAmount)) \<Rightarrow>
         mapR (\<lambda>trades. transferEffects E destination destAmount destAsset
             (sourceAccount ow) sendAmount sendAsset @ trades)
           (addTradeEffects E ow (sourceAccount ow) offers)
     | _ \<Rightarrow> Panic)"

definition addManageSellOfferEffects :: "sdk \<Rightarrow> op_wrapper \<Rightarrow> effect_record list res" where
  "addManageSellOfferEffects E ow = bindR (operationResult ow) (\<lambda>tr. case tr of
     TrManageSellOffer (Some claims) \<Rightarrow> addTradeEffects E ow (sourceAccount ow) claims
   | _ \<Rightarrow> Panic)"

definition addManageBuyOfferEffects :: "sdk \<Rightarrow> op_wrapper \<Rightarrow> effect_record list res" where
  "addManageBuyOfferEffects E ow = bindR (operationResult ow) (\<lambda>tr. case tr of
     TrManageBuyOffer (Some claims) \<Rightarrow> addTradeEffects E ow (sourceAccount ow) claims
   | _ \<Rightarrow> Panic)"

definition addCreatePassiveSellOfferEffects :: "sdk \<Rightarrow> op_wrapper \<Rightarrow> effect_record list res" where
  "addCreatePassiveSellOfferEffects E ow = bindR (operationResult ow) (\<lambda>tr. case tr of
     TrManageSellOffer (Some claims) \<Rightarrow> addTradeEffects E ow (sourceAccount ow) claims
   | TrCreatePassiveSellOffer (Some claims) \<Rightarrow> addTradeEffects E ow (sourceAccount ow) claims
   | _ \<Rightarrow> Panic)"

subsection \<open>Set options\<close>

definition thresholdDetails :: "set_options_op \<Rightarrow> details" where
  "thresholdDetails so =
     (case so_LowThreshold so of None \<Rightarrow> [] | Some t \<Rightarrow> [(''low_threshold'', GInt (uint t))])
     @ (case so_MedThreshold so of None \<Rightarrow> [] | Some t \<Rightarrow> [(''med_threshold'', GInt (uint t))])
     @ (case so_HighThreshold so of None \<Rightarrow> [] | Some t \<Rightarrow> [(''high_threshold'', GInt (uint t))])"

definition authFlagDetails :: "set_options_op \<Rightarrow> details" where
  "authFlagDetails so =
     (let details = (case so_SetFlags so of None \<Rightarrow> [] | Some f \<Rightarrow> setAuthFlagDetails [] f True)
      in case so_ClearFlags so of None \<Rightarrow> details | Some f \<Rightarrow> setAuthFlagDetails details f False)"

text \<open>An effect only when there is something to tell (\<open>if len(details) > 0\<close>).\<close>

definition addNonEmpty :: "sdk \<Rightarrow> muxed_account \<Rightarrow> nat \<Rightarrow> details \<Rightarrow> effect_record list" where
  "addNonEmpty E source effectType details = (if details = [] then [] else addMuxed E source effectType details)"

definition optionEffects :: "sdk \<Rightarrow> muxed_account \<Rightarrow> set_options_op \<Rightarrow> effect_record list" where
  "optionEffects E source so =
     (case so_HomeDomain so of None \<Rightarrow> []
      | Some d \<Rightarrow> addMuxed E source EffectAccountHomeDomainUpdated [(''home_domain'', GStr d)])
     @ addNonEmpty E source EffectAccountThresholdsUpdated (thresholdDetails so)
     @ addNonEmpty E source EffectAccountFlagsUpdated (authFlagDetails so)
     @ (case so_InflationDest so of None \<Rightarrow> []
        | Some d \<Rightarrow> addMuxed E source EffectAccountInflationDestinationUpdated
            [(''inflation_destination'', GStr (accountAddress E d))])"

text \<open>The two passes over the signer summaries: the keys before, then the keys after.\<close>

definition oldSignerEffect ::
    "sdk \<Rightarrow> muxed_account \<Rightarrow> (string, i32) gomap \<Rightarrow> (string, i32) gomap \<Rightarrow> string \<Rightarrow> effect_record list" where
  "oldSignerEffect E source before after addy = (case gmGet after addy of
     None \<Rightarrow> addMuxed E source EffectSignerRemoved [(''public_key'', GStr addy)]
   | Some weight \<Rightarrow> if Some weight \<noteq> gmGet before addy
       then addMuxed E source EffectSignerUpdated
         [(''public_key'', GStr addy), (''weight'', GInt (sint weight))]
       else [])"

definition newSignerEffect ::
    "sdk \<Rightarrow> muxed_account \<Rightarrow> (string, i32) gomap \<Rightarrow> (string, i32) gomap \<Rightarrow> string \<Rightarrow> effect_record list" where
  "newSignerEffect E source before after addy = (if gmGet before addy \<noteq> None then []
     else addMuxed E source EffectSignerCreated
       [(''public_key'', GStr addy), (''weight'', GInt (sint (the (gmGet after addy))))])"

definition signerDiff ::
    "sdk \<Rightarrow> muxed_account \<Rightarrow> (string, i32) gomap \<Rightarrow> (string, i32) gomap \<Rightarrow> effect_record list" where
  "signerDiff E source before after =
     (if sortPairs before = sortPairs after then []  \<comment> \<open>\<open>reflect.DeepEqual\<close>\<close>
      else concat (map (oldSignerEffect E source before after) (sort (map fst before)))
        @ concat (map (newSignerEffect E source before after) (sort (map fst after))))"

definition signerEffects :: "sdk \<Rightarrow> muxed_account \<Rightarrow> change \<Rightarrow> effect_record list res" where
  "signerEffects E source c = (if ch_Type c \<noteq> EAccount then Ok [] else
     case (ch_Pre c, ch_Post c) of
       (Some pre, Some post) \<Rightarrow> bindR (dataAccount (le_Data pre)) (\<lambda>preAcct.
         mapR (\<lambda>postAcct. signerDiff E source (signerSummary E preAcct) (signerSummary E postAcct))
           (dataAccount (le_Data post)))
     | _ \<Rightarrow> Ok [])"

definition addSetOptionsEffects :: "sdk \<Rightarrow> op_wrapper \<Rightarrow> set_options_op \<Rightarrow> effect_record list res" where
  "addSetOptionsEffects E ow so =
     mapR (\<lambda>signers. optionEffects E (sourceAccount ow) so @ signers)
       (unlessErr (operationChanges ow) (concatR (signerEffects E (sourceAccount ow))))"

subsection \<open>Trust lines\<close>

text \<open>\<open>op.Line.Type != trustLine.Asset.Type\<close>\<close>

fun sameLineType :: "change_trust_line \<Rightarrow> tl_asset \<Rightarrow> bool" where
  "sameLineType (CtlAsset AssetNative) TlNative = True"
| "sameLineType (CtlAsset (Asset4 c i)) (Tl4 c' i') = True"
| "sameLineType (CtlAsset (Asset12 c i)) (Tl12 c' i') = True"
| "sameLineType (CtlAsset AssetPoolShare) (TlPoolShare p) = True"
| "sameLineType CtlPoolShare (TlPoolShare p) = True"
| "sameLineType (CtlAsset (AssetOther m)) (TlOther n) = (m = n)"
| "sameLineType line a = False"

text \<open>The effect of a change of a trust line and the entry it describes; none for a change of nothing.\<close>

definition trustlineEffect :: "change \<Rightarrow> (nat \<times> entry_data) option" where
  "trustlineEffect c = (case (ch_Pre c, ch_Post c) of
     (None, Some post) \<Rightarrow> Some (EffectTrustlineCreated, le_Data post)
   | (Some pre, None) \<Rightarrow> Some (EffectTrustlineRemoved, le_Data pre)
   | (Some pre, Some post) \<Rightarrow> Some (EffectTrustlineUpdated, le_Data post)
   | (None, None) \<Rightarrow> None)"

definition trustlineDetails :: "sdk \<Rightarrow> i64 \<Rightarrow> tl_asset \<Rightarrow> details res" where
  "trustlineDetails E limit a = (let details = [(''limit'', GStr (amountString E limit))] in case a of
     TlPoolShare pool \<Rightarrow> Ok (let details = gmPut ''asset_type'' (GStr ''liquidity_pool'') details in
       case pool of None \<Rightarrow> details | Some p \<Rightarrow> gmPut ''liquidity_pool_id'' (GStr (poolIDToString p)) details)
   | _ \<Rightarrow> mapR (\<lambda>a. addAssetDetails E details a []) (trustlineToAsset E a))"

fun changeTrustLoop :: "sdk \<Rightarrow> muxed_account \<Rightarrow> change_trust_line \<Rightarrow> i64 \<Rightarrow> change list \<Rightarrow> effect_record list res" where
  "changeTrustLoop E source line limit [] = Ok []"
| "changeTrustLoop E source line limit (c # cs) =
     (if ch_Type c \<noteq> ETrustline then changeTrustLoop E source line limit cs
      else case trustlineEffect c of None \<Rightarrow> changeTrustLoop E source line limit cs
        | Some (effectType, data) \<Rightarrow> bindR (dataTrustLine data) (\<lambda>tl.
            if \<not> sameLineType line (tl_Asset tl) then changeTrustLoop E source line limit cs
            else mapR (addMuxed E source effectType) (trustlineDetails E limit (tl_Asset tl))))"

definition addChangeTrustEffects :: "sdk \<Rightarrow> op_wrapper \<Rightarrow> change_trust_line \<Rightarrow> i64 \<Rightarrow> effect_record list res" where
  "addChangeTrustEffects E ow line limit =
     unlessErr (operationChanges ow) (changeTrustLoop E (sourceAccount ow) line limit)"

definition addAllowTrustEffects :: "sdk \<Rightarrow> op_wrapper \<Rightarrow> account_id \<Rightarrow> asset_code \<Rightarrow> effect_record list res" where
  "addAllowTrustEffects E ow trustor code =
     mapR (\<lambda>a. addMuxed E (sourceAccount ow) EffectTrustlineFlagsUpdated
        (addAssetDetails E [(''trustor'', GStr (accountAddress E trustor))] a []))
      (allowTrustAsset E code (muxAccountId (sourceAccount ow)))"

definition addSetTrustLineFlagsEffects ::
    "sdk \<Rightarrow> op_wrapper \<Rightarrow> account_id \<Rightarrow> asset \<Rightarrow> u32 \<Rightarrow> u32 \<Rightarrow> effect_record list" where
  "addSetTrustLineFlagsEffects E ow trustor a clearFlags setFlags =
     (let details = addAssetDetails E [(''trustor'', GStr (accountAddress E trustor))] a [];
          details = setTrustLineFlagDetails details setFlags True;
          details = setTrustLineFlagDetails details clearFlags False
      in addMuxed E (sourceAccount ow) EffectTrustlineFlagsUpdated details)"

subsection \<open>Accounts and data\<close>

definition addAccountMergeEffects :: "sdk \<Rightarrow> op_wrapper \<Rightarrow> muxed_account \<Rightarrow> effect_record list res" where
  "addAccountMergeEffects E ow dest = bindR (operationResult ow) (\<lambda>tr. case tr of
     TrAccountMerge (Some balance) \<Rightarrow>
       Ok (addMuxed E (sourceAccount ow) EffectAccountDebited (nativeDetails E balance)
         @ addMuxed E dest EffectAccountCredited (nativeDetails E balance)
         @ addMuxed E (sourceAccount ow) EffectAccountRemoved [])
   | _ \<Rightarrow> Panic)"

definition addInflationEffects :: "sdk \<Rightarrow> op_wrapper \<Rightarrow> effect_record list res" where
  "addInflationEffects E ow = bindR (operationResult ow) (\<lambda>tr. case tr of
     TrInflation (Some payouts) \<Rightarrow>
       Ok (concat (map (\<lambda>(destination, amt). addUnmuxed E destination EffectAccountCredited (nativeDetails E amt)) payouts))
   | _ \<Rightarrow> Panic)"

text \<open>
  The first change of a data entry decides the effect and adds the value; with no such change the effect
  keeps its initial number 0.
\<close>

fun manageDataLoop :: "change list \<Rightarrow> details \<Rightarrow> (nat \<times> details) res" where
  "manageDataLoop [] details = Ok (0, details)"
| "manageDataLoop (c # cs) details =
     (if ch_Type c \<noteq> EData then manageDataLoop cs details
      else bindR (case ch_Post c of None \<Rightarrow> Ok details
            | Some post \<Rightarrow> mapR (\<lambda>d. gmPut ''value'' (GStr (base64Encode (da_Value d))) details) (dataValue (le_Data post)))
          (\<lambda>details. Ok (case (ch_Pre c, ch_Post c) of
              (None, Some post) \<Rightarrow> EffectDataCreated
            | (Some pre, None) \<Rightarrow> EffectDataRemoved
            | (Some pre, Some post) \<Rightarrow> EffectDataUpdated
            | (None, None) \<Rightarrow> 0, details)))"

definition addManageDataEffects :: "sdk \<Rightarrow> op_wrapper \<Rightarrow> string \<Rightarrow> effect_record list res" where
  "addManageDataEffects E ow name = unlessErr (operationChanges ow) (\<lambda>changes.
     mapR (\<lambda>(effectType, details). addMuxed E (sourceAccount ow) effectType details)
       (manageDataLoop changes [(''name'', GStr name)]))"

fun bumpSequenceLoop :: "sdk \<Rightarrow> muxed_account \<Rightarrow> change list \<Rightarrow> effect_record list res" where
  "bumpSequenceLoop E source [] = Ok []"
| "bumpSequenceLoop E source (c # cs) = (if ch_Type c \<noteq> EAccount then bumpSequenceLoop E source cs else
     case (ch_Pre c, ch_Post c) of
       (Some pre, Some post) \<Rightarrow> bindR (dataAccount (le_Data pre)) (\<lambda>preAcct.
         mapR (\<lambda>postAcct. if ac_SeqNum preAcct \<noteq> ac_SeqNum postAcct
             then addMuxed E source EffectSequenceBumped [(''new_seq'', GInt (sint (ac_SeqNum postAcct)))]
             else [])
           (dataAccount (le_Data post)))
     | _ \<Rightarrow> bumpSequenceLoop E source cs)"

definition addBumpSequenceEffects :: "sdk \<Rightarrow> op_wrapper \<Rightarrow> effect_record list res" where
  "addBumpSequenceEffects E ow = unlessErr (operationChanges ow) (bumpSequenceLoop E (sourceAccount ow))"

subsection \<open>Claimable balances\<close>

text \<open>\<open>id, _ := xdr.MarshalHex(id)\<close>: an error leaves the empty string.\<close>

definition marshalHex :: "sdk \<Rightarrow> cb_id \<Rightarrow> string res" where
  "marshalHex E c = ignoreErr [] (marshalHexCbId E c)"

definition balanceDetails :: "sdk \<Rightarrow> string \<Rightarrow> claimable_balance_entry \<Rightarrow> details" where
  "balanceDetails E balanceId cb = [(''balance_id'', GStr balanceId), (''amount'', GStr (amountString E (cb_Amount cb))),
     (''asset'', GStr (assetCanonical E (cb_Asset cb)))]"

definition balanceCreated :: "sdk \<Rightarrow> muxed_account \<Rightarrow> claimable_balance_entry \<Rightarrow> string \<Rightarrow> effect_record list" where
  "balanceCreated E source cb balanceId =
     addMuxed E source EffectClaimableBalanceCreated (balanceDetails E balanceId cb)
     @ concat (map (\<lambda>dest. addUnmuxed E dest EffectClaimableBalanceClaimantCreated (balanceDetails E balanceId cb))
         (cb_Claimants cb))
     @ addMuxed E source EffectAccountDebited (amountDetails E (cb_Amount cb) (cb_Asset cb))"

fun createBalanceLoop :: "sdk \<Rightarrow> muxed_account \<Rightarrow> change list \<Rightarrow> effect_record list res" where
  "createBalanceLoop E source [] = Ok []"
| "createBalanceLoop E source (c # cs) = (if ch_Type c \<noteq> EClaimableBalance then createBalanceLoop E source cs else
     case ch_Post c of None \<Rightarrow> createBalanceLoop E source cs
     | Some post \<Rightarrow> bindR (dataBalance (le_Data post)) (\<lambda>cb.
         mapR (balanceCreated E source cb) (marshalHex E (cb_BalanceId cb))))"

definition addCreateClaimableBalanceEffects :: "sdk \<Rightarrow> op_wrapper \<Rightarrow> effect_record list res" where
  "addCreateClaimableBalanceEffects E ow =
     unlessErr (operationChanges ow) (createBalanceLoop E (sourceAccount ow))"

text \<open>The entry a change removes; none for another change.\<close>

definition removedEntry :: "change \<Rightarrow> ledger_entry option" where
  "removedEntry c = (case ch_Post c of Some e \<Rightarrow> None | None \<Rightarrow> ch_Pre c)"

fun claimBalanceLoop :: "sdk \<Rightarrow> muxed_account \<Rightarrow> string \<Rightarrow> change list \<Rightarrow> effect_record list res" where
  "claimBalanceLoop E source balanceId [] = Ok []"
| "claimBalanceLoop E source balanceId (c # cs) =
     (if ch_Type c \<noteq> EClaimableBalance then claimBalanceLoop E source balanceId cs
      else case removedEntry c of None \<Rightarrow> claimBalanceLoop E source balanceId cs
      | Some pre \<Rightarrow> bindR (dataBalance (le_Data pre)) (\<lambda>cb.
          bindR (marshalHex E (cb_BalanceId cb)) (\<lambda>preId.
            if preId \<noteq> balanceId then claimBalanceLoop E source balanceId cs
            else Ok (addMuxed E source EffectClaimableBalanceClaimed (balanceDetails E balanceId cb)
              @ addMuxed E source EffectAccountCredited (amountDetails E (cb_Amount cb) (cb_Asset cb))))))"

definition addClaimClaimableBalanceEffects :: "sdk \<Rightarrow> op_wrapper \<Rightarrow> cb_id \<Rightarrow> effect_record list res" where
  "addClaimClaimableBalanceEffects E ow opBalance = bindR (marshalHex E opBalance) (\<lambda>balanceId.
     unlessErr (operationChanges ow) (claimBalanceLoop E (sourceAccount ow) balanceId))"

definition addClawbackEffects :: "sdk \<Rightarrow> op_wrapper \<Rightarrow> asset \<Rightarrow> muxed_account \<Rightarrow> i64 \<Rightarrow> effect_record list" where
  "addClawbackEffects E ow a holder amt = transferEffects E (sourceAccount ow) amt a holder amt a"

fun clawbackBalanceLoop :: "sdk \<Rightarrow> muxed_account \<Rightarrow> change list \<Rightarrow> effect_record list res" where
  "clawbackBalanceLoop E source [] = Ok []"
| "clawbackBalanceLoop E source (c # cs) =
     (if ch_Type c \<noteq> EClaimableBalance then clawbackBalanceLoop E source cs
      else case removedEntry c of None \<Rightarrow> clawbackBalanceLoop E source cs
      | Some pre \<Rightarrow> mapR (\<lambda>cb.
          addMuxed E source EffectAccountCredited (amountDetails E (cb_Amount cb) (cb_Asset cb)))
        (dataBalance (le_Data pre)))"

definition addClawbackClaimableBalanceEffects :: "sdk \<Rightarrow> op_wrapper \<Rightarrow> cb_id \<Rightarrow> effect_record list res" where
  "addClawbackClaimableBalanceEffects E ow opBalance = bindR (marshalHex E opBalance) (\<lambda>balanceId.
     mapR (\<lambda>credits. addMuxed E (sourceAccount ow) EffectClaimableBalanceClawedBack [(''balance_id'', GStr balanceId)] @ credits)
       (unlessErr (operationChanges ow) (clawbackBalanceLoop E (sourceAccount ow))))"

subsection \<open>Liquidity pools\<close>

text \<open>The parameters and details of a pool whose pointer and body are dereferenced.\<close>

definition poolParts :: "sdk \<Rightarrow> pool_entry option \<Rightarrow> (pool_params \<times> gval) res" where
  "poolParts E lp = bindR (derefR lp) (\<lambda>lp. case lp_Body lp of PoolOther n \<Rightarrow> Panic
     | PoolConstantProduct cp \<Rightarrow> mapR (Pair cp) (liquidityPoolDetails E lp))"

definition addLiquidityPoolDepositEffects :: "sdk \<Rightarrow> op_wrapper \<Rightarrow> hash \<Rightarrow> effect_record list res" where
  "addLiquidityPoolDepositEffects E ow pool =
     unlessErr (getLiquidityPoolDelta ow (Some pool)) (\<lambda>(lp, delta).
       mapR (\<lambda>(cp, poolDetails). addMuxed E (sourceAccount ow) EffectLiquidityPoolDeposited
         [(''liquidity_pool'', poolDetails),
          (''reserves_deposited'', GArr [assetAmount E (pp_AssetA cp) (ld_ReserveA delta),
                                         assetAmount E (pp_AssetB cp) (ld_ReserveB delta)]),
          (''shares_received'', GStr (amountString E (ld_TotalPoolShares delta)))])
       (poolParts E lp))"

definition addLiquidityPoolWithdrawEffects :: "sdk \<Rightarrow> op_wrapper \<Rightarrow> hash \<Rightarrow> effect_record list res" where
  "addLiquidityPoolWithdrawEffects E ow pool =
     unlessErr (getLiquidityPoolDelta ow (Some pool)) (\<lambda>(lp, delta).
       mapR (\<lambda>(cp, poolDetails). addMuxed E (sourceAccount ow) EffectLiquidityPoolWithdrew
         [(''liquidity_pool'', poolDetails),
          (''reserves_received'', GArr [assetAmount E (pp_AssetA cp) (- ld_ReserveA delta),
                                        assetAmount E (pp_AssetB cp) (- ld_ReserveB delta)]),
          (''shares_redeemed'', GStr (amountString E (- ld_TotalPoolShares delta)))])
       (poolParts E lp))"

subsection \<open>Contracts\<close>

text \<open>A party of a Stellar asset event: an account of its own, or a contract, told of the source account.\<close>

definition partyEffect ::
    "sdk \<Rightarrow> op_wrapper \<Rightarrow> string \<Rightarrow> nat \<Rightarrow> nat \<Rightarrow> details \<Rightarrow> effect_record list" where
  "partyEffect E ow party accountEffect contractEffect details =
     (if validEd25519 E party then addRecord party accountEffect details
      else addMuxed E (sourceAccount ow) contractEffect (gmPut ''contract'' (GStr party) details))"

definition sacDetails :: "sdk \<Rightarrow> asset \<Rightarrow> string \<Rightarrow> i64 \<times> u64 \<Rightarrow> details" where
  "sacDetails E a name amt = gmPut ''amount'' (GStr (amountString128 E amt))
     (gmPut ''contract_event_type'' (GStr name) (addAssetDetails E [] a []))"

definition sacEffects :: "sdk \<Rightarrow> op_wrapper \<Rightarrow> sac_event \<Rightarrow> effect_record list" where
  "sacEffects E ow evt = (case sv_Kind evt of
     SacTransfer sender receiver amt \<Rightarrow>
       partyEffect E ow sender EffectAccountDebited EffectContractDebited (sacDetails E (sv_Asset evt) ''transfer'' amt)
       @ partyEffect E ow receiver EffectAccountCredited EffectContractCredited (sacDetails E (sv_Asset evt) ''transfer'' amt)
   | SacMint receiver amt \<Rightarrow>
       partyEffect E ow receiver EffectAccountCredited EffectContractCredited (sacDetails E (sv_Asset evt) ''mint'' amt)
   | SacClawback sender amt \<Rightarrow>
       partyEffect E ow sender EffectAccountDebited EffectContractDebited (sacDetails E (sv_Asset evt) ''clawback'' amt)
   | SacBurn sender amt \<Rightarrow>
       partyEffect E ow sender EffectAccountDebited EffectContractDebited (sacDetails E (sv_Asset evt) ''burn'' amt)
   | SacOther \<Rightarrow> [])"

definition addInvokeHostFunctionEffects :: "sdk \<Rightarrow> op_wrapper \<Rightarrow> effect_record list res" where
  "addInvokeHostFunctionEffects E ow = (if ow_Network ow = [] then Ok [] else
     unlessErr (tx_ContractEvents (ow_Tx ow)) (concatR (\<lambda>event.
       unlessErr (sacEvent E event (ow_Network ow)) (\<lambda>evt. Ok (sacEffects E ow evt)))))"

text \<open>The keys of the TTL entries written, in base64; one that does not marshal is left out.\<close>

definition ttlEntry :: "sdk \<Rightarrow> change \<Rightarrow> string list res" where
  "ttlEntry E c = (case ch_Post c of None \<Rightarrow> Ok []
   | Some post \<Rightarrow> (case le_Data post of
       DTtl v \<Rightarrow> unlessErr (ttlKeyBase64 E (tt_KeyHash v)) (\<lambda>b64. Ok [b64])
     | _ \<Rightarrow> Ok []))"

definition addExtendFootprintTtlEffects :: "sdk \<Rightarrow> op_wrapper \<Rightarrow> u32 \<Rightarrow> effect_record list res" where
  "addExtendFootprintTtlEffects E ow extendTo = unlessErr (operationChanges ow) (\<lambda>changes.
     mapR (\<lambda>entries. addMuxed E (sourceAccount ow) EffectExtendFootprintTtl
         [(''entries'', GArr (map GStr entries)), (''extend_to'', GInt (uint extendTo))])
       (concatR (ttlEntry E) changes))"

definition addRestoreFootprintEffects :: "sdk \<Rightarrow> op_wrapper \<Rightarrow> effect_record list res" where
  "addRestoreFootprintEffects E ow = unlessErr (operationChanges ow) (\<lambda>changes.
     mapR (\<lambda>entries. addMuxed E (sourceAccount ow) EffectRestoreFootprint [(''entries'', GArr (map GStr entries))])
       (concatR (ttlEntry E) changes))"

section \<open>Effects of the entry changes of any operation\<close>

fun sponsoringEffectsTable :: "entry_type \<Rightarrow> (nat \<times> nat \<times> nat) option" where
  "sponsoringEffectsTable EAccount = Some (EffectAccountSponsorshipCreated,
     EffectAccountSponsorshipUpdated, EffectAccountSponsorshipRemoved)"
| "sponsoringEffectsTable ETrustline = Some (EffectTrustlineSponsorshipCreated,
     EffectTrustlineSponsorshipUpdated, EffectTrustlineSponsorshipRemoved)"
| "sponsoringEffectsTable EData = Some (EffectDataSponsorshipCreated,
     EffectDataSponsorshipUpdated, EffectDataSponsorshipRemoved)"
| "sponsoringEffectsTable EClaimableBalance = Some (EffectClaimableBalanceSponsorshipCreated,
     EffectClaimableBalanceSponsorshipUpdated, EffectClaimableBalanceSponsorshipRemoved)"
| "sponsoringEffectsTable t = None"

definition sponsorOf :: "ledger_entry option \<Rightarrow> account_id option" where
  "sponsorOf side = Option.bind side le_Sponsor"

text \<open>The kind of sponsorship effect a change makes, with its details; none when the sponsor stays.\<close>

definition sponsorshipChange :: "sdk \<Rightarrow> nat \<times> nat \<times> nat \<Rightarrow> change \<Rightarrow> (nat \<times> details) option" where
  "sponsorshipChange E = (\<lambda>(created, updated, removed) c.
     case (sponsorOf (ch_Pre c), sponsorOf (ch_Post c)) of
       (None, Some post) \<Rightarrow> Some (created, [(''sponsor'', GStr (accountAddress E post))])
     | (Some pre, None) \<Rightarrow> Some (removed, [(''former_sponsor'', GStr (accountAddress E pre))])
     | (Some pre, Some post) \<Rightarrow>
         if accountAddress E pre = accountAddress E post then None
         else Some (updated, [(''new_sponsor'', GStr (accountAddress E post)),
                              (''former_sponsor'', GStr (accountAddress E pre))])
     | (None, None) \<Rightarrow> None)"

text \<open>The record of a sponsorship effect, addressed by the type of the change.\<close>

definition sponsorshipRecord :: "sdk \<Rightarrow> op_wrapper \<Rightarrow> entry_type \<Rightarrow> entry_data \<Rightarrow> nat \<Rightarrow> details \<Rightarrow> effect_record list res" where
  "sponsorshipRecord E ow entryType data effectType details = (case entryType of
     EAccount \<Rightarrow> mapR (\<lambda>a. addUnmuxed E (ac_AccountId a) effectType details) (dataAccount data)
   | ETrustline \<Rightarrow> mapR (\<lambda>tl. addUnmuxed E (tl_AccountId tl) effectType details) (dataTrustLine data)
   | EData \<Rightarrow> mapR (\<lambda>d. addMuxed E (sourceAccount ow) effectType
       (gmPut ''data_name'' (GStr (da_Name d)) details)) (dataValue data)
   | EClaimableBalance \<Rightarrow> bindR (dataBalance data) (\<lambda>cb. mapR (\<lambda>balanceId.
       addMuxed E (sourceAccount ow) effectType (gmPut ''balance_id'' (GStr balanceId) details))
       (marshalHex E (cb_BalanceId cb)))
   | _ \<Rightarrow> Ok [])"

definition addSponsorshipEffects :: "sdk \<Rightarrow> op_wrapper \<Rightarrow> change \<Rightarrow> effect_record list res" where
  "addSponsorshipEffects E ow c = (case sponsoringEffectsTable (ch_Type c) of None \<Rightarrow> Ok []
   | Some entry \<Rightarrow> (case sponsorshipChange E entry c of None \<Rightarrow> Ok []
     | Some (effectType, details) \<Rightarrow>
         bindR (derefR (case ch_Post c of Some post \<Rightarrow> Some post | None \<Rightarrow> ch_Pre c)) (\<lambda>e.
           sponsorshipRecord E ow (ch_Type c) (le_Data e) effectType details)))"

definition addLPLifecycleEffects :: "sdk \<Rightarrow> op_wrapper \<Rightarrow> change \<Rightarrow> effect_record list res" where
  "addLPLifecycleEffects E ow c = (if ch_Type c \<noteq> ELiquidityPool then Ok [] else
     case (ch_Pre c, ch_Post c) of
       (None, Some post) \<Rightarrow> bindR (dataPool (le_Data post)) (\<lambda>lp.
         mapR (\<lambda>poolDetails. addMuxed E (sourceAccount ow) EffectLiquidityPoolCreated [(''liquidity_pool'', poolDetails)])
           (liquidityPoolDetails E lp))
     | (Some pre, None) \<Rightarrow> mapR (\<lambda>lp. addMuxed E (sourceAccount ow) EffectLiquidityPoolRemoved
           [(''liquidity_pool_id'', GStr (poolIDToString (lp_Id lp)))]) (dataPool (le_Data pre))
     | _ \<Rightarrow> Ok [])"

section \<open>The extractor\<close>

fun opEffects :: "sdk \<Rightarrow> op_wrapper \<Rightarrow> op_body \<Rightarrow> effect_record list res" where
  "opEffects E ow (OpCreateAccount destination startingBalance) =
     Ok (addAccountCreatedEffects E ow destination startingBalance)"
| "opEffects E ow (OpPayment destination a amt) = Ok (addPaymentEffects E ow destination a amt)"
| "opEffects E ow (OpPathPaymentStrictReceive sendAsset sendMax destination destAsset destAmount) =
     addPathPaymentStrictReceiveEffects E ow sendAsset destination destAsset destAmount"
| "opEffects E ow (OpPathPaymentStrictSend sendAsset sendAmount destination destAsset destMin) =
     addPathPaymentStrictSendEffects E ow sendAsset sendAmount destination destAsset"
| "opEffects E ow (OpManageSellOffer selling buying amt pr offer) = addManageSellOfferEffects E ow"
| "opEffects E ow (OpManageBuyOffer selling buying amt pr offer) = addManageBuyOfferEffects E ow"
| "opEffects E ow (OpCreatePassiveSellOffer selling buying amt pr) = addCreatePassiveSellOfferEffects E ow"
| "opEffects E ow (OpSetOptions so) = addSetOptionsEffects E ow so"
| "opEffects E ow (OpChangeTrust line limit) = addChangeTrustEffects E ow line limit"
| "opEffects E ow (OpAllowTrust trustor code authorize) = addAllowTrustEffects E ow trustor code"
| "opEffects E ow (OpAccountMerge dest) = addAccountMergeEffects E ow dest"
| "opEffects E ow OpInflation = addInflationEffects E ow"
| "opEffects E ow (OpManageData name value) = addManageDataEffects E ow name"
| "opEffects E ow (OpBumpSequence target) = addBumpSequenceEffects E ow"
| "opEffects E ow (OpCreateClaimableBalance a amt claimants) = addCreateClaimableBalanceEffects E ow"
| "opEffects E ow (OpClaimClaimableBalance balance) = addClaimClaimableBalanceEffects E ow balance"
| "opEffects E ow (OpClawback a holder amt) = Ok (addClawbackEffects E ow a holder amt)"
| "opEffects E ow (OpClawbackClaimableBalance balance) = addClawbackClaimableBalanceEffects E ow balance"
| "opEffects E ow (OpSetTrustLineFlags trustor a clearFlags setFlags) =
     Ok (addSetTrustLineFlagsEffects E ow trustor a clearFlags setFlags)"
| "opEffects E ow (OpLiquidityPoolDeposit pool maxA maxB) = addLiquidityPoolDepositEffects E ow pool"
| "opEffects E ow (OpLiquidityPoolWithdraw pool amt) = addLiquidityPoolWithdrawEffects E ow pool"
| "opEffects E ow (OpInvokeHostFunction invoke) = addInvokeHostFunctionEffects E ow"
| "opEffects E ow (OpExtendFootprintTtl extendTo) = addExtendFootprintTtlEffects E ow extendTo"
| "opEffects E ow OpRestoreFootprint = addRestoreFootprintEffects E ow"
| "opEffects E ow (OpBeginSponsoringFutureReserves sponsored) = Ok []"
| "opEffects E ow OpEndSponsoringFutureReserves = Ok []"
| "opEffects E ow OpRevokeSponsorship = Ok []"
| "opEffects E ow (OpOther n) = Ok []"

definition changeEffects :: "sdk \<Rightarrow> op_wrapper \<Rightarrow> change \<Rightarrow> effect_record list res" where
  "changeEffects E ow c = bindR (addSponsorshipEffects E ow c) (\<lambda>sponsorship.
     mapR (append sponsorship) (addLPLifecycleEffects E ow c))"

definition opRecords :: "sdk \<Rightarrow> op_wrapper \<Rightarrow> effect_record list res" where
  "opRecords E ow = bindR (opEffects E ow (op_Body (ow_Op ow))) (\<lambda>own.
     mapR (append own) (unlessErr (operationChanges ow) (concatR (changeEffects E ow))))"

record effect_data =
  ed_LedgerSequence :: u32
  ed_TransactionHash :: string
  ed_OperationIndex :: nat
  ed_EffectIndex :: nat
  ed_EffectType :: nat
  ed_EffectTypeString :: string
  ed_AccountID :: "string option"
  ed_Amount :: "string option"
  ed_AssetCode :: "string option"
  ed_AssetIssuer :: "string option"
  ed_AssetType :: "string option"
  ed_TrustlineLimit :: "string option"
  ed_AuthorizeFlag :: "bool option"
  ed_ClawbackFlag :: "bool option"
  ed_SignerAccount :: "string option"
  ed_SignerWeight :: "int option"
  ed_OfferID :: "i64 option"
  ed_SellerAccount :: "string option"
  ed_OperationID :: "i64 option"
  ed_DetailsJSON :: "string option"
  ed_CreatedAt :: gotime
  ed_LedgerRange :: u32
  ed_EraID :: "string option"

text \<open>A detail that is also a column, printed with \<open>%v\<close>.\<close>

definition detailColumn :: "details \<Rightarrow> string \<Rightarrow> string option" where
  "detailColumn details k = map_option fmtV (gmGet details k)"

definition effectRow ::
    "ledger_input \<Rightarrow> ledger_tx \<Rightarrow> nat \<Rightarrow> i64 \<Rightarrow> nat \<times> effect_record \<Rightarrow> effect_data" where
  "effectRow input tx opi operationID = (\<lambda>(idx, rec).
     \<lparr>ed_LedgerSequence = in_Sequence input, ed_TransactionHash = hexEncode (tx_Hash tx),
      ed_OperationIndex = opi, ed_EffectIndex = idx, ed_EffectType = er_EffectType rec,
      ed_EffectTypeString = effectTypeString (er_EffectType rec), ed_AccountID = Some (er_Address rec),
      ed_Amount = detailColumn (er_Details rec) ''amount'',
      ed_AssetCode = detailColumn (er_Details rec) ''asset_code'',
      ed_AssetIssuer = detailColumn (er_Details rec) ''asset_issuer'',
      ed_AssetType = detailColumn (er_Details rec) ''asset_type'',
      ed_TrustlineLimit = None, ed_AuthorizeFlag = None, ed_ClawbackFlag = None,
      ed_SignerAccount = None, ed_SignerWeight = None, ed_OfferID = None, ed_SellerAccount = None,
      ed_OperationID = Some operationID,
      ed_DetailsJSON = (if er_Details rec = [] then None else Some (jsonMarshal (GMap (er_Details rec)))),
      ed_CreatedAt = in_ClosedAt input, ed_LedgerRange = in_LedgerRange input, ed_EraID = in_EraID input\<rparr>)"

definition wrapOperation :: "ledger_input \<Rightarrow> ledger_tx \<Rightarrow> nat \<times> operation \<Rightarrow> op_wrapper" where
  "wrapOperation input tx = (\<lambda>(opi, opn). \<lparr>ow_Index = opi, ow_Tx = tx, ow_Op = opn,
     ow_LedgerSeq = in_Sequence input, ow_Network = in_NetworkPassphrase input, ow_ClosedAt = in_ClosedAt input\<rparr>)"

definition operationEffects :: "sdk \<Rightarrow> ledger_input \<Rightarrow> ledger_tx \<Rightarrow> nat \<times> operation \<Rightarrow> effect_data list res" where
  "operationEffects E input tx iop = bindR (opRecords E (wrapOperation input tx iop)) (\<lambda>records.
     mapR (\<lambda>operationID. map (effectRow input tx (fst iop) operationID) (enumerate 0 records))
       (toidInt64 E (in_Sequence input) (tx_Index tx) (of_nat (fst iop + 1))))"

definition txEffects :: "sdk \<Rightarrow> ledger_input \<Rightarrow> ledger_tx \<Rightarrow> effect_data list res" where
  "txEffects E input tx = (if \<not> tx_Successful tx then Ok []
     else concatR (operationEffects E input tx) (enumerate 0 (tx_Operations tx)))"

definition extractEffects :: "sdk \<Rightarrow> ledger_input \<Rightarrow> effect_data list res" where
  "extractEffects E input =
     bindR (wrapErr ''failed to read transactions'' (in_Transactions input)) (concatR (txEffects E input))"

end
