(* ===== verification/EffectFacts.thy ===== *)
theory EffectFacts
  imports Effects
begin

text \<open>
  What the effects of \<open>effects.go\<close> guarantee: well-formed records and rows, signer effects as a difference
  that can be replayed, trades that mirror each other, and exact pool amounts.
\<close>

section \<open>Every record is well formed\<close>

text \<open>
  The effect types the generators use.  Of the numbers the table names, offer creation (30), the signer
  sponsorships (72, 73, 74) and pool revocation (95) are not among them.
\<close>

definition emittedTypes :: "nat set" where
  "emittedTypes = fst ` set effectTypeNames - {EffectOfferCreated, EffectSignerSponsorshipCreated,
     EffectSignerSponsorshipUpdated, EffectSignerSponsorshipRemoved, EffectLiquidityPoolRevoked}"

definition recordOk :: "effect_record \<Rightarrow> bool" where
  "recordOk rec \<longleftrightarrow> er_EffectType rec \<in> emittedTypes \<and> gWf (GMap (er_Details rec))"

definition recordsOk :: "effect_record list \<Rightarrow> bool" where
  "recordsOk recs \<longleftrightarrow> (\<forall>rec \<in> set recs. recordOk rec)"

lemma emitted:
  "{EffectAccountCreated, EffectAccountRemoved, EffectAccountCredited, EffectAccountDebited,
    EffectAccountThresholdsUpdated, EffectAccountHomeDomainUpdated, EffectAccountFlagsUpdated,
    EffectAccountInflationDestinationUpdated, EffectSignerCreated, EffectSignerRemoved, EffectSignerUpdated,
    EffectTrustlineCreated, EffectTrustlineRemoved, EffectTrustlineUpdated, EffectTrustlineFlagsUpdated,
    EffectOfferRemoved, EffectOfferUpdated, EffectTrade, EffectDataCreated, EffectDataRemoved, EffectDataUpdated,
    EffectSequenceBumped, EffectClaimableBalanceCreated, EffectClaimableBalanceClaimantCreated,
    EffectClaimableBalanceClaimed, EffectAccountSponsorshipCreated, EffectAccountSponsorshipUpdated,
    EffectAccountSponsorshipRemoved, EffectTrustlineSponsorshipCreated, EffectTrustlineSponsorshipUpdated,
    EffectTrustlineSponsorshipRemoved, EffectDataSponsorshipCreated, EffectDataSponsorshipUpdated,
    EffectDataSponsorshipRemoved, EffectClaimableBalanceSponsorshipCreated,
    EffectClaimableBalanceSponsorshipUpdated, EffectClaimableBalanceSponsorshipRemoved,
    EffectClaimableBalanceClawedBack, EffectLiquidityPoolDeposited, EffectLiquidityPoolWithdrew,
    EffectLiquidityPoolTrade, EffectLiquidityPoolCreated, EffectLiquidityPoolRemoved, EffectContractCredited,
    EffectContractDebited, EffectExtendFootprintTtl, EffectRestoreFootprint} = emittedTypes"
  by (simp add: emittedTypes_def effectTypeNames_def insert_Diff_if)

lemmas emittedI = emitted [THEN equalityD1, THEN subsetD]

lemma recordsOk_simps [simp]:
  "recordsOk []" "recordsOk (rs @ rs') \<longleftrightarrow> recordsOk rs \<and> recordsOk rs'"
  "recordsOk (addRecord a t d) \<longleftrightarrow> t \<in> emittedTypes \<and> gWf (GMap d)"
  "recordsOk (addMuxed E m t d) \<longleftrightarrow> t \<in> emittedTypes \<and> gWf (GMap d)"
  "recordsOk (addUnmuxed E i t d) \<longleftrightarrow> t \<in> emittedTypes \<and> gWf (GMap d)"
  "recordsOk (concat rss) \<longleftrightarrow> (\<forall>rs \<in> set rss. recordsOk rs)"
  by (auto simp: recordsOk_def recordOk_def addRecord_def addMuxed_def addUnmuxed_def)

lemma recordsOk_concatR: "(\<And>x. x \<in> set xs \<Longrightarrow> okAll recordsOk (f x)) \<Longrightarrow> okAll recordsOk (concatR f xs)"
  unfolding recordsOk_def [abs_def] by (rule okAll_concatR)

lemma okAll_unlessErr [simp]: "okAll P (unlessErr r f) \<longleftrightarrow> okAll (\<lambda>a. okAll P (f a)) r \<and> ((\<exists>e. r = Err e) \<longrightarrow> P [])"
  by (cases r) auto

text \<open>The details every generator builds bind a key once.\<close>

named_theorems wf_details

lemma wf_single [wf_details]: "gWf (GMap [(k, v)]) \<longleftrightarrow> gWf v" "gWf (GMap [])"
  by (simp_all add: gmInv_def)

lemma wf_addAsset [wf_details]: "gWf (GMap d) \<Longrightarrow> gWf (GMap (addAssetDetails E d a p))"
  by (auto simp: addAssetDetails_def Let_def simp del: gWf.simps(2) split: prod.splits
      intro!: gWf_GMap_put)

lemma wf_setFlag [wf_details]: "gWf (GMap d) \<Longrightarrow> gWf (GMap (setFlag f m n b d))"
  by (auto simp: setFlag_def simp del: gWf.simps(2) intro!: gWf_GMap_put)

lemma wf_flags [wf_details]:
  "gWf (GMap d) \<Longrightarrow> gWf (GMap (setAuthFlagDetails d f b))"
  "gWf (GMap d) \<Longrightarrow> gWf (GMap (setTrustLineFlagDetails d f b))"
  unfolding setAuthFlagDetails_def setTrustLineFlagDetails_def by (intro wf_setFlag; assumption)+

lemma wf_amounts [wf_details]:
  "gWf (GMap (amountDetails E amt a))" "gWf (GMap (nativeDetails E amt))" "gWf (assetAmount E a amt)"
  "gWf (GMap (balanceDetails E b cb))"
  unfolding amountDetails_def
  by (intro wf_addAsset, simp_all add: wf_details nativeDetails_def assetAmount_def balanceDetails_def gmInv_def)

lemma wf_trade [wf_details]: "gWf (GMap (tradeDetails E offer p b ba s sa))"
  unfolding tradeDetails_def by (intro wf_addAsset) (simp add: gmInv_def)

lemma wf_pool: "liquidityPoolDetails E lp = Ok g \<Longrightarrow> gWf g"
  by (auto simp: liquidityPoolDetails_def gmInv_def assetAmount_def split: pool_body.splits)

lemma wf_setOptions [wf_details]: "gWf (GMap (thresholdDetails so))" "gWf (GMap (authFlagDetails so))"
proof -
  show "gWf (GMap (thresholdDetails so))" by (auto simp: thresholdDetails_def gmInv_def split: option.splits)
  show "gWf (GMap (authFlagDetails so))"
    by (auto simp: authFlagDetails_def Let_def simp del: gWf.simps(2) split: option.splits
        intro!: wf_flags wf_single)
qed

lemma wf_sac [wf_details]: "gWf (GMap (sacDetails E a n amt))"
  unfolding sacDetails_def by (intro gWf_GMap_put wf_addAsset wf_single) simp_all

lemma ok_orderBook: "recordsOk (orderBookEffects E buyer x)"
  by (cases x) (simp add: orderBookEffects_def Let_def wf_details emittedI del: gWf.simps(2))

lemma ok_transfer [simp]: "recordsOk (transferEffects E to c ca src d da)"
  by (simp add: transferEffects_def wf_details emittedI del: gWf.simps(2))

lemma ok_lpTrade: "okAll recordsOk (addLPTradeEffect E ow pool ca)"
  by (auto simp: addLPTradeEffect_def gmInv_def emittedI assetAmount_def split: prod.splits
      intro!: okAllI dest: wf_pool)

lemma ok_trades [simp]: "okAll recordsOk (addTradeEffects E ow buyer claims)"
  unfolding addTradeEffects_def
proof (rule recordsOk_concatR)
  fix claim
  show "okAll recordsOk (claimEffects E ow buyer claim)"
    by (auto simp: claimEffects_def ok_orderBook ok_lpTrade intro!: okAllI split: prod.splits claim_atom.splits)
qed

lemma ok_results:
  "okAll recordsOk (addPathPaymentStrictReceiveEffects E ow sa dest da amt)"
  "okAll recordsOk (addPathPaymentStrictSendEffects E ow sa amt dest da)"
  "okAll recordsOk (addManageSellOfferEffects E ow)" "okAll recordsOk (addManageBuyOfferEffects E ow)"
  "okAll recordsOk (addCreatePassiveSellOfferEffects E ow)" "okAll recordsOk (addAccountMergeEffects E ow dest)"
  "okAll recordsOk (addInflationEffects E ow)"
  unfolding addPathPaymentStrictReceiveEffects_def addPathPaymentStrictSendEffects_def
    addManageSellOfferEffects_def addManageBuyOfferEffects_def addCreatePassiveSellOfferEffects_def
    addAccountMergeEffects_def addInflationEffects_def okAll_simps
  by (rule okAllI, simp add: wf_details emittedI del: gWf.simps(2) split: op_result_tr.split option.split prod.split)+

lemma ok_signers: "okAll recordsOk (signerEffects E src c)"
  by (auto simp: signerEffects_def signerDiff_def oldSignerEffect_def newSignerEffect_def gmInv_def emittedI
      intro!: okAllI split: option.splits)

lemma ok_setOptions: "okAll recordsOk (addSetOptionsEffects E ow so)"
proof -
  have "recordsOk (optionEffects E src so)" for src
    by (auto simp: optionEffects_def addNonEmpty_def wf_details emittedI simp del: gWf.simps(2) split: option.splits)
  then show ?thesis
    by (simp add: addSetOptionsEffects_def okAllI recordsOk_concatR ok_signers)
qed

lemma ok_changeTrust: "okAll recordsOk (addChangeTrustEffects E ow line limit)"
proof -
  have "okAll recordsOk (changeTrustLoop E src line limit cs)" for src cs
  proof (induction cs)
    case (Cons c cs)
    have "okAll (\<lambda>d. gWf (GMap d)) (trustlineDetails E limit a)" for a
      by (cases a; auto simp: trustlineDetails_def Let_def simp del: gWf.simps(2) split: option.splits
          intro!: okAllI gWf_GMap_put wf_addAsset) (simp_all add: gmInv_def)
    moreover have "fst x \<in> emittedTypes" if "trustlineEffect c = Some x" for x
      using that by (auto simp: trustlineEffect_def emittedI split: option.splits)
    ultimately show ?case using Cons.IH
      by (auto simp del: gWf.simps(2) intro!: okAllI split: option.splits) (metis okAll_def fst_conv)+
  qed simp
  then show ?thesis by (simp add: addChangeTrustEffects_def okAllI)
qed

lemma ok_flags:
  "okAll recordsOk (addAllowTrustEffects E ow trustor code)"
  "recordsOk (addSetTrustLineFlagsEffects E ow trustor a cf sf)"
proof -
  show "okAll recordsOk (addAllowTrustEffects E ow trustor code)"
    by (auto simp: addAllowTrustEffects_def emittedI simp del: gWf.simps(2) intro!: okAllI wf_addAsset) (simp add: gmInv_def)
  show "recordsOk (addSetTrustLineFlagsEffects E ow trustor a cf sf)"
    by (auto simp: addSetTrustLineFlagsEffects_def Let_def emittedI simp del: gWf.simps(2)
        intro!: wf_flags wf_addAsset) (simp add: gmInv_def)
qed

lemma ok_bumpSequence: "okAll recordsOk (addBumpSequenceEffects E ow)"
proof -
  have "okAll recordsOk (bumpSequenceLoop E src cs)" for src cs
    by (induction cs) (auto simp: gmInv_def emittedI intro!: okAllI split: option.splits)
  then show ?thesis by (simp add: addBumpSequenceEffects_def okAllI)
qed

lemma ok_createBalance: "okAll recordsOk (addCreateClaimableBalanceEffects E ow)"
proof -
  have "okAll recordsOk (createBalanceLoop E src cs)" for src cs
    by (induction cs) (auto simp: balanceCreated_def wf_details emittedI simp del: gWf.simps(2)
        intro!: okAllI split: option.splits)
  then show ?thesis by (simp add: addCreateClaimableBalanceEffects_def okAllI)
qed

lemma ok_claimBalance: "okAll recordsOk (addClaimClaimableBalanceEffects E ow b)"
proof -
  have "okAll recordsOk (claimBalanceLoop E src i cs)" for src cs i
    by (induction cs) (auto simp: wf_details emittedI simp del: gWf.simps(2) intro!: okAllI split: option.splits)
  then show ?thesis by (simp add: addClaimClaimableBalanceEffects_def okAllI)
qed

lemma ok_clawbackBalance: "okAll recordsOk (addClawbackClaimableBalanceEffects E ow b)"
proof -
  have "okAll recordsOk (clawbackBalanceLoop E src cs)" for src cs
    by (induction cs) (auto simp: wf_details emittedI simp del: gWf.simps(2) intro!: okAllI split: option.splits)
  then show ?thesis
    by (simp add: addClawbackClaimableBalanceEffects_def okAllI gmInv_def emittedI)
qed

lemma ok_manageData: "okAll recordsOk (addManageDataEffects E ow name)"
proof -
  have "okAll (\<lambda>(t, d). t \<in> emittedTypes \<and> gWf (GMap d)) (manageDataLoop cs d)" if "gWf (GMap d)" for cs d
    using that
    by (induction cs) (auto simp: emittedI simp del: gWf.simps(2) intro!: okAllI gWf_GMap_put split: option.splits)
  then have "okAll (\<lambda>(t, d). t \<in> emittedTypes \<and> gWf (GMap d)) (manageDataLoop cs [(''name'', GStr name)])" for cs
    by (simp add: wf_single del: gWf.simps(2))
  then have "okAll (\<lambda>a. recordsOk (case a of (t, d) \<Rightarrow> addMuxed E src t d)) (manageDataLoop cs [(''name'', GStr name)])" for cs src
    by (auto simp: okAll_def simp del: gWf.simps(2))
  then show ?thesis by (simp add: addManageDataEffects_def okAllI)
qed

lemma ok_pools:
  "okAll recordsOk (addLiquidityPoolDepositEffects E ow pool)"
  "okAll recordsOk (addLiquidityPoolWithdrawEffects E ow pool)"
proof -
  have parts: "gWf g" if "poolParts E lp = Ok (cp, g)" for lp cp g
    using that by (cases lp) (auto simp: poolParts_def mapR_Ok_iff intro: wf_pool split: pool_body.splits)
  then show "okAll recordsOk (addLiquidityPoolDepositEffects E ow pool)"
    by (auto simp: addLiquidityPoolDepositEffects_def gmInv_def emittedI assetAmount_def
        intro!: okAllI split: prod.splits)
  from parts show "okAll recordsOk (addLiquidityPoolWithdrawEffects E ow pool)"
    by (auto simp: addLiquidityPoolWithdrawEffects_def gmInv_def emittedI assetAmount_def
        intro!: okAllI split: prod.splits)
qed

lemma ok_sac: "recordsOk (sacEffects E ow evt)"
proof -
  have "recordsOk (partyEffect E ow p at ct d)" if "gWf (GMap d)" "at \<in> emittedTypes" "ct \<in> emittedTypes" for p at ct d
    using that gWf_GMap_put by (simp add: partyEffect_def del: gWf.simps(2))
  then show ?thesis
    by (simp add: sacEffects_def wf_details emittedI del: gWf.simps(2) split: sac_kind.split)
qed

lemma ok_contracts:
  "okAll recordsOk (addInvokeHostFunctionEffects E ow)"
  "okAll recordsOk (addExtendFootprintTtlEffects E ow to)"
  "okAll recordsOk (addRestoreFootprintEffects E ow)"
  by (simp_all add: addInvokeHostFunctionEffects_def ok_sac addExtendFootprintTtlEffects_def
      addRestoreFootprintEffects_def gmInv_def emittedI okAllI recordsOk_concatR)

lemma ok_accountCreated: "recordsOk (addAccountCreatedEffects E ow d b)"
  by (simp add: addAccountCreatedEffects_def gmInv_def emittedI)

lemma ok_opEffects: "okAll recordsOk (opEffects E ow body)"
  by (cases body)
     (simp_all add: ok_results ok_setOptions ok_changeTrust ok_flags ok_bumpSequence ok_createBalance ok_claimBalance
       ok_clawbackBalance ok_manageData ok_pools ok_contracts ok_accountCreated addPaymentEffects_def addClawbackEffects_def)

lemma ok_sponsorship: "okAll recordsOk (addSponsorshipEffects E ow c)"
proof -
  have change: "fst r \<in> {cr, up, rm} \<and> gWf (GMap (snd r))" if "sponsorshipChange E (cr, up, rm) c = Some r" for cr up rm r
    using that by (auto simp: sponsorshipChange_def gmInv_def split: option.splits if_splits)
  have table: "{cr, up, rm} \<subseteq> emittedTypes" if "sponsoringEffectsTable t = Some (cr, up, rm)" for t cr up rm
    using that by (cases t) (auto simp: emittedI)
  have recs: "okAll recordsOk (sponsorshipRecord E ow t d ty ds)" if "ty \<in> emittedTypes" "gWf (GMap ds)" for t d ty ds
    using that gWf_GMap_put [OF that(2)]
    by (auto simp: sponsorshipRecord_def simp del: gWf.simps(2) intro!: okAllI split: entry_type.splits)
  show ?thesis
  proof (cases "sponsoringEffectsTable (ch_Type c)")
    case (Some entry)
    note tab = this
    obtain cr up rm where entry: "entry = (cr, up, rm)" by (cases entry)
    show ?thesis
    proof (cases "sponsorshipChange E entry c")
      case (Some r)
      with tab table change have "fst r \<in> emittedTypes" "gWf (GMap (snd r))" unfolding entry by blast+
      with tab Some show ?thesis
        by (cases r) (simp add: addSponsorshipEffects_def recs okAllI del: gWf.simps(2))
    qed (simp add: addSponsorshipEffects_def tab)
  qed (simp add: addSponsorshipEffects_def)
qed

lemma ok_lifecycle: "okAll recordsOk (addLPLifecycleEffects E ow c)"
  by (auto simp: addLPLifecycleEffects_def gmInv_def emittedI intro!: okAllI dest: wf_pool split: option.splits)

lemma opRecords_ok: "opRecords E ow = Ok recs \<Longrightarrow> recordsOk recs"
proof -
  have "okAll recordsOk (changeEffects E ow c)" for c
    using ok_sponsorship [of E ow c] ok_lifecycle [of E ow c] by (auto simp: changeEffects_def okAll_def bindR_Ok_iff mapR_Ok_iff)
  then have "okAll recordsOk (unlessErr (operationChanges ow) (concatR (changeEffects E ow)))"
    by (simp add: okAllI recordsOk_concatR)
  with ok_opEffects [of E ow "op_Body (ow_Op ow)"] have "okAll recordsOk (opRecords E ow)"
    by (auto simp: opRecords_def okAll_def bindR_Ok_iff mapR_Ok_iff)
  then show "opRecords E ow = Ok recs \<Longrightarrow> recordsOk recs" by (rule okAllD)
qed

section \<open>The rows of a ledger\<close>

lemma effectRow_fields:
  "ed_TransactionHash (effectRow input tx i k jr) = hexEncode (tx_Hash tx)"
  "ed_OperationIndex (effectRow input tx i k jr) = i" "ed_EffectIndex (effectRow input tx i k jr) = fst jr"
  "ed_OperationID (effectRow input tx i k jr) = Some k"
  "ed_EffectType (effectRow input tx i k jr) = er_EffectType (snd jr)"
  "ed_EffectTypeString (effectRow input tx i k jr) = effectTypeString (er_EffectType (snd jr))"
  by (simp_all add: effectRow_def case_prod_unfold)

text \<open>\<open>effectAt\<close>: the row of record \<open>j\<close> of operation \<open>i\<close> of a transaction.\<close>

definition effectAt :: "sdk \<Rightarrow> ledger_input \<Rightarrow> ledger_tx \<Rightarrow> nat \<Rightarrow> nat \<Rightarrow> effect_data \<Rightarrow> bool" where
  "effectAt E input tx i j r \<longleftrightarrow> tx_Successful tx \<and> i < length (tx_Operations tx)
     \<and> (\<exists>recs k. opRecords E (wrapOperation input tx (i, tx_Operations tx ! i)) = Ok recs \<and> j < length recs
          \<and> toidInt64 E (in_Sequence input) (tx_Index tx) (of_nat (i + 1)) = Ok k
          \<and> r = effectRow input tx i k (j, recs ! j))"

lemma operationEffects_mem:
  assumes "operationEffects E input tx (i, opn) = Ok rs" "tx_Successful tx" "i < length (tx_Operations tx)"
    "opn = tx_Operations tx ! i"
  shows "r \<in> set rs \<longleftrightarrow> (\<exists>j. effectAt E input tx i j r)"
  using assms by (auto simp: operationEffects_def bindR_Ok_iff mapR_Ok_iff effectAt_def image_iff bex_enumerate)

lemma extractEffects_mem:
  assumes "extractEffects E input = Ok rows" "in_Transactions input = Ok txs"
  shows "r \<in> set rows \<longleftrightarrow> (\<exists>tx \<in> set txs. \<exists>i j. effectAt E input tx i j r)"
proof -
  from assms have rows: "concatR (txEffects E input) txs = Ok rows" by (simp add: extractEffects_def)
  have "(\<exists>as. txEffects E input tx = Ok as \<and> r \<in> set as) \<longleftrightarrow> (\<exists>i j. effectAt E input tx i j r)"
    if "tx \<in> set txs" for tx
  proof (cases "tx_Successful tx")
    case True
    from concatR_elem [OF rows that] obtain as where as: "txEffects E input tx = Ok as" by blast
    with True have *: "concatR (operationEffects E input tx) (enumerate 0 (tx_Operations tx)) = Ok as"
      by (simp add: txEffects_def)
    have "r \<in> set as \<longleftrightarrow> (\<exists>i < length (tx_Operations tx). \<exists>rs.
        operationEffects E input tx (i, tx_Operations tx ! i) = Ok rs \<and> r \<in> set rs)"
      unfolding concatR_mem [OF *] bex_enumerate ..
    also have "\<dots> \<longleftrightarrow> (\<exists>i j. effectAt E input tx i j r)"
    proof -
      have "(\<exists>rs. operationEffects E input tx (i, tx_Operations tx ! i) = Ok rs \<and> r \<in> set rs)
          \<longleftrightarrow> (\<exists>j. effectAt E input tx i j r)" if i: "i < length (tx_Operations tx)" for i
      proof -
        obtain rs where "operationEffects E input tx (i, tx_Operations tx ! i) = Ok rs"
          using concatR_elem [OF *, of "(i, tx_Operations tx ! i)"] i by (auto simp: in_set_enumerate_eq)
        with operationEffects_mem [OF this True i refl] show ?thesis by simp
      qed
      then show ?thesis unfolding effectAt_def by blast
    qed
    finally show ?thesis using as by simp
  qed (simp add: txEffects_def effectAt_def)
  with concatR_mem [OF rows, of r] show ?thesis by simp
qed

definition effectKey :: "effect_data \<Rightarrow> string \<times> nat \<times> nat" where
  "effectKey r = (ed_TransactionHash r, ed_OperationIndex r, ed_EffectIndex r)"

lemma operationEffects_distinct: "operationEffects E input tx (i, opn) = Ok rs \<Longrightarrow> distinct (map effectKey rs)"
proof -
  have "map (\<lambda>jr. effectKey (effectRow input tx i k jr)) (enumerate 0 recs)
      = map (\<lambda>j. (hexEncode (tx_Hash tx), i, j)) [0 ..< length recs]" for k recs
    by (intro nth_equalityI) (simp_all add: effectKey_def effectRow_fields nth_enumerate_eq)
  then have "distinct (map (\<lambda>jr. effectKey (effectRow input tx i k jr)) (enumerate 0 recs))" for k recs
    by (simp add: distinct_map inj_on_def)
  then show "operationEffects E input tx (i, opn) = Ok rs \<Longrightarrow> distinct (map effectKey rs)"
    by (auto simp: operationEffects_def bindR_Ok_iff mapR_Ok_iff comp_def)
qed

lemma operationEffects_tag:
  "operationEffects E input tx (i, opn) = Ok rs \<Longrightarrow> r \<in> set rs \<Longrightarrow>
   ed_OperationIndex r = i \<and> ed_TransactionHash r = hexEncode (tx_Hash tx)"
  by (auto simp: operationEffects_def bindR_Ok_iff mapR_Ok_iff effectRow_fields)

lemma txEffects_distinct:
  assumes "txEffects E input tx = Ok rs"
  shows "distinct (map effectKey rs)" "r \<in> set rs \<Longrightarrow> ed_TransactionHash r = hexEncode (tx_Hash tx)"
proof -
  have "distinct (map effectKey rs) \<and> (r \<in> set rs \<longrightarrow> ed_TransactionHash r = hexEncode (tx_Hash tx))"
  proof (cases "tx_Successful tx")
    case True
    with assms have *: "concatR (operationEffects E input tx) (enumerate 0 (tx_Operations tx)) = Ok rs"
      by (simp add: txEffects_def)
    have "distinct (map effectKey rs)"
      by (rule concatR_distinct [OF *, where tag = fst and keyTag = "\<lambda>(h, i, j). i"])
        (auto simp: effectKey_def dest: operationEffects_tag operationEffects_distinct)
    then show ?thesis unfolding concatR_mem [OF *] by (auto dest: operationEffects_tag)
  qed (use assms in \<open>simp add: txEffects_def\<close>)
  then show "distinct (map effectKey rs)" "r \<in> set rs \<Longrightarrow> ed_TransactionHash r = hexEncode (tx_Hash tx)" by auto
qed

lemma extractEffects_txs: "extractEffects E input = Ok rows \<Longrightarrow> \<exists>txs. in_Transactions input = Ok txs"
  by (cases "in_Transactions input") (simp_all add: extractEffects_def)

text \<open>
  C9: the rows are exactly those of the records of the operations of successful transactions, each with the
  position of its operation, its own position in the operation's records, and the TOID of the operation; where
  transaction hashes differ, hash and the two positions identify a row.
\<close>

theorem effect_rows:
  assumes "extractEffects E input = Ok rows" "in_Transactions input = Ok txs" "distinct (map tx_Hash txs)"
  shows "(\<forall>r. r \<in> set rows \<longleftrightarrow> (\<exists>tx \<in> set txs. \<exists>i j. effectAt E input tx i j r))
    \<and> distinct (map (\<lambda>r. (ed_TransactionHash r, ed_OperationIndex r, ed_EffectIndex r)) rows)"
proof -
  from assms(1,2) have *: "concatR (txEffects E input) txs = Ok rows" by (simp add: extractEffects_def)
  have "distinct (map effectKey rows)"
  proof (rule concatR_distinct [OF *, where tag = "\<lambda>tx. hexEncode (tx_Hash tx)" and keyTag = fst])
    show "distinct (map (\<lambda>tx. hexEncode (tx_Hash tx)) txs)"
      using assms(3) by (simp add: distinct_map inj_on_def)
  qed (auto simp: effectKey_def dest: txEffects_distinct)
  then show ?thesis using extractEffects_mem [OF assms(1,2)] by (simp add: effectKey_def [abs_def])
qed

lemma effectTypeNames_distinct: "distinct (map fst effectTypeNames)" "distinct (map snd effectTypeNames)"
  by code_simp+

lemma effectTypeString_named:
  assumes "t \<in> emittedTypes"
  shows "(t, effectTypeString t) \<in> set effectTypeNames"
proof -
  from assms obtain n where "(t, n) \<in> set effectTypeNames" by (auto simp: emittedTypes_def)
  then obtain n' where "map_of effectTypeNames t = Some n'" using weak_map_of_SomeI by fast
  then show ?thesis by (simp add: effectTypeString_def map_of_SomeD)
qed

text \<open>The record a row of the table was made from.\<close>

lemma effect_row_record:
  assumes "extractEffects E input = Ok rows" "r \<in> set rows"
  shows "\<exists>rec. recordOk rec \<and> ed_EffectType r = er_EffectType rec
      \<and> ed_EffectTypeString r = effectTypeString (er_EffectType rec)
      \<and> ed_DetailsJSON r = (if er_Details rec = [] then None else Some (jsonMarshal (GMap (er_Details rec))))"
proof -
  from extractEffects_txs [OF assms(1)] obtain txs where txs: "in_Transactions input = Ok txs" ..
  with assms extractEffects_mem obtain tx i j where "effectAt E input tx i j r" by blast
  then obtain recs k where recs: "opRecords E (wrapOperation input tx (i, tx_Operations tx ! i)) = Ok recs"
      "j < length recs" and r: "r = effectRow input tx i k (j, recs ! j)"
    unfolding effectAt_def by blast
  from opRecords_ok [OF recs(1)] recs(2) have "recordOk (recs ! j)" by (simp add: recordsOk_def)
  then show ?thesis by (intro exI [of _ "recs ! j"]) (simp add: r effectRow_def)
qed

text \<open>
  C23: the type of every row is one the table names, its name is that of the table and determines the type, and
  the types of offer creation, signer sponsorship and pool revocation do not occur; the details of a row are a
  JSON object without repeated keys.
\<close>

theorem effect_types_named:
  assumes "extractEffects E input = Ok rows" "r \<in> set rows"
  shows "(ed_EffectType r, ed_EffectTypeString r) \<in> set effectTypeNames
    \<and> ed_EffectType r \<notin> {EffectOfferCreated, EffectSignerSponsorshipCreated, EffectSignerSponsorshipUpdated,
        EffectSignerSponsorshipRemoved, EffectLiquidityPoolRevoked}
    \<and> (\<forall>r' \<in> set rows. ed_EffectTypeString r' = ed_EffectTypeString r \<longleftrightarrow> ed_EffectType r' = ed_EffectType r)
    \<and> (\<forall>json. ed_DetailsJSON r = Some json \<longrightarrow> (\<exists>d. gWf (GMap d) \<and> json = jsonMarshal (GMap d)))"
proof -
  note rec = effect_row_record [OF assms(1)] and named = effectTypeString_named
  have "ed_EffectType r = ed_EffectType r'"
    if "r' \<in> set rows" "ed_EffectTypeString r' = ed_EffectTypeString r" for r'
    using rec [OF assms(2)] rec [OF that(1)] that(2)
    by (metis named recordOk_def distinct_map_nth_inj [OF effectTypeNames_distinct(2)] fst_conv snd_conv)
  moreover have "ed_EffectTypeString r = ed_EffectTypeString r'"
    if "r' \<in> set rows" "ed_EffectType r' = ed_EffectType r" for r'
    using rec [OF assms(2)] rec [OF that(1)] that(2) by metis
  ultimately have names: "\<forall>r' \<in> set rows. ed_EffectTypeString r' = ed_EffectTypeString r \<longleftrightarrow> ed_EffectType r' = ed_EffectType r"
    by metis
  from rec [OF assms(2)] obtain r0 where r0: "recordOk r0" "ed_EffectType r = er_EffectType r0"
    "ed_EffectTypeString r = effectTypeString (er_EffectType r0)"
    "ed_DetailsJSON r = (if er_Details r0 = [] then None else Some (jsonMarshal (GMap (er_Details r0))))"
    by blast
  then have t: "ed_EffectType r \<in> emittedTypes" and d: "gWf (GMap (er_Details r0))" by (simp_all only: recordOk_def)
  show ?thesis
  proof (intro conjI names)
    show "(ed_EffectType r, ed_EffectTypeString r) \<in> set effectTypeNames" using named [OF t] r0 by simp
    show "ed_EffectType r \<notin> {EffectOfferCreated, EffectSignerSponsorshipCreated, EffectSignerSponsorshipUpdated,
        EffectSignerSponsorshipRemoved, EffectLiquidityPoolRevoked}"
      using t unfolding emittedTypes_def by blast
    show "\<forall>json. ed_DetailsJSON r = Some json \<longrightarrow> (\<exists>d. gWf (GMap d) \<and> json = jsonMarshal (GMap d))"
      using d r0(4) by (metis option.distinct(1) option.sel)
  qed
qed

section \<open>Signers\<close>

text \<open>What a signer effect says of a summary: the key it names gets its weight, or goes.\<close>

definition signerKeyOf :: "effect_record \<Rightarrow> string" where
  "signerKeyOf rec = (case gmGet (er_Details rec) ''public_key'' of Some (GStr k) \<Rightarrow> k | _ \<Rightarrow> [])"

definition signerWeightOf :: "effect_record \<Rightarrow> int option" where
  "signerWeightOf rec = (case gmGet (er_Details rec) ''weight'' of Some (GInt w) \<Rightarrow> Some w | _ \<Rightarrow> None)"

definition replaySigners :: "effect_record list \<Rightarrow> (string \<Rightarrow> int option) \<Rightarrow> string \<Rightarrow> int option" where
  "replaySigners recs m = foldl (\<lambda>m rec. m(signerKeyOf rec := signerWeightOf rec)) m recs"

definition weights :: "(string, i32) gomap \<Rightarrow> string \<Rightarrow> int option" where
  "weights m k = map_option sint (gmGet m k)"

lemma replay_keys:
  assumes "\<And>rec. rec \<in> set recs \<Longrightarrow> signerWeightOf rec = w (signerKeyOf rec)"
  shows "replaySigners recs m k = (if k \<in> signerKeyOf ` set recs then w k else m k)"
  using assms unfolding replaySigners_def
  by (induction recs arbitrary: m) auto

lemma signer_records [simp]:
  "signerKeyOf \<lparr>er_Address = a, er_EffectType = t, er_Details = [(''public_key'', GStr k)]\<rparr> = k"
  "signerWeightOf \<lparr>er_Address = a, er_EffectType = t, er_Details = [(''public_key'', GStr k)]\<rparr> = None"
  "signerKeyOf \<lparr>er_Address = a, er_EffectType = t, er_Details = [(''public_key'', GStr k), (''weight'', GInt n)]\<rparr> = k"
  "signerWeightOf \<lparr>er_Address = a, er_EffectType = t, er_Details = [(''public_key'', GStr k), (''weight'', GInt n)]\<rparr> = Some n"
  by (simp_all add: signerKeyOf_def signerWeightOf_def gmGet_def)

text \<open>One record says that the weight of its key changed, how, and by which type.\<close>

definition signerRecord :: "string \<Rightarrow> (string, i32) gomap \<Rightarrow> (string, i32) gomap \<Rightarrow> effect_record \<Rightarrow> bool" where
  "signerRecord address before after rec \<longleftrightarrow> (let k = signerKeyOf rec in
     er_Address rec = address \<and> signerWeightOf rec = weights after k \<and> gmGet before k \<noteq> gmGet after k
     \<and> er_EffectType rec = (if gmGet after k = None then EffectSignerRemoved
         else if gmGet before k = None then EffectSignerCreated else EffectSignerUpdated))"

lemma signerDiff_mem:
  assumes "gmInv before" "gmInv after"
  shows "(\<forall>rec \<in> set (signerDiff E src before after).
        signerRecord (accountAddress E (muxAccountId src)) before after rec)
     \<and> signerKeyOf ` set (signerDiff E src before after) = {k. gmGet before k \<noteq> gmGet after k}"
proof (cases "sortPairs before = sortPairs after")
  case True
  then have "gmGet before = gmGet after" using assms map_of_sortPairs unfolding gmGet_def gmInv_def by metis
  then show ?thesis using True by (simp add: signerDiff_def)
next
  case False
  have keys: "k \<in> set (map fst m) \<longleftrightarrow> gmGet m k \<noteq> None" for k and m :: "(string, i32) gomap"
    using gmGet_dom [of m] by (auto simp: dom_def)
  have old: "signerRecord (accountAddress E (muxAccountId src)) before after rec \<and> signerKeyOf rec = k"
    if "rec \<in> set (oldSignerEffect E src before after k)" "gmGet before k \<noteq> None" for rec k
    using that by (auto simp: oldSignerEffect_def addMuxed_def addRecord_def signerRecord_def weights_def
        split: option.splits if_splits)
  have new: "signerRecord (accountAddress E (muxAccountId src)) before after rec \<and> signerKeyOf rec = k"
    if "rec \<in> set (newSignerEffect E src before after k)" "gmGet after k \<noteq> None" for rec k
    using that by (auto simp: newSignerEffect_def addMuxed_def addRecord_def signerRecord_def weights_def
        split: if_splits)
  have some: "oldSignerEffect E src before after k \<noteq> []" if "gmGet before k \<noteq> None" "gmGet after k \<noteq> gmGet before k" for k
    using that by (auto simp: oldSignerEffect_def addMuxed_def addRecord_def split: option.split)
  have some': "newSignerEffect E src before after k \<noteq> []" if "gmGet before k = None" for k
    using that by (simp add: newSignerEffect_def addMuxed_def addRecord_def)
  let ?diff = "signerDiff E src before after"
  have mem: "rec \<in> set ?diff \<longleftrightarrow> (\<exists>k. gmGet before k \<noteq> None \<and> rec \<in> set (oldSignerEffect E src before after k))
      \<or> (\<exists>k. gmGet after k \<noteq> None \<and> rec \<in> set (newSignerEffect E src before after k))" for rec
  proof -
    have "rec \<in> set ?diff \<longleftrightarrow> (\<exists>k \<in> set (map fst before). rec \<in> set (oldSignerEffect E src before after k))
        \<or> (\<exists>k \<in> set (map fst after). rec \<in> set (newSignerEffect E src before after k))"
      using False by (simp add: signerDiff_def)
    then show ?thesis unfolding keys Bex_def .
  qed
  have "\<exists>rec \<in> set ?diff. signerKeyOf rec = k" if "gmGet before k \<noteq> gmGet after k" for k
  proof (cases "gmGet before k")
    case None
    with that have "gmGet after k \<noteq> None" by simp
    moreover from some' [OF None] obtain rec where "rec \<in> set (newSignerEffect E src before after k)"
      by (meson list.set_sel(1))
    ultimately show ?thesis using mem new by blast
  next
    case (Some w)
    with some [of k] that obtain rec where "rec \<in> set (oldSignerEffect E src before after k)"
      by (metis list.set_sel(1) option.distinct(1))
    with Some show ?thesis using mem old by blast
  qed
  moreover have "\<forall>rec \<in> set ?diff. signerRecord (accountAddress E (muxAccountId src)) before after rec"
    using mem old new by blast
  ultimately show ?thesis by (auto simp: signerRecord_def Let_def)
qed

text \<open>
  C4: the signer effects of a change of an account are a faithful difference of the two signer summaries: replayed
  on the weights before they give the weights after, and each record names a key whose weight changed, with the
  type that fits.
\<close>

theorem signer_effects_replay:
  assumes "\<And>a. gmInv (signerSummary E a)" "ch_Type c = EAccount"
    "map_option le_Data (ch_Pre c) = Some (DAccount a)" "map_option le_Data (ch_Post c) = Some (DAccount b)"
  shows "\<exists>recs. signerEffects E src c = Ok recs
    \<and> replaySigners recs (weights (signerSummary E a)) = weights (signerSummary E b)
    \<and> signerKeyOf ` set recs = {k. gmGet (signerSummary E a) k \<noteq> gmGet (signerSummary E b) k}
    \<and> (\<forall>rec \<in> set recs. signerRecord (accountAddress E (muxAccountId src)) (signerSummary E a) (signerSummary E b) rec)"
proof -
  let ?recs = "signerDiff E src (signerSummary E a) (signerSummary E b)"
  note diff = signerDiff_mem [OF assms(1) assms(1), of E src a b]
  have "signerEffects E src c = Ok ?recs"
    using assms(2-4) by (auto simp: signerEffects_def dataAccount_def)
  moreover have "replaySigners ?recs (weights (signerSummary E a)) = weights (signerSummary E b)"
  proof
    fix k
    have "replaySigners ?recs (weights (signerSummary E a)) k
        = (if k \<in> signerKeyOf ` set ?recs then weights (signerSummary E b) k else weights (signerSummary E a) k)"
      by (rule replay_keys) (use diff in \<open>auto simp: signerRecord_def Let_def\<close>)
    also have "\<dots> = weights (signerSummary E b) k" using diff by (auto simp: weights_def)
    finally show "replaySigners ?recs (weights (signerSummary E a)) k = weights (signerSummary E b) k" .
  qed
  ultimately show ?thesis using diff by blast
qed

section \<open>Trades\<close>

lemma addAssetDetails_get:
  "gmGet (addAssetDetails E d a p) = (let (t, c, i) = assetExtract E a in
     if a = AssetNative then (gmGet d)(p @ ''asset_type'' \<mapsto> GStr t)
     else (gmGet d)(p @ ''asset_type'' \<mapsto> GStr t, p @ ''asset_code'' \<mapsto> GStr c, p @ ''asset_issuer'' \<mapsto> GStr i))"
  by (simp add: addAssetDetails_def Let_def split: prod.split)

lemma gmGet_literal: "gmGet [] k = None" "gmGet ((k', v) # m) k = (if k = k' then Some v else gmGet m k)"
  by (simp_all add: gmGet_def)

lemma tradeDetails_get:
  fixes E defines "name \<equiv> \<lambda>a s. if a = AssetNative then None else Some (GStr s)"
  assumes "td = tradeDetails E offer p b ba s sa"
  shows "gmGet td ''offer_id'' = Some (GInt (sint offer))" "gmGet td ''seller'' = Some (GStr (accountAddress E p))"
    "gmGet td ''bought_amount'' = Some (GStr (amountString E ba))"
    "gmGet td ''sold_amount'' = Some (GStr (amountString E sa))"
    "gmGet td ''bought_asset_type'' = Some (GStr (fst (assetExtract E b)))"
    "gmGet td ''sold_asset_type'' = Some (GStr (fst (assetExtract E s)))"
    "gmGet td ''bought_asset_code'' = name b (fst (snd (assetExtract E b)))"
    "gmGet td ''sold_asset_code'' = name s (fst (snd (assetExtract E s)))"
    "gmGet td ''bought_asset_issuer'' = name b (snd (snd (assetExtract E b)))"
    "gmGet td ''sold_asset_issuer'' = name s (snd (snd (assetExtract E s)))"
  unfolding assms by (simp_all add: tradeDetails_def addAssetDetails_get Let_def case_prod_unfold gmGet_literal)

text \<open>
  C21: a claim of an offer that moved anything gives a trade, an offer update and an offer removal for each side,
  and the two sides mirror each other: each bought what the other sold, of the same asset and offer, and names the
  other as the seller.  A claim that moved nothing gives no effect.
\<close>

theorem trade_effects_mirror:
  assumes "claimParts E claim = Ok (seller, offer, ca)" "claimAmounts E claim = Ok (ca_AmountSold ca, ca_AmountBought ca)"
  shows "if ca_AmountSold ca = 0 \<and> ca_AmountBought ca = 0 then claimEffects E ow buyer claim = Ok []
    else \<exists>bd sd. claimEffects E ow buyer claim = Ok (concat (map (\<lambda>t.
          [\<lparr>er_Address = accountAddress E (muxAccountId buyer), er_EffectType = t, er_Details = bd\<rparr>,
           \<lparr>er_Address = accountAddress E seller, er_EffectType = t, er_Details = sd\<rparr>])
          [EffectTrade, EffectOfferUpdated, EffectOfferRemoved]))
      \<and> (\<forall>what \<in> {''amount'', ''asset_type'', ''asset_code'', ''asset_issuer''}.
           gmGet bd (''bought_'' @ what) = gmGet sd (''sold_'' @ what)
           \<and> gmGet bd (''sold_'' @ what) = gmGet sd (''bought_'' @ what))
      \<and> gmGet bd ''bought_amount'' = Some (GStr (amountString E (ca_AmountSold ca)))
      \<and> gmGet sd ''bought_amount'' = Some (GStr (amountString E (ca_AmountBought ca)))
      \<and> gmGet bd ''offer_id'' = gmGet sd ''offer_id''
      \<and> gmGet bd ''seller'' = Some (GStr (accountAddress E seller))
      \<and> gmGet sd ''seller'' = Some (GStr (accountAddress E (muxAccountId buyer)))"
proof -
  let ?bd = "tradeDetails E offer seller (ca_AssetSold ca) (ca_AmountSold ca) (ca_AssetBought ca) (ca_AmountBought ca)"
  let ?sd = "tradeDetails E offer (muxAccountId buyer)
                (ca_AssetBought ca) (ca_AmountBought ca) (ca_AssetSold ca) (ca_AmountSold ca)"
  have claim: "claimEffects E ow buyer claim = (if ca_AmountSold ca = 0 \<and> ca_AmountBought ca = 0 then Ok []
     else Ok (orderBookEffects E buyer (seller, offer, ca)))"
    using assms by (cases claim) (simp_all add: claimEffects_def)
  have effects: "orderBookEffects E buyer (seller, offer, ca) = concat (map (\<lambda>t.
          [\<lparr>er_Address = accountAddress E (muxAccountId buyer), er_EffectType = t, er_Details = ?bd\<rparr>,
           \<lparr>er_Address = accountAddress E seller, er_EffectType = t, er_Details = ?sd\<rparr>])
          [EffectTrade, EffectOfferUpdated, EffectOfferRemoved])"
    by (simp add: orderBookEffects_def addMuxed_def addUnmuxed_def addRecord_def Let_def)
  have mirror: "(\<forall>what \<in> {''amount'', ''asset_type'', ''asset_code'', ''asset_issuer''}.
           gmGet ?bd (''bought_'' @ what) = gmGet ?sd (''sold_'' @ what)
           \<and> gmGet ?bd (''sold_'' @ what) = gmGet ?sd (''bought_'' @ what))"
    by (simp add: tradeDetails_get [OF refl])
  show ?thesis
  proof (cases "ca_AmountSold ca = 0 \<and> ca_AmountBought ca = 0")
    case True
    show ?thesis unfolding if_P [OF True] claim ..
  next
    case False
    note r = claim [unfolded if_not_P [OF False] effects]
    show ?thesis unfolding if_not_P [OF False]
      by (intro exI [of _ ?bd] exI [of _ ?sd] conjI r mirror) (simp_all add: tradeDetails_get [OF refl])
  qed
qed

section \<open>Liquidity pools\<close>

text \<open>A side of a change that is the entry of a constant-product pool.\<close>

definition poolSide :: "ledger_entry option \<Rightarrow> hash \<Rightarrow> pool_params \<Rightarrow> bool" where
  "poolSide side pool cp \<longleftrightarrow>
     (\<exists>e. side = Some e \<and> le_Data e = DLiquidityPool \<lparr>lp_Id = pool, lp_Body = PoolConstantProduct cp\<rparr>)"

definition otherPool :: "hash \<Rightarrow> change \<Rightarrow> bool" where
  "otherPool pool c \<longleftrightarrow> ch_Type c \<noteq> ELiquidityPool \<or> (\<exists>p cp. p \<noteq> pool \<and> poolSide (ch_Pre c) p cp)"

lemma lpSide_pool: "poolSide side p cp \<Longrightarrow> lpSide (Some pool) side = Ok (if p = pool
    then Some (Some \<lparr>lp_Id = p, lp_Body = PoolConstantProduct cp\<rparr>,
      \<lparr>ld_ReserveA = pp_ReserveA cp, ld_ReserveB = pp_ReserveB cp, ld_TotalPoolShares = pp_TotalPoolShares cp\<rparr>)
    else None)"
  by (auto simp: poolSide_def lpSide_def dataPool_def)

lemma lpDeltaLoop_skip: "\<forall>c \<in> set cs. otherPool pool c \<Longrightarrow> lpDeltaLoop (Some pool) (cs @ cs') = lpDeltaLoop (Some pool) cs'"
  by (induction cs) (auto simp: otherPool_def lpSide_pool)

lemma getLiquidityPoolDelta_first:
  assumes "operationChanges ow = Ok (cs @ c # cs')" "\<forall>c \<in> set cs. otherPool pool c"
    "ch_Type c = ELiquidityPool" "poolSide (ch_Pre c) pool pre" "poolSide (ch_Post c) pool post"
  shows "getLiquidityPoolDelta ow (Some pool) = Ok (Some \<lparr>lp_Id = pool, lp_Body = PoolConstantProduct post\<rparr>,
    \<lparr>ld_ReserveA = pp_ReserveA post - pp_ReserveA pre, ld_ReserveB = pp_ReserveB post - pp_ReserveB pre,
     ld_TotalPoolShares = pp_TotalPoolShares post - pp_TotalPoolShares pre\<rparr>)"
  using assms by (simp add: getLiquidityPoolDelta_def lpDeltaLoop_skip lpSide_pool lpMinus_def)

text \<open>The difference of two amounts that are not negative is exact.\<close>

lemma sint_minus_amounts:
  fixes x y :: i64
  assumes "0 \<le> sint x" "0 \<le> sint y"
  shows "sint (x - y) = sint x - sint y"
proof -
  have "sint x < 2 ^ 63" "sint y < 2 ^ 63" using sint_less [of x] sint_less [of y] by simp_all
  then have "signed_take_bit 63 (sint x - sint y) = sint x - sint y"
    using assms by (intro signed_take_bit_int_eq_self) auto
  moreover have "sint (x - y) = sint (word_of_int (sint x - sint y) :: i64)" by simp
  then have "sint (x - y) = signed_take_bit 63 (sint x - sint y)" by (simp only: signed_of_int) simp
  ultimately show ?thesis by simp
qed

definition poolAmounts :: "pool_params \<Rightarrow> bool" where
  "poolAmounts cp \<longleftrightarrow> 0 \<le> sint (pp_ReserveA cp) \<and> 0 \<le> sint (pp_ReserveB cp) \<and> 0 \<le> sint (pp_TotalPoolShares cp)"

text \<open>
  C22: a deposit or a withdrawal reports the amounts by which the first change of its pool raised, or lowered, the
  reserves and the shares, computed without overflow, with the asset of each reserve.
\<close>

theorem pool_effects_exact:
  assumes "operationChanges ow = Ok (cs @ c # cs')" "\<forall>c \<in> set cs. otherPool pool c"
    "ch_Type c = ELiquidityPool" "poolSide (ch_Pre c) pool pre" "poolSide (ch_Post c) pool post"
    "poolAmounts pre" "poolAmounts post"
  shows "\<exists>dA dB dS g. liquidityPoolDetails E \<lparr>lp_Id = pool, lp_Body = PoolConstantProduct post\<rparr> = Ok g
    \<and> sint dA = sint (pp_ReserveA post) - sint (pp_ReserveA pre)
    \<and> sint dB = sint (pp_ReserveB post) - sint (pp_ReserveB pre)
    \<and> sint dS = sint (pp_TotalPoolShares post) - sint (pp_TotalPoolShares pre)
    \<and> addLiquidityPoolDepositEffects E ow pool = Ok [\<lparr>er_Address = accountAddress E (muxAccountId (sourceAccount ow)),
        er_EffectType = EffectLiquidityPoolDeposited, er_Details = [(''liquidity_pool'', g),
          (''reserves_deposited'', GArr [assetAmount E (pp_AssetA post) dA, assetAmount E (pp_AssetB post) dB]),
          (''shares_received'', GStr (amountString E dS))]\<rparr>]
    \<and> (\<exists>wA wB wS. sint wA = - sint dA \<and> sint wB = - sint dB \<and> sint wS = - sint dS
      \<and> addLiquidityPoolWithdrawEffects E ow pool = Ok [\<lparr>er_Address = accountAddress E (muxAccountId (sourceAccount ow)),
        er_EffectType = EffectLiquidityPoolWithdrew, er_Details = [(''liquidity_pool'', g),
          (''reserves_received'', GArr [assetAmount E (pp_AssetA post) wA, assetAmount E (pp_AssetB post) wB]),
          (''shares_redeemed'', GStr (amountString E wS))]\<rparr>])"
proof -
  obtain g where g: "liquidityPoolDetails E \<lparr>lp_Id = pool, lp_Body = PoolConstantProduct post\<rparr> = Ok g"
    by (simp add: liquidityPoolDetails_def)
  note delta = getLiquidityPoolDelta_first [OF assms(1-5)]
  have neg: "- (x - y) = y - x" for x y :: i64 by simp
  note sints = sint_minus_amounts assms(6,7) [unfolded poolAmounts_def]
  show ?thesis
    by (rule exI [of _ "pp_ReserveA post - pp_ReserveA pre"], rule exI [of _ "pp_ReserveB post - pp_ReserveB pre"],
        rule exI [of _ "pp_TotalPoolShares post - pp_TotalPoolShares pre"], rule exI [of _ g], intro conjI g,
        rule_tac [5] exI [of _ "pp_ReserveA pre - pp_ReserveA post"],
        rule_tac [5] exI [of _ "pp_ReserveB pre - pp_ReserveB post"],
        rule_tac [5] exI [of _ "pp_TotalPoolShares pre - pp_TotalPoolShares post"])
       (simp_all add: addLiquidityPoolDepositEffects_def addLiquidityPoolWithdrawEffects_def delta poolParts_def g
         addMuxed_def addRecord_def sints neg)
qed

section \<open>Data entries\<close>

text \<open>
  C40: the effect of a data operation whose transaction changes no data entry has type 0 and so is reported as the
  creation of an account.
\<close>

theorem manage_data_without_change:
  assumes "operationChanges ow = Ok cs" "\<forall>c \<in> set cs. ch_Type c \<noteq> EData"
  shows "\<exists>rec. addManageDataEffects E ow name = Ok [rec] \<and> er_EffectType rec = 0
    \<and> effectTypeString (er_EffectType rec) = ''account_created''
    \<and> er_Address rec = accountAddress E (muxAccountId (sourceAccount ow))"
proof -
  have "manageDataLoop cs d = Ok (0, d)" for d using assms(2) by (induction cs) auto
  then show ?thesis
    by (simp add: addManageDataEffects_def assms(1) addMuxed_def addRecord_def effectTypeString_def effectTypeNames_def)
qed

section \<open>Examples\<close>

definition demoEffectTx :: ledger_tx where
  "demoEffectTx = demoTx\<lparr>tx_Operations :=
     [\<lparr>op_SourceAccount = None, op_Body = OpPayment (MuxEd25519 [1]) AssetNative 5\<rparr>,
      \<lparr>op_SourceAccount = Some (MuxEd25519 [2]), op_Body = OpCreateAccount [3] 7\<rparr>]\<rparr>"

lemma toid_demo: "toidInt64 demoSdk (in_Sequence (demoTxs txs)) 1 p =
    (if sint p < 0 then Panic else Ok (word_of_int (61500126 * 2 ^ 32 + 2 ^ 12 + sint p)))"
  by (simp add: demoSdk_def demoTxs_def newLedgerInput_def demoLcm_def Let_def)

lemma demoEffects_rows:
  "\<exists>rows. extractEffects demoSdk (demoTxs [demoEffectTx, demoTx\<lparr>tx_Hash := [1]\<rparr>]) = Ok rows \<and> rows \<noteq> []"
  by (simp add: extractEffects_def txEffects_def operationEffects_def opRecords_def wrapOperation_def operationChanges_def
      demoEffectTx_def demoTx_def addPaymentEffects_def transferEffects_def addMuxed_def addRecord_def toid_demo)

theorem effect_rows_witness:
  "\<exists>rows. extractEffects demoSdk (demoTxs [demoEffectTx, demoTx\<lparr>tx_Hash := [1]\<rparr>]) = Ok rows \<and> rows \<noteq> []
    \<and> distinct (map (\<lambda>r. (ed_TransactionHash r, ed_OperationIndex r, ed_EffectIndex r)) rows)"
proof -
  from demoEffects_rows obtain rows where rows: "rows \<noteq> []"
      "extractEffects demoSdk (demoTxs [demoEffectTx, demoTx\<lparr>tx_Hash := [1]\<rparr>]) = Ok rows" by blast
  have "distinct (map tx_Hash [demoEffectTx, demoTx\<lparr>tx_Hash := [1]\<rparr>])" by (simp add: demoEffectTx_def demoTx_def)
  from effect_rows [OF rows(2) demoTxs_simps(1) this] rows show ?thesis by blast
qed

theorem effect_types_named_witness:
  "\<exists>rows r. extractEffects demoSdk (demoTxs [demoEffectTx, demoTx\<lparr>tx_Hash := [1]\<rparr>]) = Ok rows \<and> r \<in> set rows
    \<and> (ed_EffectType r, ed_EffectTypeString r) \<in> set effectTypeNames"
proof -
  from demoEffects_rows obtain rows r where rows: "r \<in> set rows"
      "extractEffects demoSdk (demoTxs [demoEffectTx, demoTx\<lparr>tx_Hash := [1]\<rparr>]) = Ok rows"
    by (metis list.set_intros(1) neq_Nil_conv)
  from effect_types_named [OF rows(2,1)] rows show ?thesis by blast
qed

definition demoSignerAccount :: "i32 \<Rightarrow> account_entry" where
  "demoSignerAccount w = \<lparr>ac_AccountId = [1], ac_Balance = 0, ac_SeqNum = 0, ac_NumSubEntries = 0, ac_HomeDomain = [],
     ac_Thresholds = (1, 0, 0, 0), ac_Flags = 0, ac_Signers = [(SkEd25519 [2], w)], ac_Ext = None, ac_SeqLedger = 0,
     ac_SeqTime = 0\<rparr>"

definition demoSignerChange :: change where
  "demoSignerChange = \<lparr>ch_Type = EAccount, ch_ChangeType = ChUpdated,
     ch_Pre = Some \<lparr>le_LastModified = 0, le_Data = DAccount (demoSignerAccount 1), le_Sponsor = None\<rparr>,
     ch_Post = Some \<lparr>le_LastModified = 0, le_Data = DAccount (demoSignerAccount 5), le_Sponsor = None\<rparr>\<rparr>"

theorem signer_effects_replay_witness:
  "\<exists>recs. signerEffects demoSdk (MuxEd25519 [1]) demoSignerChange = Ok recs \<and> recs \<noteq> []
    \<and> replaySigners recs (weights [(''SIGNER'', 1)]) = weights [(''SIGNER'', 5)]"
proof -
  have g: "gmInv (signerSummary demoSdk a)" for a
    by (cases "ac_Signers a") (auto simp: demoSdk_def gmInv_def split: prod.split)
  have s: "signerSummary demoSdk (demoSignerAccount w) = [(''SIGNER'', w)]" for w
    by (simp add: demoSdk_def demoSignerAccount_def)
  have c: "ch_Type demoSignerChange = EAccount"
    "map_option le_Data (ch_Pre demoSignerChange) = Some (DAccount (demoSignerAccount 1))"
    "map_option le_Data (ch_Post demoSignerChange) = Some (DAccount (demoSignerAccount 5))"
    by (simp_all add: demoSignerChange_def)
  from signer_effects_replay [OF g c, of "MuxEd25519 [1]"] obtain recs where
    "signerEffects demoSdk (MuxEd25519 [1]) demoSignerChange = Ok recs"
    "replaySigners recs (weights [(''SIGNER'', 1)]) = weights [(''SIGNER'', 5)]" unfolding s by blast
  moreover from this(2) have "recs \<noteq> []"
    by (auto simp: replaySigners_def weights_def gmGet_def dest!: fun_cong [of _ _ "''SIGNER''"])
  ultimately show ?thesis by blast
qed

theorem trade_effects_mirror_witness:
  "\<exists>bd sd. claimEffects demoSdk (wrapOperation (demoTxs []) demoTx (0, \<lparr>op_SourceAccount = None, op_Body = OpInflation\<rparr>))
      (MuxEd25519 [1]) (ClaimOrderBook [2] 9 \<lparr>ca_AssetSold = AssetNative, ca_AmountSold = 5, ca_AssetBought = Asset4 [] [3], ca_AmountBought = 7\<rparr>)
    = Ok (concat (map (\<lambda>t. [\<lparr>er_Address = accountAddress demoSdk [1], er_EffectType = t, er_Details = bd\<rparr>,
           \<lparr>er_Address = accountAddress demoSdk [2], er_EffectType = t, er_Details = sd\<rparr>])
          [EffectTrade, EffectOfferUpdated, EffectOfferRemoved]))
    \<and> gmGet bd ''bought_amount'' = gmGet sd ''sold_amount''"
proof -
  let ?ca = "\<lparr>ca_AssetSold = AssetNative, ca_AmountSold = 5, ca_AssetBought = Asset4 [] [3], ca_AmountBought = 7\<rparr> :: claim_amounts"
  have "claimParts demoSdk (ClaimOrderBook [2] 9 ?ca) = Ok ([2], 9, ?ca)"
    "claimAmounts demoSdk (ClaimOrderBook [2] 9 ?ca) = Ok (ca_AmountSold ?ca, ca_AmountBought ?ca)" by simp_all
  from trade_effects_mirror [OF this, of
      "wrapOperation (demoTxs []) demoTx (0, \<lparr>op_SourceAccount = None, op_Body = OpInflation\<rparr>)" "MuxEd25519 [1]"]
  show ?thesis by (auto simp del: concat.simps list.map)
qed

definition demoPool :: "i64 \<Rightarrow> pool_params" where
  "demoPool r = \<lparr>pp_AssetA = AssetNative, pp_AssetB = Asset4 [] [1], pp_Fee = 30, pp_ReserveA = r, pp_ReserveB = 2 * r,
     pp_TotalPoolShares = 9, pp_TrustLineCount = 1\<rparr>"

definition demoPoolSide :: "i64 \<Rightarrow> ledger_entry" where
  "demoPoolSide r = \<lparr>le_LastModified = 0,
     le_Data = DLiquidityPool \<lparr>lp_Id = [7], lp_Body = PoolConstantProduct (demoPool r)\<rparr>, le_Sponsor = None\<rparr>"

definition demoPoolOp :: op_wrapper where
  "demoPoolOp = wrapOperation (demoTxs []) (demoTx\<lparr>tx_OperationChanges := (\<lambda>i. Ok [\<lparr>ch_Type = ELiquidityPool,
     ch_ChangeType = ChUpdated, ch_Pre = Some (demoPoolSide 10), ch_Post = Some (demoPoolSide 4)\<rparr>])\<rparr>)
     (0, \<lparr>op_SourceAccount = None, op_Body = OpLiquidityPoolWithdraw [7] 1\<rparr>)"

theorem pool_effects_exact_witness:
  "\<exists>wA g rest. sint wA = 6 \<and> addLiquidityPoolWithdrawEffects demoSdk demoPoolOp [7] = Ok [\<lparr>er_Address =
     accountAddress demoSdk (muxAccountId (sourceAccount demoPoolOp)), er_EffectType = EffectLiquidityPoolWithdrew,
     er_Details = [(''liquidity_pool'', g), (''reserves_received'', GArr [assetAmount demoSdk AssetNative wA, rest])]
       @ [(''shares_redeemed'', GStr (amountString demoSdk 0))]\<rparr>]"
proof -
  let ?c = "\<lparr>ch_Type = ELiquidityPool, ch_ChangeType = ChUpdated, ch_Pre = Some (demoPoolSide 10),
    ch_Post = Some (demoPoolSide 4)\<rparr> :: change"
  have cs: "operationChanges demoPoolOp = Ok ([] @ ?c # [])"
    by (simp add: demoPoolOp_def operationChanges_def wrapOperation_def)
  have sides: "poolSide (ch_Pre ?c) [7] (demoPool 10)" "poolSide (ch_Post ?c) [7] (demoPool 4)"
    by (simp_all add: poolSide_def demoPoolSide_def)
  have amounts: "poolAmounts (demoPool 10)" "poolAmounts (demoPool 4)"
    by (simp_all add: poolAmounts_def demoPool_def)
  from pool_effects_exact [OF cs _ _ sides amounts, of demoSdk] obtain wA wB wS g where
    "sint wA = 6" "sint wS = 0" "addLiquidityPoolWithdrawEffects demoSdk demoPoolOp [7] = Ok [\<lparr>er_Address =
        accountAddress demoSdk (muxAccountId (sourceAccount demoPoolOp)),
        er_EffectType = EffectLiquidityPoolWithdrew, er_Details = [(''liquidity_pool'', g),
          (''reserves_received'', GArr [assetAmount demoSdk (pp_AssetA (demoPool 4)) wA,
             assetAmount demoSdk (pp_AssetB (demoPool 4)) wB]),
          (''shares_redeemed'', GStr (amountString demoSdk wS))]\<rparr>]"
    by (auto simp: demoPool_def)
  moreover from this(2) have "wS = 0" by (metis sint_0 signed_word_eqI)
  ultimately show ?thesis by (auto simp: demoPool_def)
qed

theorem manage_data_without_change_witness:
  "\<exists>rec. addManageDataEffects demoSdk (wrapOperation (demoTxs []) demoTx
      (0, \<lparr>op_SourceAccount = None, op_Body = OpManageData ''name'' None\<rparr>)) ''name'' = Ok [rec]
    \<and> effectTypeString (er_EffectType rec) = ''account_created''"
proof -
  have "operationChanges (wrapOperation (demoTxs []) demoTx
      (0, \<lparr>op_SourceAccount = None, op_Body = OpManageData ''name'' None\<rparr>)) = Ok []"
    by (simp add: operationChanges_def wrapOperation_def demoTx_def)
  from manage_data_without_change [OF this, of demoSdk "''name''"] show ?thesis by auto
qed

end
