(* ===== verification/Extract.thy ===== *)
theory Extract
  imports Market Accounts State Trades Ledgers TokenTransfers Archival ContractEvents Soroban Transactions Operations
    Effects
begin

text \<open>
  \<open>extract.go\<close> and \<open>view_input.go\<close>: the cached streams behind \<open>Transactions()\<close> and
  \<open>Changes()\<close>, the constructors from raw XDR, and \<open>ExtractAll\<close>, which runs the twenty-one
  extractors concurrently.

  An extractor shares with the others the two caches, whose first call excludes the others
  (\<open>sync.Once\<close>), and the result and the error list, which it writes under a mutex in one piece.  The goroutines of
  this theory therefore take two steps, the call of the cached stream and the end of the extractor, and the step
  relation interleaves these of all the goroutines in any order.  The mutex, the wait group, the launch and the
  blocking of the caches are in \<open>Goroutines\<close>, which proves that a run of them returns, and with a result of these
  two-step goroutines.
\<close>

section \<open>Streams and \<open>sync.Once\<close>\<close>

text \<open>
  What opening a reader of the SDK and reading it to the end delivers: the error of the constructor, or the results
  of the successive calls of \<open>Read\<close> before \<open>io.EOF\<close>.
\<close>

type_synonym 'a stream = "'a res list res"

text \<open>The read loop: rows read, the error that ended it, and whether it panicked.\<close>

type_synonym 'a walk = "'a list \<times> string option \<times> bool"

fun readLoop :: "string \<Rightarrow> 'a list \<Rightarrow> 'a res list \<Rightarrow> 'a walk" where
  "readLoop readMsg rows [] = (rows, None, False)"
| "readLoop readMsg rows (Ok a # rs) = readLoop readMsg (rows @ [a]) rs"
| "readLoop readMsg rows (Err e # rs) = (rows, Some (readMsg @ '': '' @ e), False)"
| "readLoop readMsg rows (Panic # rs) = (rows, None, True)"

definition walkStream :: "string \<Rightarrow> string \<Rightarrow> 'a stream \<Rightarrow> 'a walk" where
  "walkStream createMsg readMsg stream = (case stream of
     Err e \<Rightarrow> ([], Some (createMsg @ '': '' @ e), False)
   | Panic \<Rightarrow> ([], None, True)
   | Ok rs \<Rightarrow> readLoop readMsg [] rs)"

text \<open>
  A \<open>sync.Once\<close> with the two fields its function sets.  \<open>Do\<close> counts a panicking function as
  done: the caller that ran it panics, later callers find what was set before.
\<close>

record 'a once =
  oc_Done :: bool
  oc_Rows :: "'a list"
  oc_Err :: "string option"

definition freshOnce :: "'a once" where
  "freshOnce = \<lparr>oc_Done = False, oc_Rows = [], oc_Err = None\<rparr>"

definition onceCall :: "'a walk \<Rightarrow> 'a once \<Rightarrow> ('a list \<times> string option) res \<times> 'a once" where
  "onceCall body cell = (if oc_Done cell then (Ok (oc_Rows cell, oc_Err cell), cell)
     else case body of (rows, err, panicked) \<Rightarrow>
       (if panicked then Panic else Ok (rows, err), \<lparr>oc_Done = True, oc_Rows = rows, oc_Err = err\<rparr>))"

definition transactionsOnce :: "ledger_tx stream \<Rightarrow> ledger_tx once \<Rightarrow> (ledger_tx list \<times> string option) res \<times> ledger_tx once" where
  "transactionsOnce stream = onceCall (walkStream ''create transaction reader'' ''read transaction'' stream)"

definition changesOnce :: "change stream \<Rightarrow> change once \<Rightarrow> (change list \<times> string option) res \<times> change once" where
  "changesOnce stream = onceCall (walkStream ''create change reader'' ''read change'' stream)"

text \<open>
  What the extractors rely on, for any of the caches: the first call does the work and marks the cell, a later one
  returns what the first stored and leaves the cell as it is.
\<close>

locale cached_stream =
  fixes call :: "'a once \<Rightarrow> ('a list \<times> string option) res \<times> 'a once"
  assumes later_call: "oc_Done cell \<Longrightarrow> call cell = (Ok (oc_Rows cell, oc_Err cell), cell)"
    and first_call: "\<not> oc_Done cell \<Longrightarrow> call cell = call freshOnce"
    and call_marks: "oc_Done (snd (call freshOnce))"
    and call_stores: "fst (call freshOnce) \<noteq> Panic \<Longrightarrow>
      fst (call freshOnce) = Ok (oc_Rows (snd (call freshOnce)), oc_Err (snd (call freshOnce)))"
begin

lemma call_done: "oc_Done (snd (call cell))"
  using later_call [of cell] first_call [of cell] call_marks by (cases "oc_Done cell") simp_all

lemma call_again: "call (snd (call cell)) = (Ok (oc_Rows (snd (call cell)), oc_Err (snd (call cell))), snd (call cell))"
  by (rule later_call [OF call_done])

lemma same_call:
  assumes "cell = freshOnce \<or> cell = snd (call freshOnce)" "fst (call freshOnce) \<noteq> Panic"
  shows "fst (call cell) = fst (call freshOnce)" "snd (call cell) = snd (call freshOnce)"
  using assms call_again [of freshOnce] call_stores by auto

end

interpretation cached: cached_stream "onceCall body"
  by unfold_locales (auto simp: onceCall_def freshOnce_def split: prod.splits)

interpretation transactions: cached_stream "transactionsOnce stream"
  unfolding transactionsOnce_def by unfold_locales

interpretation changes: cached_stream "changesOnce stream"
  unfolding changesOnce_def by unfold_locales

text \<open>What a caller goes on with: every one looks at the error first.\<close>

definition callerSees :: "('a list \<times> string option) res \<Rightarrow> 'a list res" where
  "callerSees r = bindR r (\<lambda>(rows, err). case err of Some e \<Rightarrow> Err e | None \<Rightarrow> Ok rows)"

section \<open>Inputs\<close>

text \<open>The SDK on raw bytes: the decoder, the view's accessors and walk, and the two readers.\<close>

record xdr_codec =
  xc_Unmarshal :: "byte list \<Rightarrow> ledger_close_meta res"
  xc_ValidateFull :: "byte list \<Rightarrow> unit res"
  xc_LedgerSequence :: "byte list \<Rightarrow> u32 res"
  xc_LedgerCloseTime :: "byte list \<Rightarrow> i64 res"
  xc_TransactionViews :: "byte list \<Rightarrow> string \<Rightarrow> tx_view list res"
  xc_Transactions :: "string \<Rightarrow> ledger_close_meta \<Rightarrow> ledger_tx stream"
  xc_Changes :: "string \<Rightarrow> ledger_close_meta \<Rightarrow> change stream"

text \<open>
  \<open>LedgerInput\<close> with fresh caches.  The streams of \<^typ>\<open>ledger_input\<close> are what a first call of the
  caches delivers; a run below sets them from the calls it makes.
\<close>

definition openInput :: "xdr_codec \<Rightarrow> ledger_close_meta \<Rightarrow> string \<Rightarrow> ledger_input" where
  "openInput C meta passphrase = newLedgerInput meta passphrase
     (callerSees (fst (transactionsOnce (xc_Transactions C passphrase meta) freshOnce)))
     (callerSees (fst (changesOnce (xc_Changes C passphrase meta) freshOnce)))"

definition newLedgerInputFromXDR :: "xdr_codec \<Rightarrow> byte list \<Rightarrow> string \<Rightarrow> ledger_input res" where
  "newLedgerInputFromXDR C xdrBytes passphrase =
     bindR (wrapErr ''unmarshal LedgerCloseMeta'' (xc_Unmarshal C xdrBytes)) (\<lambda>meta. Ok (openInput C meta passphrase))"

record ledger_view_input =
  vi_NetworkPassphrase :: string
  vi_Sequence :: u32
  vi_ClosedAt :: gotime
  vi_LedgerRange :: u32
  vi_EraID :: "string option"
  vi_View :: "byte list"
  vi_Transactions :: "tx_view once"

definition newLedgerViewInput :: "xdr_codec \<Rightarrow> byte list \<Rightarrow> string \<Rightarrow> ledger_view_input res" where
  "newLedgerViewInput C xdrBytes passphrase =
     bindR (wrapErr ''validate LedgerCloseMeta XDR'' (xc_ValidateFull C xdrBytes)) (\<lambda>u.
     bindR (wrapErr ''read ledger sequence'' (xc_LedgerSequence C xdrBytes)) (\<lambda>seq.
     bindR (wrapErr (''read ledger '' @ udec seq @ '' close time'') (xc_LedgerCloseTime C xdrBytes)) (\<lambda>closeTime.
     Ok \<lparr>vi_NetworkPassphrase = passphrase, vi_Sequence = seq, vi_ClosedAt = sint closeTime,
       vi_LedgerRange = (seq div 10000) * 10000, vi_EraID = None, vi_View = xdrBytes, vi_Transactions = freshOnce\<rparr>)))"

text \<open>\<open>Decode\<close>: the ledger columns are those of the view.\<close>

definition decodeView :: "xdr_codec \<Rightarrow> ledger_view_input \<Rightarrow> ledger_input res" where
  "decodeView C vi =
     bindR (wrapErr ''unmarshal LedgerCloseMeta'' (xc_Unmarshal C (vi_View vi))) (\<lambda>meta.
     Ok ((openInput C meta (vi_NetworkPassphrase vi))\<lparr>in_Sequence := vi_Sequence vi, in_ClosedAt := vi_ClosedAt vi,
       in_LedgerRange := vi_LedgerRange vi, in_EraID := vi_EraID vi\<rparr>))"

definition transactionViews :: "xdr_codec \<Rightarrow> ledger_view_input \<Rightarrow> (tx_view list \<times> string option) res \<times> ledger_view_input" where
  "transactionViews C vi =
     (case onceCall (case xc_TransactionViews C (vi_View vi) (vi_NetworkPassphrase vi) of
          Ok vs \<Rightarrow> (vs, None, False) | Err e \<Rightarrow> ([], Some e, False) | Panic \<Rightarrow> ([], None, True)) (vi_Transactions vi) of
      (r, cell) \<Rightarrow> (r, vi\<lparr>vi_Transactions := cell\<rparr>))"

section \<open>The tables\<close>

datatype table =
    TLedgers | TTransactions | TOperations | TEffects | TTrades | TAccounts | TTrustlines | TAccountSigners | TOffers
  | TClaimableBalances | TLiquidityPools | TConfigSettings | TTtl | TNativeBalances | TContractEvents | TContractData
  | TContractCode | TContractCreations | TTokenTransfers | TEvictedKeys | TRestoredKeys

text \<open>In the order \<open>ExtractAll\<close> starts them.\<close>

definition launchOrder :: "table list" where
  "launchOrder = [TLedgers, TTransactions, TOperations, TEffects, TTrades, TAccounts, TTrustlines, TAccountSigners,
     TOffers, TClaimableBalances, TLiquidityPools, TConfigSettings, TTtl, TNativeBalances, TContractEvents,
     TContractData, TContractCode, TContractCreations, TTokenTransfers, TEvictedKeys, TRestoredKeys]"

text \<open>The tables are finitely many: \<open>launchOrder\<close> lists each once.\<close>

instantiation table :: enum
begin

definition enum_table :: "table list" where
  "enum_table = launchOrder"

definition enum_all_table :: "(table \<Rightarrow> bool) \<Rightarrow> bool" where
  "enum_all_table P \<longleftrightarrow> list_all P launchOrder"

definition enum_ex_table :: "(table \<Rightarrow> bool) \<Rightarrow> bool" where
  "enum_ex_table P \<longleftrightarrow> list_ex P launchOrder"

instance
proof
  show univ: "(UNIV :: table set) = set enum_class.enum"
  proof (intro set_eqI iffI UNIV_I)
    fix t :: table show "t \<in> set enum_class.enum" by (cases t) (simp_all add: enum_table_def launchOrder_def)
  qed
  show "distinct (enum_class.enum :: table list)" by (simp add: enum_table_def launchOrder_def)
  show "enum_class.enum_all P \<longleftrightarrow> Ball UNIV P" "enum_class.enum_ex P \<longleftrightarrow> Bex UNIV P" for P :: "table \<Rightarrow> bool"
    by (simp_all add: enum_all_table_def enum_ex_table_def list_all_iff list_ex_iff univ enum_table_def)
qed

end

fun tableName :: "table \<Rightarrow> string" where
  "tableName TLedgers = ''ledgers''" | "tableName TTransactions = ''transactions''"
| "tableName TOperations = ''operations''" | "tableName TEffects = ''effects''"
| "tableName TTrades = ''trades''" | "tableName TAccounts = ''accounts''"
| "tableName TTrustlines = ''trustlines''" | "tableName TAccountSigners = ''account_signers''"
| "tableName TOffers = ''offers''" | "tableName TClaimableBalances = ''claimable_balances''"
| "tableName TLiquidityPools = ''liquidity_pools''" | "tableName TConfigSettings = ''config_settings''"
| "tableName TTtl = ''ttl''" | "tableName TNativeBalances = ''native_balances''"
| "tableName TContractEvents = ''contract_events''" | "tableName TContractData = ''contract_data''"
| "tableName TContractCode = ''contract_code''" | "tableName TContractCreations = ''contract_creations''"
| "tableName TTokenTransfers = ''token_transfers''" | "tableName TEvictedKeys = ''evicted_keys''"
| "tableName TRestoredKeys = ''restored_keys''"

text \<open>The stream an extractor calls, once, before anything else; three read the ledger itself.\<close>

datatype source = FromTransactions | FromChanges | FromLedger

fun tableSource :: "table \<Rightarrow> source" where
  "tableSource TTransactions = FromTransactions" | "tableSource TOperations = FromTransactions"
| "tableSource TEffects = FromTransactions" | "tableSource TTrades = FromTransactions"
| "tableSource TTtl = FromTransactions" | "tableSource TContractEvents = FromTransactions"
| "tableSource TContractCreations = FromTransactions"
| "tableSource TLedgers = FromLedger" | "tableSource TTokenTransfers = FromLedger"
| "tableSource TEvictedKeys = FromLedger"
| "tableSource t = FromChanges"

record 'f ledger_data =
  dt_Ledgers :: "ledger_row list"
  dt_Transactions :: "transaction_data list"
  dt_Operations :: "operation_data list"
  dt_Effects :: "effect_data list"
  dt_Trades :: "trade_data list"
  dt_Accounts :: "account_data list"
  dt_Offers :: "offer_data list"
  dt_Trustlines :: "trustline_data list"
  dt_AccountSigners :: "account_signer_data list"
  dt_ClaimableBalances :: "claimable_balance_data list"
  dt_LiquidityPools :: "pool_data list"
  dt_ConfigSettings :: "config_setting_data list"
  dt_TTLEntries :: "ttl_data list"
  dt_NativeBalances :: "native_balance_data list"
  dt_ContractEvents :: "contract_event_data list"
  dt_ContractData :: "contract_data_row list"
  dt_ContractCode :: "contract_code_row list"
  dt_ContractCreations :: "contract_creation list"
  dt_TokenTransfers :: "'f token_transfer_data list"
  dt_EvictedKeys :: "evicted_key_data list"
  dt_RestoredKeys :: "restored_key_data list"

definition emptyData :: "'f ledger_data" where
  "emptyData = \<lparr>dt_Ledgers = [], dt_Transactions = [], dt_Operations = [], dt_Effects = [], dt_Trades = [],
     dt_Accounts = [], dt_Offers = [], dt_Trustlines = [], dt_AccountSigners = [], dt_ClaimableBalances = [],
     dt_LiquidityPools = [], dt_ConfigSettings = [], dt_TTLEntries = [], dt_NativeBalances = [],
     dt_ContractEvents = [], dt_ContractData = [], dt_ContractCode = [], dt_ContractCreations = [],
     dt_TokenTransfers = [], dt_EvictedKeys = [], dt_RestoredKeys = []\<rparr>"

text \<open>The rows of one table, and the assignment that stores them.\<close>

datatype 'f table_rows =
    RLedgers "ledger_row list" | RTransactions "transaction_data list" | ROperations "operation_data list"
  | REffects "effect_data list" | RTrades "trade_data list" | RAccounts "account_data list"
  | RTrustlines "trustline_data list" | RAccountSigners "account_signer_data list" | ROffers "offer_data list"
  | RClaimableBalances "claimable_balance_data list" | RLiquidityPools "pool_data list"
  | RConfigSettings "config_setting_data list" | RTtl "ttl_data list" | RNativeBalances "native_balance_data list"
  | RContractEvents "contract_event_data list" | RContractData "contract_data_row list"
  | RContractCode "contract_code_row list" | RContractCreations "contract_creation list"
  | RTokenTransfers "'f token_transfer_data list" | REvictedKeys "evicted_key_data list"
  | RRestoredKeys "restored_key_data list"

fun setRows :: "'f table_rows \<Rightarrow> 'f ledger_data \<Rightarrow> 'f ledger_data" where
  "setRows (RLedgers rows) d = d\<lparr>dt_Ledgers := rows\<rparr>"
| "setRows (RTransactions rows) d = d\<lparr>dt_Transactions := rows\<rparr>"
| "setRows (ROperations rows) d = d\<lparr>dt_Operations := rows\<rparr>"
| "setRows (REffects rows) d = d\<lparr>dt_Effects := rows\<rparr>"
| "setRows (RTrades rows) d = d\<lparr>dt_Trades := rows\<rparr>"
| "setRows (RAccounts rows) d = d\<lparr>dt_Accounts := rows\<rparr>"
| "setRows (RTrustlines rows) d = d\<lparr>dt_Trustlines := rows\<rparr>"
| "setRows (RAccountSigners rows) d = d\<lparr>dt_AccountSigners := rows\<rparr>"
| "setRows (ROffers rows) d = d\<lparr>dt_Offers := rows\<rparr>"
| "setRows (RClaimableBalances rows) d = d\<lparr>dt_ClaimableBalances := rows\<rparr>"
| "setRows (RLiquidityPools rows) d = d\<lparr>dt_LiquidityPools := rows\<rparr>"
| "setRows (RConfigSettings rows) d = d\<lparr>dt_ConfigSettings := rows\<rparr>"
| "setRows (RTtl rows) d = d\<lparr>dt_TTLEntries := rows\<rparr>"
| "setRows (RNativeBalances rows) d = d\<lparr>dt_NativeBalances := rows\<rparr>"
| "setRows (RContractEvents rows) d = d\<lparr>dt_ContractEvents := rows\<rparr>"
| "setRows (RContractData rows) d = d\<lparr>dt_ContractData := rows\<rparr>"
| "setRows (RContractCode rows) d = d\<lparr>dt_ContractCode := rows\<rparr>"
| "setRows (RContractCreations rows) d = d\<lparr>dt_ContractCreations := rows\<rparr>"
| "setRows (RTokenTransfers rows) d = d\<lparr>dt_TokenTransfers := rows\<rparr>"
| "setRows (REvictedKeys rows) d = d\<lparr>dt_EvictedKeys := rows\<rparr>"
| "setRows (RRestoredKeys rows) d = d\<lparr>dt_RestoredKeys := rows\<rparr>"

text \<open>The table read back.\<close>

fun getRows :: "table \<Rightarrow> 'f ledger_data \<Rightarrow> 'f table_rows" where
  "getRows TLedgers d = RLedgers (dt_Ledgers d)"
| "getRows TTransactions d = RTransactions (dt_Transactions d)"
| "getRows TOperations d = ROperations (dt_Operations d)"
| "getRows TEffects d = REffects (dt_Effects d)"
| "getRows TTrades d = RTrades (dt_Trades d)"
| "getRows TAccounts d = RAccounts (dt_Accounts d)"
| "getRows TTrustlines d = RTrustlines (dt_Trustlines d)"
| "getRows TAccountSigners d = RAccountSigners (dt_AccountSigners d)"
| "getRows TOffers d = ROffers (dt_Offers d)"
| "getRows TClaimableBalances d = RClaimableBalances (dt_ClaimableBalances d)"
| "getRows TLiquidityPools d = RLiquidityPools (dt_LiquidityPools d)"
| "getRows TConfigSettings d = RConfigSettings (dt_ConfigSettings d)"
| "getRows TTtl d = RTtl (dt_TTLEntries d)"
| "getRows TNativeBalances d = RNativeBalances (dt_NativeBalances d)"
| "getRows TContractEvents d = RContractEvents (dt_ContractEvents d)"
| "getRows TContractData d = RContractData (dt_ContractData d)"
| "getRows TContractCode d = RContractCode (dt_ContractCode d)"
| "getRows TContractCreations d = RContractCreations (dt_ContractCreations d)"
| "getRows TTokenTransfers d = RTokenTransfers (dt_TokenTransfers d)"
| "getRows TEvictedKeys d = REvictedKeys (dt_EvictedKeys d)"
| "getRows TRestoredKeys d = RRestoredKeys (dt_RestoredKeys d)"

text \<open>
  What the extractors take beside the input: the SDK, the version string, the clock as each of them reads it, the
  token events the SDK finds in a ledger, and the float parser.
\<close>

record 'f extract_env =
  xe_Sdk :: sdk
  xe_Version :: string
  xe_Clock :: "table \<Rightarrow> nat \<Rightarrow> gotime"
  xe_Clock2 :: "table \<Rightarrow> nat \<Rightarrow> nat \<Rightarrow> gotime"
  xe_EventClock :: "nat \<Rightarrow> u32 \<Rightarrow> gotime"
  xe_TokenEvents :: "string \<Rightarrow> ledger_close_meta \<Rightarrow> token_event list res"
  xe_ToFloat :: "string \<Rightarrow> 'f"

text \<open>
  The extractor of a table.  The skip counter of the call graph is a metric of the process and not part of the
  result.
\<close>

fun extractTable :: "'f extract_env \<Rightarrow> table \<Rightarrow> ledger_input \<Rightarrow> 'f table_rows res" where
  "extractTable X TLedgers input = mapR RLedgers (extractLedgers (xe_Version X) (xe_Clock X TLedgers 0) input)"
| "extractTable X TTransactions input = mapR RTransactions (extractTransactions (xe_Sdk X) input)"
| "extractTable X TOperations input = mapR (\<lambda>(rows, skipped). ROperations rows) (extractOperations (xe_Sdk X) input 0)"
| "extractTable X TEffects input = mapR REffects (extractEffects (xe_Sdk X) input)"
| "extractTable X TTrades input = mapR RTrades (extractTrades (xe_Sdk X) input)"
| "extractTable X TAccounts input = mapR RAccounts (extractAccounts (xe_Sdk X) (xe_Clock X TAccounts) input)"
| "extractTable X TTrustlines input = mapR RTrustlines (extractTrustlines (xe_Sdk X) (xe_Clock X TTrustlines) input)"
| "extractTable X TAccountSigners input =
     mapR RAccountSigners (extractAccountSigners (xe_Sdk X) (xe_Clock2 X TAccountSigners) input)"
| "extractTable X TOffers input = mapR ROffers (extractOffers (xe_Sdk X) (xe_Clock X TOffers) input)"
| "extractTable X TClaimableBalances input =
     mapR RClaimableBalances (extractClaimableBalances (xe_Sdk X) (xe_Clock X TClaimableBalances) input)"
| "extractTable X TLiquidityPools input =
     mapR RLiquidityPools (extractLiquidityPools (xe_Sdk X) (xe_Clock X TLiquidityPools) input)"
| "extractTable X TConfigSettings input =
     mapR RConfigSettings (extractConfigSettings (xe_Sdk X) (xe_Clock X TConfigSettings) input)"
| "extractTable X TTtl input = mapR RTtl (extractTTL (xe_Sdk X) (xe_Clock2 X TTtl) input)"
| "extractTable X TNativeBalances input = mapR RNativeBalances (extractNativeBalances (xe_Sdk X) input)"
| "extractTable X TContractEvents input =
     mapR RContractEvents (extractContractEvents (xe_Sdk X) (xe_EventClock X) input)"
| "extractTable X TContractData input =
     mapR RContractData (extractContractData (xe_Sdk X) (xe_Clock X TContractData) input)"
| "extractTable X TContractCode input =
     mapR RContractCode (extractContractCode (xe_Sdk X) (xe_Clock X TContractCode) input)"
| "extractTable X TContractCreations input = mapR RContractCreations (extractContractCreations (xe_Sdk X) input)"
| "extractTable X TTokenTransfers input = mapR RTokenTransfers (extractTokenTransfers (xe_Sdk X) (xe_ToFloat X)
     (xe_Clock X TTokenTransfers) input (xe_TokenEvents X (in_NetworkPassphrase input) (in_LCM input)))"
| "extractTable X TEvictedKeys input = mapR REvictedKeys (extractEvictedKeys (xe_Sdk X) (xe_Clock X TEvictedKeys) input)"
| "extractTable X TRestoredKeys input = mapR RRestoredKeys (extractRestoredKeys (xe_Sdk X) (xe_Clock X TRestoredKeys) input)"

section \<open>ExtractAll\<close>

text \<open>The errors: a returned error with its text, or a recovered panic, whose value the model does not keep.\<close>

datatype extract_error = TableError table string | TablePanic table | InputError string

definition errorPrefix :: "extract_error \<Rightarrow> string" where
  "errorPrefix e = (case e of TableError t msg \<Rightarrow> tableName t @ '': '' @ msg
     | TablePanic t \<Rightarrow> ''panic in '' @ tableName t @ '': '' | InputError msg \<Rightarrow> msg)"

text \<open>A goroutine: started, holding what its stream call delivered, or done.\<close>

datatype phase = Started | Holding ledger_input | Done

record 'f run_state =
  rs_Transactions :: "ledger_tx once"
  rs_Changes :: "change once"
  rs_Data :: "'f ledger_data"
  rs_Errs :: "extract_error list"
  rs_Phase :: "table \<Rightarrow> phase"

record sources =
  sr_Transactions :: "ledger_tx stream"
  sr_Changes :: "change stream"

definition startState :: "'f run_state" where
  "startState = \<lparr>rs_Transactions = freshOnce, rs_Changes = freshOnce, rs_Data = emptyData, rs_Errs = [],
     rs_Phase = (\<lambda>t. Started)\<rparr>"

text \<open>The call of the stream.\<close>

definition fetchStep :: "sources \<Rightarrow> ledger_input \<Rightarrow> table \<Rightarrow> 'f run_state \<Rightarrow> 'f run_state" where
  "fetchStep S input t s = (case tableSource t of
     FromTransactions \<Rightarrow> (case transactionsOnce (sr_Transactions S) (rs_Transactions s) of (r, cell) \<Rightarrow>
       s\<lparr>rs_Transactions := cell, rs_Phase := (rs_Phase s)(t := Holding (input\<lparr>in_Transactions := callerSees r\<rparr>))\<rparr>)
   | FromChanges \<Rightarrow> (case changesOnce (sr_Changes S) (rs_Changes s) of (r, cell) \<Rightarrow>
       s\<lparr>rs_Changes := cell, rs_Phase := (rs_Phase s)(t := Holding (input\<lparr>in_Changes := callerSees r\<rparr>))\<rparr>)
   | FromLedger \<Rightarrow> s\<lparr>rs_Phase := (rs_Phase s)(t := Holding input)\<rparr>)"

text \<open>The end of an extractor: its rows are stored, or its error or its panic is recorded.\<close>

definition finishStep :: "'f extract_env \<Rightarrow> ledger_input \<Rightarrow> table \<Rightarrow> 'f run_state \<Rightarrow> 'f run_state" where
  "finishStep X input t s = (let s' = s\<lparr>rs_Phase := (rs_Phase s)(t := Done)\<rparr> in case extractTable X t input of
     Ok rows \<Rightarrow> s'\<lparr>rs_Data := setRows rows (rs_Data s)\<rparr>
   | Err e \<Rightarrow> s'\<lparr>rs_Errs := rs_Errs s @ [TableError t e]\<rparr>
   | Panic \<Rightarrow> s'\<lparr>rs_Errs := rs_Errs s @ [TablePanic t]\<rparr>)"

inductive runStep :: "'f extract_env \<Rightarrow> sources \<Rightarrow> ledger_input \<Rightarrow> 'f run_state \<Rightarrow> 'f run_state \<Rightarrow> bool"
  for X :: "'f extract_env" and S :: sources and input :: ledger_input where
  fetch: "rs_Phase s t = Started \<Longrightarrow> runStep X S input s (fetchStep S input t s)"
| finish: "rs_Phase s t = Holding held \<Longrightarrow> runStep X S input s (finishStep X held t s)"

text \<open>\<open>wg.Wait\<close> returns when every goroutine is done.\<close>

definition finished :: "'f run_state \<Rightarrow> bool" where
  "finished s \<longleftrightarrow> (\<forall>t \<in> set launchOrder. rs_Phase s t = Done)"

definition completeRun :: "'f extract_env \<Rightarrow> sources \<Rightarrow> ledger_input \<Rightarrow> 'f run_state \<Rightarrow> bool" where
  "completeRun X S input s \<longleftrightarrow> (runStep X S input)\<^sup>*\<^sup>* startState s \<and> finished s"

text \<open>
  One schedule: each table of a list takes its next step.  \<open>extractAll\<close> runs a schedule to its end and
  returns the data and the errors; none while a goroutine is left.
\<close>

definition advance :: "'f extract_env \<Rightarrow> sources \<Rightarrow> ledger_input \<Rightarrow> table \<Rightarrow> 'f run_state \<Rightarrow> 'f run_state" where
  "advance X S input t s = (case rs_Phase s t of
     Started \<Rightarrow> fetchStep S input t s | Holding held \<Rightarrow> finishStep X held t s | Done \<Rightarrow> s)"

definition extractAll ::
    "'f extract_env \<Rightarrow> sources \<Rightarrow> ledger_input \<Rightarrow> table list \<Rightarrow> ('f ledger_data \<times> extract_error list) option" where
  "extractAll X S input schedule = (let s = fold (advance X S input) schedule startState in
     if finished s then Some (rs_Data s, rs_Errs s) else None)"

text \<open>Every goroutine to its end before the next.\<close>

definition sequentialSchedule :: "table list" where
  "sequentialSchedule = concat (map (\<lambda>t. [t, t]) launchOrder)"

definition streamsOf :: "xdr_codec \<Rightarrow> string \<Rightarrow> ledger_close_meta \<Rightarrow> sources" where
  "streamsOf C passphrase meta = \<lparr>sr_Transactions = xc_Transactions C passphrase meta,
     sr_Changes = xc_Changes C passphrase meta\<rparr>"

definition extractInput ::
    "'f extract_env \<Rightarrow> xdr_codec \<Rightarrow> table list \<Rightarrow> ledger_input res \<Rightarrow> ('f ledger_data \<times> extract_error list) option" where
  "extractInput X C schedule r = (case r of
     Ok input \<Rightarrow> extractAll X (streamsOf C (in_NetworkPassphrase input) (in_LCM input)) input schedule
   | Err e \<Rightarrow> Some (emptyData, [InputError e])
   | Panic \<Rightarrow> None)"

definition extractAllFromXDR ::
    "'f extract_env \<Rightarrow> xdr_codec \<Rightarrow> table list \<Rightarrow> byte list \<Rightarrow> string \<Rightarrow> ('f ledger_data \<times> extract_error list) option" where
  "extractAllFromXDR X C schedule xdrBytes passphrase =
     extractInput X C schedule (newLedgerInputFromXDR C xdrBytes passphrase)"

definition extractAllView ::
    "'f extract_env \<Rightarrow> xdr_codec \<Rightarrow> table list \<Rightarrow> ledger_view_input \<Rightarrow> ('f ledger_data \<times> extract_error list) option" where
  "extractAllView X C schedule vi = extractInput X C schedule (decodeView C vi)"

end
