(* ===== verification/ExtractFacts.thy ===== *)
theory ExtractFacts
  imports Extract
begin

text \<open>
  Runs of \<open>ExtractAll\<close> with two-step goroutines: each run can be finished; without a panic of a reader the result
  does not depend on the order of the goroutines and is that of the extractors run one by one; what a panic of a
  reader does to the other tables; and the entry points from raw XDR and from a view.
\<close>

section \<open>A run of \<open>ExtractAll\<close>\<close>

lemma all_tables [simp]: "t \<in> set launchOrder"
  by (simp add: enum_UNIV flip: enum_table_def)

lemma distinct_launchOrder [simp]: "distinct launchOrder"
  using enum_distinct [where 'a = table] by (simp add: enum_table_def)

inductive_cases runStepE: "runStep X S input s s'"

lemma runStep_advance: "runStep X S input s s' \<longleftrightarrow> (\<exists>t. rs_Phase s t \<noteq> Done \<and> s' = advance X S input t s)"
proof
  assume "runStep X S input s s'"
  then show "\<exists>t. rs_Phase s t \<noteq> Done \<and> s' = advance X S input t s"
  proof (rule runStepE)
    fix t assume "s' = fetchStep S input t s" "rs_Phase s t = Started"
    then show ?thesis by (intro exI [of _ t]) (simp add: advance_def)
  next
    fix t held assume "s' = finishStep X held t s" "rs_Phase s t = Holding held"
    then show ?thesis by (intro exI [of _ t]) (simp add: advance_def)
  qed
next
  assume "\<exists>t. rs_Phase s t \<noteq> Done \<and> s' = advance X S input t s"
  then obtain t where "rs_Phase s t \<noteq> Done" "s' = advance X S input t s" by blast
  then show "runStep X S input s s'"
    by (cases "rs_Phase s t") (auto simp: advance_def intro: runStep.intros)
qed

text \<open>The table read back after a write is the one written, or the old one.\<close>

fun rowsTable :: "'f table_rows \<Rightarrow> table" where
  "rowsTable (RLedgers r) = TLedgers" | "rowsTable (RTransactions r) = TTransactions"
| "rowsTable (ROperations r) = TOperations" | "rowsTable (REffects r) = TEffects"
| "rowsTable (RTrades r) = TTrades" | "rowsTable (RAccounts r) = TAccounts"
| "rowsTable (RTrustlines r) = TTrustlines" | "rowsTable (RAccountSigners r) = TAccountSigners"
| "rowsTable (ROffers r) = TOffers" | "rowsTable (RClaimableBalances r) = TClaimableBalances"
| "rowsTable (RLiquidityPools r) = TLiquidityPools" | "rowsTable (RConfigSettings r) = TConfigSettings"
| "rowsTable (RTtl r) = TTtl" | "rowsTable (RNativeBalances r) = TNativeBalances"
| "rowsTable (RContractEvents r) = TContractEvents" | "rowsTable (RContractData r) = TContractData"
| "rowsTable (RContractCode r) = TContractCode" | "rowsTable (RContractCreations r) = TContractCreations"
| "rowsTable (RTokenTransfers r) = TTokenTransfers" | "rowsTable (REvictedKeys r) = TEvictedKeys"
| "rowsTable (RRestoredKeys r) = TRestoredKeys"

lemma getRows_setRows: "getRows t (setRows r d) = (if rowsTable r = t then r else getRows t d)"
  by (cases r; cases t; simp)

lemma extractTable_rowsTable: "extractTable X t input = Ok r \<Longrightarrow> rowsTable r = t"
  by (cases t) (auto simp: mapR_Ok_iff split: prod.splits)

lemma ledger_data_eqI:
  fixes d d' :: "'f ledger_data"
  assumes "\<And>t. getRows t d = getRows t d'"
  shows "d = d'"
  using assms [of TLedgers] assms [of TTransactions] assms [of TOperations] assms [of TEffects] assms [of TTrades]
    assms [of TAccounts] assms [of TTrustlines] assms [of TAccountSigners] assms [of TOffers]
    assms [of TClaimableBalances] assms [of TLiquidityPools] assms [of TConfigSettings] assms [of TTtl]
    assms [of TNativeBalances] assms [of TContractEvents] assms [of TContractData] assms [of TContractCode]
    assms [of TContractCreations] assms [of TTokenTransfers] assms [of TEvictedKeys] assms [of TRestoredKeys]
  by (cases d; cases d'; simp)

text \<open>What a table contributes: its rows, or none and an error.\<close>

definition tableRows :: "'f extract_env \<Rightarrow> ledger_input \<Rightarrow> table \<Rightarrow> 'f table_rows" where
  "tableRows X input t = (case extractTable X t input of Ok r \<Rightarrow> r | _ \<Rightarrow> getRows t emptyData)"

definition tableErrors :: "'f extract_env \<Rightarrow> ledger_input \<Rightarrow> table \<Rightarrow> extract_error list" where
  "tableErrors X input t = (case extractTable X t input of
     Ok r \<Rightarrow> [] | Err e \<Rightarrow> [TableError t e] | Panic \<Rightarrow> [TablePanic t])"

lemma finishStep_simps [simp]:
  "rs_Phase (finishStep X input t s) = (rs_Phase s)(t := Done)"
  "rs_Transactions (finishStep X input t s) = rs_Transactions s"
  "rs_Changes (finishStep X input t s) = rs_Changes s"
  "rs_Errs (finishStep X input t s) = rs_Errs s @ tableErrors X input t"
  by (simp_all add: finishStep_def Let_def tableErrors_def split: res.split)

lemma finishStep_rows:
  "getRows t' (rs_Data s) = getRows t' emptyData \<or> t \<noteq> t' \<Longrightarrow>
   getRows t' (rs_Data (finishStep X input t s)) = (if t = t' then tableRows X input t else getRows t' (rs_Data s))"
  by (auto simp: finishStep_def Let_def tableRows_def getRows_setRows extractTable_rowsTable split: res.split)

lemma fetchStep_simps [simp]:
  "rs_Data (fetchStep S input t s) = rs_Data s" "rs_Errs (fetchStep S input t s) = rs_Errs s"
  by (simp_all add: fetchStep_def split: source.split prod.split)

lemma fetchStep_phase: "\<exists>held. rs_Phase (fetchStep S input t s) = (rs_Phase s)(t := Holding held)"
  by (auto simp: fetchStep_def split: source.split prod.split)

section \<open>The steps left\<close>

text \<open>The steps left: two for each table started, one for each that holds its input.\<close>

definition phaseWork :: "phase \<Rightarrow> nat" where
  "phaseWork p = (case p of Started \<Rightarrow> 2 | Holding h \<Rightarrow> 1 | Done \<Rightarrow> 0)"

definition workLeft :: "'f run_state \<Rightarrow> nat" where
  "workLeft s = sum_list (map (\<lambda>t. phaseWork (rs_Phase s t)) launchOrder)"

lemma sum_list_update_one:
  fixes f g :: "'a \<Rightarrow> nat"
  assumes "distinct xs" "t \<in> set xs" "\<And>x. x \<noteq> t \<Longrightarrow> g x = f x" "f t = g t + 1"
  shows "sum_list (map f xs) = sum_list (map g xs) + 1"
  using assms(1,2)
proof (induction xs)
  case (Cons x xs)
  show ?case
  proof (cases "x = t")
    case True
    have same: "map f xs = map g xs"
    proof (rule map_cong [OF refl])
      fix y assume "y \<in> set xs"
      then have "y \<noteq> t" using Cons.prems(1) True by auto
      then show "f y = g y" using assms(3) by simp
    qed
    show ?thesis unfolding True list.map sum_list.Cons same assms(4) by simp
  next
    case False
    then show ?thesis using Cons assms(3) by simp
  qed
qed simp

lemma runStep_work:
  assumes "runStep X S input s s'"
  shows "workLeft s = workLeft s' + 1"
proof -
  have "\<exists>t. (\<forall>t'. t' \<noteq> t \<longrightarrow> rs_Phase s' t' = rs_Phase s t') \<and> phaseWork (rs_Phase s t) = phaseWork (rs_Phase s' t) + 1"
    using assms
  proof cases
    case (fetch t)
    with fetchStep_phase [of S input t s] show ?thesis by (auto simp: phaseWork_def)
  next
    case (finish t held)
    then show ?thesis by (auto simp: phaseWork_def)
  qed
  then obtain t where "\<And>t'. t' \<noteq> t \<Longrightarrow> rs_Phase s' t' = rs_Phase s t'"
    "phaseWork (rs_Phase s t) = phaseWork (rs_Phase s' t) + 1" by blast
  then show ?thesis unfolding workLeft_def by (intro sum_list_update_one [where t = t]) auto
qed

lemma run_work: "(runStep X S input ^^ n) s s' \<Longrightarrow> workLeft s = workLeft s' + n"
  by (induction n arbitrary: s') (auto dest!: runStep_work)

lemma finished_iff_work: "finished s \<longleftrightarrow> workLeft s = 0"
proof -
  have "phaseWork p = 0 \<longleftrightarrow> p = Done" for p by (cases p) (simp_all add: phaseWork_def)
  then show ?thesis by (simp add: finished_def workLeft_def)
qed

lemma finished_iff_stuck: "finished s \<longleftrightarrow> (\<nexists>s'. runStep X S input s s')"
  by (auto simp: runStep_advance finished_def)

lemma run_completes: "\<exists>s'. (runStep X S input)\<^sup>*\<^sup>* s s' \<and> finished s'"
proof (induction "workLeft s" arbitrary: s rule: less_induct)
  case less
  show ?case
  proof (cases "finished s")
    case False
    then obtain s1 where step: "runStep X S input s s1" unfolding finished_iff_stuck [of s X S input] by blast
    with runStep_work [OF step] less obtain s' where "(runStep X S input)\<^sup>*\<^sup>* s1 s'" "finished s'" by fastforce
    with step show ?thesis by (meson converse_rtranclp_into_rtranclp)
  qed blast
qed

section \<open>The result does not depend on the order\<close>

text \<open>
  An input whose streams are what a fresh call of the caches on these readers delivers (\<open>openInput\<close> makes one),
  without a panic of a reader.
\<close>

definition streamsMatch :: "sources \<Rightarrow> ledger_input \<Rightarrow> bool" where
  "streamsMatch S input \<longleftrightarrow>
     in_Transactions input = callerSees (fst (transactionsOnce (sr_Transactions S) freshOnce))
     \<and> in_Changes input = callerSees (fst (changesOnce (sr_Changes S) freshOnce))
     \<and> fst (transactionsOnce (sr_Transactions S) freshOnce) \<noteq> Panic
     \<and> fst (changesOnce (sr_Changes S) freshOnce) \<noteq> Panic"

text \<open>A cell that is untouched, or as the first call leaves it; a call then delivers what the first delivers.\<close>

definition onceOk :: "('a once \<Rightarrow> ('a list \<times> string option) res \<times> 'a once) \<Rightarrow> 'a once \<Rightarrow> bool" where
  "onceOk call cell \<longleftrightarrow> cell = freshOnce \<or> cell = snd (call freshOnce)"

lemma mset_concat_update:
  assumes "distinct xs" "t \<in> set xs" "\<And>x. x \<noteq> t \<Longrightarrow> g x = f x" "f t = []"
  shows "mset (concat (map g xs)) = mset (concat (map f xs)) + mset (g t)"
  using assms(1,2)
proof (induction xs)
  case (Cons x xs)
  show ?case
  proof (cases "x = t")
    case True
    have same: "map g xs = map f xs"
    proof (rule map_cong [OF refl])
      fix y assume "y \<in> set xs"
      then have "y \<noteq> t" using Cons.prems(1) True by auto
      then show "g y = f y" by (rule assms(3))
    qed
    show ?thesis unfolding True list.map concat.simps same assms(4) by simp
  next
    case False
    then show ?thesis using Cons assms(3) by simp
  qed
qed simp

definition doneErrors :: "'f extract_env \<Rightarrow> ledger_input \<Rightarrow> (table \<Rightarrow> phase) \<Rightarrow> extract_error list" where
  "doneErrors X input ph = concat (map (\<lambda>t. if ph t = Done then tableErrors X input t else []) launchOrder)"

definition runInv :: "'f extract_env \<Rightarrow> sources \<Rightarrow> ledger_input \<Rightarrow> 'f run_state \<Rightarrow> bool" where
  "runInv X S input s \<longleftrightarrow>
     onceOk (transactionsOnce (sr_Transactions S)) (rs_Transactions s)
     \<and> onceOk (changesOnce (sr_Changes S)) (rs_Changes s)
     \<and> (\<forall>t held. rs_Phase s t = Holding held \<longrightarrow> held = input)
     \<and> (\<forall>t. getRows t (rs_Data s) = (if rs_Phase s t = Done then tableRows X input t else getRows t emptyData))
     \<and> mset (rs_Errs s) = mset (doneErrors X input (rs_Phase s))"

lemma runInv_start: "runInv X S input startState"
  by (simp add: runInv_def startState_def onceOk_def doneErrors_def)

lemma input_same [simp]:
  "input\<lparr>in_Transactions := in_Transactions input\<rparr> = input" "input\<lparr>in_Changes := in_Changes input\<rparr> = (input :: ledger_input)"
  by simp_all

lemma fetchStep_unfold:
  "fetchStep S input t s = (case tableSource t of
     FromTransactions \<Rightarrow> s\<lparr>rs_Transactions := snd (transactionsOnce (sr_Transactions S) (rs_Transactions s)), rs_Phase := (rs_Phase s)
       (t := Holding (input\<lparr>in_Transactions := callerSees (fst (transactionsOnce (sr_Transactions S) (rs_Transactions s)))\<rparr>))\<rparr>
   | FromChanges \<Rightarrow> s\<lparr>rs_Changes := snd (changesOnce (sr_Changes S) (rs_Changes s)), rs_Phase := (rs_Phase s)
       (t := Holding (input\<lparr>in_Changes := callerSees (fst (changesOnce (sr_Changes S) (rs_Changes s)))\<rparr>))\<rparr>
   | FromLedger \<Rightarrow> s\<lparr>rs_Phase := (rs_Phase s)(t := Holding input)\<rparr>)"
  by (cases "tableSource t") (simp_all add: fetchStep_def case_prod_unfold)

lemma runInv_fetch:
  assumes "streamsMatch S input" "runInv X S input s" "rs_Phase s t = Started"
  shows "runInv X S input (fetchStep S input t s)"
proof -
  let ?s = "fetchStep S input t s"
  let ?tx = "transactionsOnce (sr_Transactions S)" and ?ch = "changesOnce (sr_Changes S)"
  from assms(2) have ok: "onceOk ?tx (rs_Transactions s)" "onceOk ?ch (rs_Changes s)" by (simp_all add: runInv_def)
  from assms(1) have np: "fst (?tx freshOnce) \<noteq> Panic" "fst (?ch freshOnce) \<noteq> Panic"
    and ins: "callerSees (fst (?tx freshOnce)) = in_Transactions input" "callerSees (fst (?ch freshOnce)) = in_Changes input"
    by (simp_all add: streamsMatch_def)
  note tx = transactions.same_call [OF ok(1) [unfolded onceOk_def] np(1)]
    and ch = changes.same_call [OF ok(2) [unfolded onceOk_def] np(2)]
  have phase: "rs_Phase ?s = (rs_Phase s)(t := Holding input)"
    by (simp add: fetchStep_unfold tx(1) ch(1) ins split: source.split)
  have cells: "onceOk ?tx (rs_Transactions ?s)" "onceOk ?ch (rs_Changes ?s)"
    using ok by (simp_all add: fetchStep_unfold tx(2) ch(2) onceOk_def split: source.split)
  have "(if rs_Phase ?s x = Done then tableErrors X input x else []) = (if rs_Phase s x = Done then tableErrors X input x else [])" for x
    by (simp add: phase assms(3))
  then have errs: "doneErrors X input (rs_Phase ?s) = doneErrors X input (rs_Phase s)" by (simp only: doneErrors_def)
  have rows: "getRows x (rs_Data ?s) = (if rs_Phase ?s x = Done then tableRows X input x else getRows x emptyData)" for x
    using assms(2,3) by (simp add: runInv_def phase)
  have held: "rs_Phase ?s x = Holding h \<Longrightarrow> h = input" for x h
    using assms(2) by (auto simp: runInv_def phase split: if_splits)
  have mset: "mset (rs_Errs ?s) = mset (doneErrors X input (rs_Phase ?s))"
    using assms(2) by (simp only: errs fetchStep_simps runInv_def)
  show ?thesis unfolding runInv_def using cells rows held mset by blast
qed

lemma runInv_finish:
  assumes "runInv X S input s" "rs_Phase s t = Holding held"
  shows "runInv X S input (finishStep X held t s)"
proof -
  from assms have held: "held = input" by (auto simp: runInv_def)
  have rows: "getRows t' (rs_Data (finishStep X input t s))
      = (if t' = t then tableRows X input t else getRows t' (rs_Data s))" for t'
    using assms by (subst finishStep_rows) (auto simp: runInv_def)
  have "mset (doneErrors X input ((rs_Phase s)(t := Done)))
      = mset (doneErrors X input (rs_Phase s)) + mset (tableErrors X input t)"
    unfolding doneErrors_def using assms(2)
    by (subst mset_concat_update [where t = t and f = "\<lambda>t. if rs_Phase s t = Done then tableErrors X input t else []"]) auto
  then have errs: "mset (rs_Errs (finishStep X input t s)) = mset (doneErrors X input (rs_Phase (finishStep X input t s)))"
    using assms(1) by (simp add: runInv_def)
  have data: "getRows x (rs_Data (finishStep X input t s))
      = (if rs_Phase (finishStep X input t s) x = Done then tableRows X input x else getRows x emptyData)" for x
    using assms(1) by (simp add: runInv_def rows)
  have hold: "rs_Phase (finishStep X input t s) x = Holding h \<Longrightarrow> h = input" for x h
    using assms(1) by (auto simp: runInv_def split: if_splits)
  have cells: "onceOk (transactionsOnce (sr_Transactions S)) (rs_Transactions (finishStep X input t s))"
    "onceOk (changesOnce (sr_Changes S)) (rs_Changes (finishStep X input t s))"
    using assms(1) by (simp_all add: runInv_def)
  show ?thesis unfolding held runInv_def using cells data hold errs by blast
qed

lemma runInv_run:
  assumes "(runStep X S input)\<^sup>*\<^sup>* startState s" "streamsMatch S input"
  shows "runInv X S input s"
  using assms(1)
proof (induction rule: rtranclp_induct)
  case base
  show ?case by (rule runInv_start)
next
  case (step s s')
  from step.hyps(2) show ?case
  proof (rule runStepE)
    fix t assume "s' = fetchStep S input t s" "rs_Phase s t = Started"
    then show ?thesis using runInv_fetch [OF assms(2) step.IH] by simp
  next
    fix t held assume "s' = finishStep X held t s" "rs_Phase s t = Holding held"
    then show ?thesis using runInv_finish [OF step.IH] by simp
  qed
qed

text \<open>
  C1: when no reader panics, every finished run, however its goroutines interleave, ends with the same data, each
  table that of its extractor run alone on the streams and empty where that extractor failed, and with the errors
  of exactly the extractors that failed or panicked, in some order.
\<close>

theorem extract_all_deterministic:
  assumes "streamsMatch S input" "completeRun X S input s"
  shows "(\<forall>t. getRows t (rs_Data s) = (case extractTable X t input of Ok r \<Rightarrow> r | _ \<Rightarrow> getRows t emptyData))
    \<and> mset (rs_Errs s) = mset (concat (map (\<lambda>t. case extractTable X t input of
         Ok r \<Rightarrow> [] | Err e \<Rightarrow> [TableError t e] | Panic \<Rightarrow> [TablePanic t]) launchOrder))
    \<and> (\<forall>s'. completeRun X S input s' \<longrightarrow> rs_Data s' = rs_Data s \<and> mset (rs_Errs s') = mset (rs_Errs s))"
proof -
  have outcome: "(\<forall>t. getRows t (rs_Data s) = tableRows X input t) \<and> mset (rs_Errs s) = mset (concat (map (tableErrors X input) launchOrder))"
    if "completeRun X S input s" for s
  proof -
    from that have inv: "runInv X S input s" and fin: "rs_Phase s t = Done" for t
      using runInv_run [OF _ assms(1)] by (auto simp: completeRun_def finished_def)
    then show ?thesis by (simp add: runInv_def doneErrors_def)
  qed
  have same: "rs_Data s' = rs_Data s \<and> mset (rs_Errs s') = mset (rs_Errs s)" if "completeRun X S input s'" for s'
  proof
    show "rs_Data s' = rs_Data s"
    proof (rule ledger_data_eqI)
      fix t show "getRows t (rs_Data s') = getRows t (rs_Data s)" using outcome [OF that] outcome [OF assms(2)] by metis
    qed
    show "mset (rs_Errs s') = mset (rs_Errs s)" using outcome [OF that] outcome [OF assms(2)] by metis
  qed
  show ?thesis
    using outcome [OF assms(2), unfolded tableRows_def tableErrors_def [abs_def]] same by blast
qed

section \<open>Schedules\<close>

lemma advance_phase:
  "t' \<noteq> t \<Longrightarrow> rs_Phase (advance X S input t s) t' = rs_Phase s t'"
  "phaseWork (rs_Phase (advance X S input t s) t) = phaseWork (rs_Phase s t) - 1"
proof -
  from fetchStep_phase [of S input t s] obtain held
    where f: "rs_Phase (fetchStep S input t s) = (rs_Phase s)(t := Holding held)" by blast
  show "t' \<noteq> t \<Longrightarrow> rs_Phase (advance X S input t s) t' = rs_Phase s t'"
    by (simp add: advance_def f split: phase.split)
  show "phaseWork (rs_Phase (advance X S input t s) t) = phaseWork (rs_Phase s t) - 1"
    by (simp add: advance_def f phaseWork_def split: phase.split)
qed

lemma schedule_work:
  "phaseWork (rs_Phase (fold (advance X S input) schedule s) t) = phaseWork (rs_Phase s t) - count_list schedule t"
  by (induction schedule arbitrary: s) (auto simp: advance_phase)

lemma schedule_finished:
  "finished (fold (advance X S input) schedule startState) \<longleftrightarrow> (\<forall>t. 2 \<le> count_list schedule t)"
proof -
  have "rs_Phase s t = Done \<longleftrightarrow> phaseWork (rs_Phase s t) = 0" for s :: "'a run_state" and t
    by (simp add: phaseWork_def split: phase.split)
  moreover have "finished s \<longleftrightarrow> (\<forall>t. rs_Phase s t = Done)" for s :: "'a run_state"
    unfolding finished_def using all_tables by blast
  ultimately show ?thesis by (simp add: schedule_work) (simp add: startState_def phaseWork_def)
qed

lemma schedule_run: "(runStep X S input)\<^sup>*\<^sup>* s (fold (advance X S input) schedule s)"
proof (induction schedule arbitrary: s)
  case (Cons t schedule)
  have "(runStep X S input)\<^sup>*\<^sup>* s (advance X S input t s)"
  proof (cases "rs_Phase s t = Done")
    case False
    then show ?thesis by (intro r_into_rtranclp) (auto simp: runStep_advance)
  qed (simp add: advance_def)
  then show ?case using Cons.IH [of "advance X S input t s"] by (simp add: rtranclp_trans)
qed simp

lemma run_schedule: "(runStep X S input)\<^sup>*\<^sup>* s s' \<Longrightarrow> \<exists>schedule. s' = fold (advance X S input) schedule s"
proof (induction rule: rtranclp_induct)
  case base
  show ?case by (rule exI [of _ "[]"]) simp
next
  case (step s' s'')
  then obtain schedule t where "s' = fold (advance X S input) schedule s" "s'' = advance X S input t s'"
    by (auto simp: runStep_advance)
  then show ?case by (intro exI [of _ "schedule @ [t]"]) simp
qed

text \<open>
  The results of the executable \<open>extractAll\<close> over its schedules are those of the finished runs of the
  step relation, and a schedule gives a result exactly when it lets every table take two steps.
\<close>

lemma extract_all_schedules:
  "{r. \<exists>schedule. extractAll X S input schedule = Some r} = {(rs_Data s, rs_Errs s) |s. completeRun X S input s}
   \<and> (extractAll X S input schedule \<noteq> None \<longleftrightarrow> (\<forall>t. 2 \<le> count_list schedule t))"
proof
  show "extractAll X S input schedule \<noteq> None \<longleftrightarrow> (\<forall>t. 2 \<le> count_list schedule t)"
    by (simp add: extractAll_def Let_def schedule_finished)
  show "{r. \<exists>schedule. extractAll X S input schedule = Some r} = {(rs_Data s, rs_Errs s) |s. completeRun X S input s}"
  proof (intro set_eqI iffI)
    fix r assume "r \<in> {r. \<exists>schedule. extractAll X S input schedule = Some r}"
    then obtain schedule where "finished (fold (advance X S input) schedule startState)"
      "r = (rs_Data (fold (advance X S input) schedule startState), rs_Errs (fold (advance X S input) schedule startState))"
      by (auto simp: extractAll_def Let_def split: if_splits)
    moreover from this(1) have "completeRun X S input (fold (advance X S input) schedule startState)"
      using schedule_run by (simp add: completeRun_def)
    ultimately show "r \<in> {(rs_Data s, rs_Errs s) |s. completeRun X S input s}" by blast
  next
    fix r assume "r \<in> {(rs_Data s, rs_Errs s) |s. completeRun X S input s}"
    then obtain s where s: "r = (rs_Data s, rs_Errs s)" "completeRun X S input s" by blast
    then have "(runStep X S input)\<^sup>*\<^sup>* startState s" "finished s" by (simp_all add: completeRun_def)
    with run_schedule obtain schedule where "s = fold (advance X S input) schedule startState" "finished s" by blast
    then have "extractAll X S input schedule = Some r" using s(1) by (simp add: extractAll_def Let_def)
    then show "r \<in> {r. \<exists>schedule. extractAll X S input schedule = Some r}" by blast
  qed
qed

section \<open>A reader that panics\<close>

lemma transactions_panic: "tableSource t = FromTransactions \<Longrightarrow> in_Transactions input = Panic \<Longrightarrow> extractTable X t input = Panic"
  by (cases t) (simp_all add: extractTransactions_def extractOperations_def extractEffects_def extractTrades_def
    extractTTL_def extractContractEvents_def extractContractCreations_def)

text \<open>
  Once the reader has panicked, one table \<open>t0\<close> has met the panic, and each other table of the stream holds, or
  has run on, the rows read before it.
\<close>

definition metPanic :: "ledger_input \<Rightarrow> 'f run_state \<Rightarrow> table \<Rightarrow> bool" where
  "metPanic input s t0 \<longleftrightarrow> tableSource t0 = FromTransactions
     \<and> (rs_Phase s t0 = Holding (input\<lparr>in_Transactions := Panic\<rparr>) \<or> rs_Phase s t0 = Done \<and> TablePanic t0 \<in> set (rs_Errs s))"

definition truncated :: "'f extract_env \<Rightarrow> ledger_tx list \<Rightarrow> ledger_input \<Rightarrow> 'f run_state \<Rightarrow> table \<Rightarrow> bool" where
  "truncated X rows input s t \<longleftrightarrow>
     (\<forall>held. rs_Phase s t = Holding held \<longrightarrow> held = input\<lparr>in_Transactions := Ok rows\<rparr>)
     \<and> getRows t (rs_Data s) = (if rs_Phase s t = Done
          then tableRows X (input\<lparr>in_Transactions := Ok rows\<rparr>) t else getRows t emptyData)"

definition truncInv :: "'f extract_env \<Rightarrow> ledger_tx list \<Rightarrow> ledger_input \<Rightarrow> 'f run_state \<Rightarrow> bool" where
  "truncInv X rows input s \<longleftrightarrow>
     (if oc_Done (rs_Transactions s)
      then oc_Rows (rs_Transactions s) = rows \<and> oc_Err (rs_Transactions s) = None
        \<and> (\<exists>t0. metPanic input s t0
          \<and> (\<forall>t. tableSource t = FromTransactions \<and> t \<noteq> t0 \<longrightarrow> truncated X rows input s t))
      else \<forall>t. tableSource t = FromTransactions \<longrightarrow> rs_Phase s t = Started \<and> getRows t (rs_Data s) = getRows t emptyData)"

lemma truncInv_done:
  assumes "oc_Done (rs_Transactions s)" "oc_Rows (rs_Transactions s) = rows" "oc_Err (rs_Transactions s) = None"
    "metPanic input s t0" "\<And>t. tableSource t = FromTransactions \<Longrightarrow> t \<noteq> t0 \<Longrightarrow> truncated X rows input s t"
  shows "truncInv X rows input s"
  unfolding truncInv_def if_P [OF assms(1)] using assms(2-) by blast

lemma truncInv_doneE:
  assumes "truncInv X rows input s" "oc_Done (rs_Transactions s)"
  obtains t0 where "oc_Rows (rs_Transactions s) = rows" "oc_Err (rs_Transactions s) = None" "metPanic input s t0"
    "\<And>t. tableSource t = FromTransactions \<Longrightarrow> t \<noteq> t0 \<Longrightarrow> truncated X rows input s t"
  using assms(1) unfolding truncInv_def if_P [OF assms(2)] by blast

lemma truncInv_fetch:
  assumes walk: "walkStream ''create transaction reader'' ''read transaction'' (sr_Transactions S) = (rows, None, True)"
    and inv: "truncInv X rows input s" and t: "rs_Phase s t = Started"
  shows "truncInv X rows input (fetchStep S input t s)"
proof (cases "oc_Done (rs_Transactions s)")
  case done_: True
  from truncInv_doneE [OF inv done_] obtain t0 where cell: "oc_Rows (rs_Transactions s) = rows"
    "oc_Err (rs_Transactions s) = None" and met: "metPanic input s t0"
    and rest: "\<And>t. tableSource t = FromTransactions \<Longrightarrow> t \<noteq> t0 \<Longrightarrow> truncated X rows input s t" by metis
  have same: "rs_Transactions (fetchStep S input t s) = rs_Transactions s"
    using done_ by (simp add: fetchStep_unfold transactions.later_call split: source.split)
  obtain held where ph: "rs_Phase (fetchStep S input t s) = (rs_Phase s)(t := Holding held)"
    and held: "tableSource t = FromTransactions \<Longrightarrow> held = input\<lparr>in_Transactions := Ok rows\<rparr>"
    using done_ cell by (cases "tableSource t")
      (auto simp: fetchStep_unfold transactions.later_call callerSees_def)
  have "t \<noteq> t0" using t met by (auto simp: metPanic_def)
  then have "metPanic input (fetchStep S input t s) t0" using met by (simp add: metPanic_def ph)
  moreover have "truncated X rows input (fetchStep S input t s) u" if "tableSource u = FromTransactions" "u \<noteq> t0" for u
    using rest [OF that] t held that(1) by (cases "u = t") (simp_all add: truncated_def ph)
  ultimately show ?thesis using done_ cell by (intro truncInv_done [where ?t0.0 = t0]) (simp_all add: same)
next
  case fresh: False
  then have start: "rs_Phase s u = Started" "getRows u (rs_Data s) = getRows u emptyData"
    if "tableSource u = FromTransactions" for u using inv that by (simp_all add: truncInv_def)
  show ?thesis
  proof (cases "tableSource t = FromTransactions")
    case True
    then have f: "fetchStep S input t s = s\<lparr>rs_Transactions := \<lparr>oc_Done = True, oc_Rows = rows, oc_Err = None\<rparr>,
        rs_Phase := (rs_Phase s)(t := Holding (input\<lparr>in_Transactions := Panic\<rparr>))\<rparr>"
      using fresh by (simp add: fetchStep_unfold transactionsOnce_def onceCall_def callerSees_def walk)
    show ?thesis unfolding f
      by (rule truncInv_done [where ?t0.0 = t]) (simp_all add: metPanic_def truncated_def True start)
  next
    case False
    then have "rs_Transactions (fetchStep S input t s) = rs_Transactions s"
      by (simp add: fetchStep_unfold split: source.split)
    moreover obtain held where "rs_Phase (fetchStep S input t s) = (rs_Phase s)(t := Holding held)"
      using fetchStep_phase by blast
    moreover have "u \<noteq> t" if "tableSource u = FromTransactions" for u using that False by auto
    ultimately show ?thesis using fresh start by (simp add: truncInv_def)
  qed
qed

lemma truncInv_finish:
  assumes inv: "truncInv X rows input s" and t: "rs_Phase s t = Holding held"
  shows "truncInv X rows input (finishStep X held t s)"
proof (cases "oc_Done (rs_Transactions s)")
  case False
  then have start: "rs_Phase s u = Started" "getRows u (rs_Data s) = getRows u emptyData"
    if "tableSource u = FromTransactions" for u using inv that by (simp_all add: truncInv_def)
  then have "u \<noteq> t" if "tableSource u = FromTransactions" for u using that t by auto
  then show ?thesis using False start by (auto simp: truncInv_def finishStep_rows)
next
  case done_: True
  from truncInv_doneE [OF inv done_] obtain t0 where cell: "oc_Rows (rs_Transactions s) = rows"
    "oc_Err (rs_Transactions s) = None" and met: "metPanic input s t0"
    and rest: "\<And>t. tableSource t = FromTransactions \<Longrightarrow> t \<noteq> t0 \<Longrightarrow> truncated X rows input s t" by metis
  have "metPanic input (finishStep X held t s) t0"
  proof (cases "t = t0")
    case True
    with met t have "held = input\<lparr>in_Transactions := Panic\<rparr>" "tableSource t0 = FromTransactions" by (auto simp: metPanic_def)
    then have "extractTable X t0 held = Panic" by (simp add: transactions_panic)
    with True met show ?thesis by (simp add: metPanic_def tableErrors_def)
  next
    case False
    with met show ?thesis by (auto simp: metPanic_def)
  qed
  moreover have "truncated X rows input (finishStep X held t s) u" if "tableSource u = FromTransactions" "u \<noteq> t0" for u
  proof (cases "u = t")
    case True
    with rest [OF that] t have "held = input\<lparr>in_Transactions := Ok rows\<rparr>" "getRows t (rs_Data s) = getRows t emptyData"
      by (auto simp: truncated_def)
    then show ?thesis by (simp add: True truncated_def finishStep_rows)
  next
    case False
    then show ?thesis using rest [OF that] by (simp add: truncated_def finishStep_rows)
  qed
  ultimately show ?thesis using done_ cell by (intro truncInv_done [where ?t0.0 = t0]) simp_all
qed

text \<open>
  C28: when the transaction reader panics after some transactions, a finished run reports the panic for one
  extractor only; every other extractor of the transaction stream has run on the transactions read before the
  panic as if they were the ledger, without an error of its own.
\<close>

theorem reader_panic_truncates:
  assumes "walkStream ''create transaction reader'' ''read transaction'' (sr_Transactions S) = (rows, None, True)"
    "completeRun X S input s"
  shows "\<exists>t0. tableSource t0 = FromTransactions \<and> TablePanic t0 \<in> set (rs_Errs s)
    \<and> (\<forall>t. tableSource t = FromTransactions \<and> t \<noteq> t0 \<longrightarrow> getRows t (rs_Data s) =
         (case extractTable X t (input\<lparr>in_Transactions := Ok rows\<rparr>) of Ok r \<Rightarrow> r | _ \<Rightarrow> getRows t emptyData))"
proof -
  have "truncInv X rows input s'" if "(runStep X S input)\<^sup>*\<^sup>* startState s'" for s'
    using that
  proof (induction rule: rtranclp_induct)
    case base
    show ?case by (simp add: truncInv_def startState_def freshOnce_def)
  next
    case (step s1 s2)
    from step.hyps(2) show ?case
    proof (rule runStepE)
      fix t assume "s2 = fetchStep S input t s1" "rs_Phase s1 t = Started"
      then show ?thesis using truncInv_fetch [OF assms(1) step.IH] by simp
    next
      fix t held assume "s2 = finishStep X held t s1" "rs_Phase s1 t = Holding held"
      then show ?thesis using truncInv_finish [OF step.IH] by simp
    qed
  qed
  with assms(2) have inv: "truncInv X rows input s" and done_: "\<And>t. rs_Phase s t = Done"
    using all_tables by (auto simp: completeRun_def finished_def)
  then have oc: "oc_Done (rs_Transactions s)"
    using inv done_ [of TTransactions] tableSource.simps(1)
    by (metis (full_types) truncInv_def phase.distinct(3))
  from truncInv_doneE [OF inv oc] obtain t0 where "metPanic input s t0"
    "\<And>t. tableSource t = FromTransactions \<Longrightarrow> t \<noteq> t0 \<Longrightarrow> truncated X rows input s t" by metis
  then show ?thesis by (intro exI [of _ t0]) (simp add: metPanic_def truncated_def tableRows_def done_)
qed

section \<open>From raw XDR and from a view\<close>

text \<open>
  The view's accessors read the fields the decoder fills: the documented agreement of the two readers of the SDK on
  bytes that are a \<open>LedgerCloseMeta\<close>.
\<close>

definition viewAgrees :: "xdr_codec \<Rightarrow> byte list \<Rightarrow> ledger_close_meta \<Rightarrow> bool" where
  "viewAgrees C xdrBytes meta \<longleftrightarrow> xc_Unmarshal C xdrBytes = Ok meta \<and> xc_ValidateFull C xdrBytes = Ok ()
     \<and> xc_LedgerSequence C xdrBytes = Ok (lcm_LedgerSequence meta)
     \<and> xc_LedgerCloseTime C xdrBytes = Ok (lcm_CloseTime meta)"

text \<open>
  C12: extracting through a view gives, on every schedule, what extracting from the raw XDR gives; the decoded input
  is the same, its streams included.
\<close>

theorem extract_view_matches_xdr:
  assumes "viewAgrees C xdrBytes meta"
  shows "\<exists>vi. newLedgerViewInput C xdrBytes passphrase = Ok vi
    \<and> decodeView C vi = newLedgerInputFromXDR C xdrBytes passphrase
    \<and> extractAllView X C schedule vi = extractAllFromXDR X C schedule xdrBytes passphrase"
proof -
  obtain vi where vi: "newLedgerViewInput C xdrBytes passphrase = Ok vi"
    and f: "vi_NetworkPassphrase vi = passphrase" "vi_Sequence vi = lcm_LedgerSequence meta"
      "vi_ClosedAt vi = sint (lcm_CloseTime meta)" "vi_LedgerRange vi = lcm_LedgerSequence meta div 10000 * 10000"
      "vi_EraID vi = None" "vi_View vi = xdrBytes"
    using assms by (simp add: newLedgerViewInput_def viewAgrees_def)
  moreover have "decodeView C vi = newLedgerInputFromXDR C xdrBytes passphrase"
    using assms by (simp add: decodeView_def newLedgerInputFromXDR_def viewAgrees_def f openInput_def newLedgerInput_def Let_def)
  ultimately show ?thesis by (simp add: extractAllView_def extractAllFromXDR_def)
qed

text \<open>The transaction views of an input are walked once: a second call returns what the first did.\<close>

lemma transactionViews_again:
  assumes "fst (transactionViews C vi) = Ok r"
  shows "transactionViews C (snd (transactionViews C vi)) = (Ok r, snd (transactionViews C vi))"
proof -
  define body where "body = (case xc_TransactionViews C (vi_View vi) (vi_NetworkPassphrase vi) of
    Ok vs \<Rightarrow> (vs, None, False) | Err e \<Rightarrow> ([], Some e, False) | Panic \<Rightarrow> ([], None :: string option, True))"
  have views: "transactionViews C vi = (fst (onceCall body (vi_Transactions vi)),
      vi\<lparr>vi_Transactions := snd (onceCall body (vi_Transactions vi))\<rparr>)"
    "transactionViews C (vi\<lparr>vi_Transactions := c\<rparr>) = (fst (onceCall body c), vi\<lparr>vi_Transactions := snd (onceCall body c)\<rparr>)" for c
    by (simp_all add: transactionViews_def body_def case_prod_unfold)
  have "r = (oc_Rows (snd (onceCall body (vi_Transactions vi))), oc_Err (snd (onceCall body (vi_Transactions vi))))"
    using assms unfolding views by (auto simp: onceCall_def split: prod.splits if_splits)
  then show ?thesis unfolding views(1) fst_conv snd_conv views(2) cached.call_again by simp
qed

text \<open>The result of a whole ledger: the input it was extracted from and the tables of a run without errors.\<close>

lemma openInput_match:
  assumes "fst (transactionsOnce (xc_Transactions C passphrase meta) freshOnce) \<noteq> Panic"
    "fst (changesOnce (xc_Changes C passphrase meta) freshOnce) \<noteq> Panic"
  shows "streamsMatch (streamsOf C passphrase meta) (openInput C meta passphrase)"
  using assms by (simp add: streamsMatch_def streamsOf_def openInput_def newLedgerInput_def Let_def)

lemma extractAll_run:
  assumes "extractAll X S input schedule = Some (d, errs)"
  shows "\<exists>s. completeRun X S input s \<and> d = rs_Data s \<and> errs = rs_Errs s"
proof -
  let ?s = "fold (advance X S input) schedule startState"
  from assms have "finished ?s" "d = rs_Data ?s" "errs = rs_Errs ?s"
    by (simp_all add: extractAll_def Let_def split: if_splits)
  then show ?thesis using schedule_run by (intro exI [of _ ?s]) (simp add: completeRun_def)
qed

text \<open>The table an error is about.\<close>

fun errorTable :: "extract_error \<Rightarrow> table option" where
  "errorTable (TableError t e) = Some t" | "errorTable (TablePanic t) = Some t" | "errorTable (InputError e) = None"

lemma extractAllFromXDR_tables:
  assumes "xc_Unmarshal C xdrBytes = Ok meta"
    "fst (transactionsOnce (xc_Transactions C passphrase meta) freshOnce) \<noteq> Panic"
    "fst (changesOnce (xc_Changes C passphrase meta) freshOnce) \<noteq> Panic"
    "extractAllFromXDR X C schedule xdrBytes passphrase = Some (d, errs)"
  shows "getRows t d = tableRows X (openInput C meta passphrase) t"
    "(\<forall>e \<in> set errs. errorTable e \<noteq> Some t) \<longleftrightarrow> extractTable X t (openInput C meta passphrase) = Ok (getRows t d)"
proof -
  let ?input = "openInput C meta passphrase"
  have in_: "in_NetworkPassphrase ?input = passphrase" "in_LCM ?input = meta"
    by (simp_all add: openInput_def newLedgerInput_def Let_def)
  from assms(1,4) have "extractAll X (streamsOf C passphrase meta) ?input schedule = Some (d, errs)"
    by (simp add: extractAllFromXDR_def newLedgerInputFromXDR_def extractInput_def in_)
  then obtain s where s: "completeRun X (streamsOf C passphrase meta) ?input s" "d = rs_Data s" "errs = rs_Errs s"
    using extractAll_run by metis
  have inv: "runInv X (streamsOf C passphrase meta) ?input s"
    using s(1) openInput_match [OF assms(2,3)] by (intro runInv_run) (simp_all add: completeRun_def)
  have done_: "rs_Phase s t = Done" for t using s(1) all_tables by (simp add: completeRun_def finished_def)
  from inv done_ show rows: "getRows t d = tableRows X ?input t" by (simp add: runInv_def s(2))
  from inv done_ have "set errs = set (concat (map (tableErrors X ?input) launchOrder))"
    by (intro mset_eq_setD) (simp add: runInv_def doneErrors_def s(3))
  then have errs: "set errs = (\<Union>t'. set (tableErrors X ?input t'))"
    using all_tables by auto
  have "\<forall>t'. \<forall>e \<in> set (tableErrors X ?input t'). errorTable e = Some t'"
    by (simp add: tableErrors_def split: res.split)
  then have "(\<forall>e \<in> set errs. errorTable e \<noteq> Some t) \<longleftrightarrow> set (tableErrors X ?input t) = {}"
    unfolding errs by (auto simp: equals0I)
  also have "\<dots> \<longleftrightarrow> extractTable X t ?input = Ok (getRows t d)"
    using rows by (auto simp: tableErrors_def tableRows_def split: res.splits)
  finally show "(\<forall>e \<in> set errs. errorTable e \<noteq> Some t) \<longleftrightarrow> extractTable X t ?input = Ok (getRows t d)" .
qed

section \<open>Examples\<close>

definition demoEnv :: "nat extract_env" where
  "demoEnv = \<lparr>xe_Sdk = demoSdk, xe_Version = ''v1'', xe_Clock = (\<lambda>t i. 0), xe_Clock2 = (\<lambda>t i j. 0),
     xe_EventClock = (\<lambda>i n. 0), xe_TokenEvents = (\<lambda>p m. Ok []), xe_ToFloat = (\<lambda>s. 0)\<rparr>"

text \<open>Readers that deliver one transaction each way: to the end, or up to a panic.\<close>

definition demoCodec :: "ledger_tx res list \<Rightarrow> xdr_codec" where
  "demoCodec reads = \<lparr>xc_Unmarshal = (\<lambda>b. Ok demoLcm), xc_ValidateFull = (\<lambda>b. Ok ()),
     xc_LedgerSequence = (\<lambda>b. Ok (lcm_LedgerSequence demoLcm)), xc_LedgerCloseTime = (\<lambda>b. Ok (lcm_CloseTime demoLcm)),
     xc_TransactionViews = (\<lambda>b p. Ok []), xc_Transactions = (\<lambda>p m. Ok reads), xc_Changes = (\<lambda>p m. Ok [])\<rparr>"

lemma demoInput:
  "openInput (demoCodec (map Ok txs)) demoLcm ''passphrase'' = demoTxs txs"
  "fst (transactionsOnce (xc_Transactions (demoCodec (map Ok txs)) p m) freshOnce) \<noteq> Panic"
  "fst (changesOnce (xc_Changes (demoCodec reads) p m) freshOnce) \<noteq> Panic"
proof -
  have walk: "readLoop msg rows (map Ok xs) = (rows @ xs, None, False)" for msg and rows xs :: "'b list"
    by (induction xs arbitrary: rows) simp_all
  show "openInput (demoCodec (map Ok txs)) demoLcm ''passphrase'' = demoTxs txs"
    by (simp add: openInput_def demoTxs_def demoCodec_def transactionsOnce_def changesOnce_def onceCall_def freshOnce_def
        walkStream_def walk callerSees_def)
  show "fst (transactionsOnce (xc_Transactions (demoCodec (map Ok txs)) p m) freshOnce) \<noteq> Panic"
    "fst (changesOnce (xc_Changes (demoCodec reads) p m) freshOnce) \<noteq> Panic"
    by (simp_all add: demoCodec_def transactionsOnce_def changesOnce_def onceCall_def freshOnce_def walkStream_def walk)
qed

lemma some_completeRun: "\<exists>s. completeRun X S input s"
  using run_completes [of X S input startState] by (auto simp: completeRun_def)

theorem extract_all_deterministic_witness:
  "\<exists>s. completeRun demoEnv (streamsOf (demoCodec (map Ok [demoTx])) ''passphrase'' demoLcm) (demoTxs [demoTx]) s
     \<and> length (dt_Transactions (rs_Data s)) = 1
     \<and> TableError TLedgers ''unknown LedgerCloseMeta version: 9'' \<in> set (rs_Errs s)"
proof -
  let ?S = "streamsOf (demoCodec (map Ok [demoTx])) ''passphrase'' demoLcm"
  have match: "streamsMatch ?S (demoTxs [demoTx])"
    unfolding demoInput(1) [symmetric] by (rule openInput_match [OF demoInput(2,3)])
  obtain s where s: "completeRun demoEnv ?S (demoTxs [demoTx]) s" using some_completeRun by blast
  note result = extract_all_deterministic [OF match s]
  have env: "xe_Sdk demoEnv = demoSdk" by (simp add: demoEnv_def)
  have "isOk (extractTransactions demoSdk (demoTxs [demoTx]))" by code_simp
  then obtain rows where rows: "extractTransactions demoSdk (demoTxs [demoTx]) = Ok rows" by (auto simp: isOk_iff)
  then have len: "length rows = 1" by (auto simp: extractTransactions_def bindR_Ok_iff)
  have "getRows TTransactions (rs_Data s) = RTransactions rows" using result rows by (simp add: env)
  then have "dt_Transactions (rs_Data s) = rows" by simp
  moreover have "extractTable demoEnv TLedgers (demoTxs [demoTx]) = Err ''unknown LedgerCloseMeta version: 9''"
    by (simp add: extractLedgers_def demoTxs_def newLedgerInput_def Let_def demoLcm_def) code_simp
  then have "TableError TLedgers ''unknown LedgerCloseMeta version: 9'' \<in>
      set (concat (map (\<lambda>t. case extractTable demoEnv t (demoTxs [demoTx]) of
         Ok r \<Rightarrow> [] | Err e \<Rightarrow> [TableError t e] | Panic \<Rightarrow> [TablePanic t]) launchOrder))"
    unfolding set_concat set_map image_image by (intro UN_I [of TLedgers]) simp_all
  then have "TableError TLedgers ''unknown LedgerCloseMeta version: 9'' \<in> set (rs_Errs s)"
    unfolding mset_eq_setD [OF conjunct1 [OF conjunct2 [OF result]]] .
  ultimately show ?thesis using s len by blast
qed

theorem reader_panic_truncates_witness:
  "\<exists>s t0. completeRun demoEnv (streamsOf (demoCodec [Ok demoTx, Panic]) ''passphrase'' demoLcm) (demoTxs []) s
     \<and> TablePanic t0 \<in> set (rs_Errs s)
     \<and> (\<forall>t. tableSource t = FromTransactions \<and> t \<noteq> t0 \<longrightarrow> getRows t (rs_Data s) =
         (case extractTable demoEnv t (demoTxs [demoTx]) of Ok r \<Rightarrow> r | _ \<Rightarrow> getRows t emptyData))"
proof -
  let ?S = "streamsOf (demoCodec [Ok demoTx, Panic]) ''passphrase'' demoLcm"
  have walk: "walkStream ''create transaction reader'' ''read transaction'' (sr_Transactions ?S) = ([demoTx], None, True)"
    by (simp add: streamsOf_def demoCodec_def walkStream_def)
  obtain s where s: "completeRun demoEnv ?S (demoTxs []) s" using some_completeRun by blast
  have "(demoTxs [])\<lparr>in_Transactions := Ok [demoTx]\<rparr> = demoTxs [demoTx]"
    by (simp add: demoTxs_def newLedgerInput_def Let_def)
  with reader_panic_truncates [OF walk s] s show ?thesis by metis
qed

theorem extract_view_matches_xdr_witness:
  "\<exists>vi. newLedgerViewInput (demoCodec []) [1] ''passphrase'' = Ok vi
    \<and> extractAllView demoEnv (demoCodec []) sequentialSchedule vi
      = extractAllFromXDR demoEnv (demoCodec []) sequentialSchedule [1] ''passphrase''"
proof -
  have "viewAgrees (demoCodec []) [1] demoLcm" by (simp add: viewAgrees_def demoCodec_def)
  from extract_view_matches_xdr [OF this, of "''passphrase''" demoEnv sequentialSchedule] show ?thesis by blast
qed

end
