(* ===== verification/Goroutines.thy ===== *)
theory Goroutines
  imports ExtractFacts
begin

text \<open>
  \<open>ExtractAll\<close> and the two caches of \<open>LedgerInput\<close> at the grain of their synchronisation: the main goroutine adds to
  the wait group, starts the extractors one by one and waits; a call of a cache enters its \<open>sync.Once\<close> or blocks
  in it, and the goroutine that runs the body reads the stream one element at a time; every access to the shared
  results is a step of its own between \<open>mu.Lock()\<close>, which blocks, and \<open>mu.Unlock()\<close>.

  An extractor itself is one step: the definitions of the extractors are total functions over finite lists, with no
  access to shared state but the stream they were called with.

  The invariant of the reachable states gives two results: no reachable state is a deadlock and every run is
  bounded, so \<open>ExtractAll\<close> returns; and a run that returns leaves the data and errors of a complete run of the
  two-step goroutines of \<open>Extract\<close>.
\<close>

section \<open>The body of a cache\<close>

text \<open>
  The function passed to \<open>Do\<close>: about to open the reader, with the reads still to come, or about to leave, by a return
  or by a panic.  Each step may set a field of the cell.
\<close>

datatype 'a body = Opening | Reading "'a res list" | Leaving bool

fun bodyStep :: "string \<Rightarrow> string \<Rightarrow> 'a stream \<Rightarrow> 'a body \<Rightarrow> 'a once \<Rightarrow> 'a body \<times> 'a once" where
  "bodyStep createMsg readMsg stream Opening cell = (case stream of
     Err e \<Rightarrow> (Leaving False, cell\<lparr>oc_Err := Some (createMsg @ '': '' @ e)\<rparr>)
   | Panic \<Rightarrow> (Leaving True, cell)
   | Ok reads \<Rightarrow> (Reading reads, cell))"
| "bodyStep createMsg readMsg stream (Reading []) cell = (Leaving False, cell)"
| "bodyStep createMsg readMsg stream (Reading (Ok a # rs)) cell = (Reading rs, cell\<lparr>oc_Rows := oc_Rows cell @ [a]\<rparr>)"
| "bodyStep createMsg readMsg stream (Reading (Err e # rs)) cell =
     (Leaving False, cell\<lparr>oc_Err := Some (readMsg @ '': '' @ e)\<rparr>)"
| "bodyStep createMsg readMsg stream (Reading (Panic # rs)) cell = (Leaving True, cell)"
| "bodyStep createMsg readMsg stream (Leaving panicked) cell = (Leaving panicked, cell)"

definition transactionsBody :: "ledger_tx stream \<Rightarrow> ledger_tx body \<Rightarrow> ledger_tx once \<Rightarrow> ledger_tx body \<times> ledger_tx once" where
  "transactionsBody = bodyStep ''create transaction reader'' ''read transaction''"

definition changesBody :: "change stream \<Rightarrow> change body \<Rightarrow> change once \<Rightarrow> change body \<times> change once" where
  "changesBody = bodyStep ''create change reader'' ''read change''"

section \<open>The code of the goroutines\<close>

text \<open>
  A goroutine is the list of the statements it still has to run: the call of its stream, the body of the cache while
  it runs it, the extractor on the input it holds, the mutex, the two halves of \<open>errs = append(errs, ...)\<close>, the
  assignment of a table, and the deferred \<open>wg.Done()\<close>.
\<close>

datatype 'f instr =
    CallStream | TxBody "ledger_tx body" | ChBody "change body" | RunExtractor ledger_input
  | LockMu | UnlockMu | StoreRows "'f table_rows" | LoadErrs extract_error | AppendErr "extract_error list" extract_error
  | WgDone

definition goroutineCode :: "'f instr list" where
  "goroutineCode = [CallStream, WgDone]"

text \<open>
  After the extractor: the closure stores its rows when there is no error and \<open>collect\<close> appends the error when there is
  one; the deferred handler of \<open>run\<close> appends a recovered panic.
\<close>

fun outcomeCode :: "table \<Rightarrow> 'f table_rows res \<Rightarrow> 'f instr list" where
  "outcomeCode t (Ok rows) = [LockMu, StoreRows rows, UnlockMu]"
| "outcomeCode t (Err e) = [LockMu, LoadErrs (TableError t e), UnlockMu]"
| "outcomeCode t Panic = [LockMu, LoadErrs (TablePanic t), UnlockMu]"

text \<open>The calling goroutine: per table \<open>wg.Add(1)\<close> and \<open>go\<close>, then \<open>wg.Wait()\<close>.\<close>

datatype main_instr = WgAdd | Go table | WgWait

definition launchCode :: "table list \<Rightarrow> main_instr list" where
  "launchCode ts = concat (map (\<lambda>t. [WgAdd, Go t]) ts) @ [WgWait]"

text \<open>
  The shared state: the two caches with the goroutine that runs their body, the mutex with its holder, the counter of
  the wait group, the results, and what every goroutine has left (none before it is started).
\<close>

record 'f par_state =
  ps_Transactions :: "ledger_tx once"
  ps_TxRunner :: "table option"
  ps_Changes :: "change once"
  ps_ChRunner :: "table option"
  ps_Mutex :: "table option"
  ps_Wait :: nat
  ps_Data :: "'f ledger_data"
  ps_Errs :: "extract_error list"
  ps_Code :: "table \<Rightarrow> 'f instr list option"
  ps_Main :: "main_instr list"

definition parStart :: "'f par_state" where
  "parStart = \<lparr>ps_Transactions = freshOnce, ps_TxRunner = None, ps_Changes = freshOnce, ps_ChRunner = None,
     ps_Mutex = None, ps_Wait = 0, ps_Data = emptyData, ps_Errs = [], ps_Code = (\<lambda>t. None),
     ps_Main = launchCode launchOrder\<rparr>"

definition setCode :: "table \<Rightarrow> 'f instr list \<Rightarrow> 'f par_state \<Rightarrow> 'f par_state" where
  "setCode t c s = s\<lparr>ps_Code := (ps_Code s)(t := Some c)\<rparr>"

text \<open>What a caller of a cache goes on with: the two fields, or the panic of the body it ran itself.\<close>

definition cellResult :: "bool \<Rightarrow> 'a once \<Rightarrow> 'a list res" where
  "cellResult panicked cell = callerSees (if panicked then Panic else Ok (oc_Rows cell, oc_Err cell))"

section \<open>Steps\<close>

text \<open>
  One statement of one goroutine.  \<open>Do\<close> has no step while another goroutine runs the body, \<open>LockMu\<close> none while the
  mutex is held, \<open>UnlockMu\<close> none for a goroutine that does not hold it, and \<open>WgWait\<close> none before the counter is zero.
\<close>

inductive parStep :: "'f extract_env \<Rightarrow> sources \<Rightarrow> ledger_input \<Rightarrow> 'f par_state \<Rightarrow> 'f par_state \<Rightarrow> bool"
  for X :: "'f extract_env" and S :: sources and input :: ledger_input where
  wg_add: "ps_Main s = WgAdd # m \<Longrightarrow> parStep X S input s (s\<lparr>ps_Wait := ps_Wait s + 1, ps_Main := m\<rparr>)"
| go: "ps_Main s = Go t # m \<Longrightarrow> parStep X S input s (setCode t goroutineCode (s\<lparr>ps_Main := m\<rparr>))"
| wg_wait: "ps_Main s = WgWait # m \<Longrightarrow> ps_Wait s = 0 \<Longrightarrow> parStep X S input s (s\<lparr>ps_Main := m\<rparr>)"
| no_stream: "ps_Code s t = Some (CallStream # k) \<Longrightarrow> tableSource t = FromLedger \<Longrightarrow>
    parStep X S input s (setCode t (RunExtractor input # k) s)"
| tx_enter: "ps_Code s t = Some (CallStream # k) \<Longrightarrow> tableSource t = FromTransactions \<Longrightarrow>
    \<not> oc_Done (ps_Transactions s) \<Longrightarrow> ps_TxRunner s = None \<Longrightarrow>
    parStep X S input s (setCode t (TxBody Opening # k) (s\<lparr>ps_TxRunner := Some t\<rparr>))"
| tx_body: "ps_Code s t = Some (TxBody b # k) \<Longrightarrow> \<forall>p. b \<noteq> Leaving p \<Longrightarrow>
    transactionsBody (sr_Transactions S) b (ps_Transactions s) = (b', cell) \<Longrightarrow>
    parStep X S input s (setCode t (TxBody b' # k) (s\<lparr>ps_Transactions := cell\<rparr>))"
| tx_leave: "ps_Code s t = Some (TxBody (Leaving panicked) # k) \<Longrightarrow>
    parStep X S input s (setCode t
      (RunExtractor (input\<lparr>in_Transactions := cellResult panicked (ps_Transactions s)\<rparr>) # k)
      (s\<lparr>ps_Transactions := (ps_Transactions s)\<lparr>oc_Done := True\<rparr>, ps_TxRunner := None\<rparr>))"
| tx_cached: "ps_Code s t = Some (CallStream # k) \<Longrightarrow> tableSource t = FromTransactions \<Longrightarrow> oc_Done (ps_Transactions s) \<Longrightarrow>
    parStep X S input s (setCode t (RunExtractor (input\<lparr>in_Transactions := cellResult False (ps_Transactions s)\<rparr>) # k) s)"
| ch_enter: "ps_Code s t = Some (CallStream # k) \<Longrightarrow> tableSource t = FromChanges \<Longrightarrow>
    \<not> oc_Done (ps_Changes s) \<Longrightarrow> ps_ChRunner s = None \<Longrightarrow>
    parStep X S input s (setCode t (ChBody Opening # k) (s\<lparr>ps_ChRunner := Some t\<rparr>))"
| ch_body: "ps_Code s t = Some (ChBody b # k) \<Longrightarrow> \<forall>p. b \<noteq> Leaving p \<Longrightarrow>
    changesBody (sr_Changes S) b (ps_Changes s) = (b', cell) \<Longrightarrow>
    parStep X S input s (setCode t (ChBody b' # k) (s\<lparr>ps_Changes := cell\<rparr>))"
| ch_leave: "ps_Code s t = Some (ChBody (Leaving panicked) # k) \<Longrightarrow>
    parStep X S input s (setCode t
      (RunExtractor (input\<lparr>in_Changes := cellResult panicked (ps_Changes s)\<rparr>) # k)
      (s\<lparr>ps_Changes := (ps_Changes s)\<lparr>oc_Done := True\<rparr>, ps_ChRunner := None\<rparr>))"
| ch_cached: "ps_Code s t = Some (CallStream # k) \<Longrightarrow> tableSource t = FromChanges \<Longrightarrow> oc_Done (ps_Changes s) \<Longrightarrow>
    parStep X S input s (setCode t (RunExtractor (input\<lparr>in_Changes := cellResult False (ps_Changes s)\<rparr>) # k) s)"
| extractor: "ps_Code s t = Some (RunExtractor held # k) \<Longrightarrow>
    parStep X S input s (setCode t (outcomeCode t (extractTable X t held) @ k) s)"
| lock: "ps_Code s t = Some (LockMu # k) \<Longrightarrow> ps_Mutex s = None \<Longrightarrow>
    parStep X S input s (setCode t k (s\<lparr>ps_Mutex := Some t\<rparr>))"
| unlock: "ps_Code s t = Some (UnlockMu # k) \<Longrightarrow> ps_Mutex s = Some t \<Longrightarrow>
    parStep X S input s (setCode t k (s\<lparr>ps_Mutex := None\<rparr>))"
| store: "ps_Code s t = Some (StoreRows rows # k) \<Longrightarrow>
    parStep X S input s (setCode t k (s\<lparr>ps_Data := setRows rows (ps_Data s)\<rparr>))"
| load: "ps_Code s t = Some (LoadErrs e # k) \<Longrightarrow>
    parStep X S input s (setCode t (AppendErr (ps_Errs s) e # k) s)"
| append_err: "ps_Code s t = Some (AppendErr old e # k) \<Longrightarrow>
    parStep X S input s (setCode t k (s\<lparr>ps_Errs := old @ [e]\<rparr>))"
| wg_done: "ps_Code s t = Some (WgDone # k) \<Longrightarrow> 0 < ps_Wait s \<Longrightarrow>
    parStep X S input s (setCode t k (s\<lparr>ps_Wait := ps_Wait s - 1\<rparr>))"

text \<open>\<open>ExtractAll\<close> has returned when the calling goroutine has nothing left.\<close>

definition returned :: "'f par_state \<Rightarrow> bool" where
  "returned s \<longleftrightarrow> ps_Main s = []"

section \<open>Runs that end\<close>

text \<open>
  What termination of a step relation rests on: an invariant, work that every step lowers, and a step in every state
  that is not final.
\<close>

locale bounded_runs =
  fixes step :: "'s \<Rightarrow> 's \<Rightarrow> bool" and start :: 's and ok :: "'s \<Rightarrow> bool" and work :: "'s \<Rightarrow> nat" and final :: "'s \<Rightarrow> bool"
  assumes ok_start: "ok start"
    and ok_step: "ok s \<Longrightarrow> step s s' \<Longrightarrow> ok s'"
    and work_step: "ok s \<Longrightarrow> step s s' \<Longrightarrow> work s' < work s"
    and progress: "ok s \<Longrightarrow> (\<nexists>s'. step s s') \<longleftrightarrow> final s"
begin

lemma run_bound: "(step ^^ n) start s \<Longrightarrow> ok s \<and> n + work s \<le> work start"
proof (induction n arbitrary: s)
  case 0
  then show ?case using ok_start by simp
next
  case (Suc n)
  then obtain s0 where s0: "(step ^^ n) start s0" "step s0 s" by auto
  with Suc.IH [OF s0(1)] ok_step work_step show ?case by fastforce
qed

lemma reachable_ok: "step\<^sup>*\<^sup>* start s \<Longrightarrow> ok s"
  using run_bound by (auto dest: rtranclp_imp_relpowp)

lemma completes: "ok s \<Longrightarrow> \<exists>s'. step\<^sup>*\<^sup>* s s' \<and> final s'"
proof (induction "work s" arbitrary: s rule: less_induct)
  case less
  show ?case
  proof (cases "final s")
    case False
    then obtain s1 where s1: "step s s1" using progress [OF less.prems] by blast
    with less ok_step work_step obtain s' where "step\<^sup>*\<^sup>* s1 s'" "final s'" by metis
    with s1 show ?thesis by (meson converse_rtranclp_into_rtranclp)
  qed blast
qed

lemma run_ends:
  assumes "(step ^^ n) start s"
  shows "n \<le> work start \<and> ((\<nexists>s'. step s s') \<longleftrightarrow> final s) \<and> (\<exists>s'. step\<^sup>*\<^sup>* s s' \<and> final s')"
  using run_bound [OF assms] progress completes by fastforce

end

interpretation coarse: bounded_runs "runStep X S input" startState "\<lambda>s. True" workLeft finished for X S input
proof
  show "workLeft s' < workLeft s" if "runStep X S input s s'" for s s' using runStep_work [OF that] by simp
  show "(\<nexists>s'. runStep X S input s s') \<longleftrightarrow> finished s" for s using finished_iff_stuck [of s X S input] by blast
qed simp_all

section \<open>The invariant\<close>

text \<open>
  The points of a goroutine, with the phase of the two-step goroutine it stands for.  The switch to \<open>Holding\<close> is
  the return of the cache, that to \<open>Done\<close> the write to the shared result.
\<close>

inductive atPoint :: "'f extract_env \<Rightarrow> table \<Rightarrow> 'f instr list option \<Rightarrow> phase \<Rightarrow> bool"
  for X :: "'f extract_env" and t :: table where
  "atPoint X t None Started"
| "atPoint X t (Some [CallStream, WgDone]) Started"
| "tableSource t = FromTransactions \<Longrightarrow> atPoint X t (Some [TxBody b, WgDone]) Started"
| "tableSource t = FromChanges \<Longrightarrow> atPoint X t (Some [ChBody b', WgDone]) Started"
| "atPoint X t (Some [RunExtractor held, WgDone]) (Holding held)"
| "extractTable X t held = Ok rows \<Longrightarrow> atPoint X t (Some [LockMu, StoreRows rows, UnlockMu, WgDone]) (Holding held)"
| "(\<nexists>rows. extractTable X t held = Ok rows) \<Longrightarrow> tableErrors X held t = [e] \<Longrightarrow>
     atPoint X t (Some [LockMu, LoadErrs e, UnlockMu, WgDone]) (Holding held)"
| "extractTable X t held = Ok rows \<Longrightarrow> atPoint X t (Some [StoreRows rows, UnlockMu, WgDone]) (Holding held)"
| "(\<nexists>rows. extractTable X t held = Ok rows) \<Longrightarrow> tableErrors X held t = [e] \<Longrightarrow>
     atPoint X t (Some [LoadErrs e, UnlockMu, WgDone]) (Holding held)"
| "(\<nexists>rows. extractTable X t held = Ok rows) \<Longrightarrow> tableErrors X held t = [e] \<Longrightarrow>
     atPoint X t (Some [AppendErr old e, UnlockMu, WgDone]) (Holding held)"
| "atPoint X t (Some [UnlockMu, WgDone]) Done"
| "atPoint X t (Some [WgDone]) Done"
| "atPoint X t (Some []) Done"

inductive_cases atCall: "atPoint X t (Some (CallStream # k)) ph"
inductive_cases atTx: "atPoint X t (Some (TxBody b # k)) ph"
inductive_cases atCh: "atPoint X t (Some (ChBody b # k)) ph"
inductive_cases atRun: "atPoint X t (Some (RunExtractor held # k)) ph"
inductive_cases atLock: "atPoint X t (Some (LockMu # k)) ph"
inductive_cases atUnlock: "atPoint X t (Some (UnlockMu # k)) ph"
inductive_cases atStore: "atPoint X t (Some (StoreRows rows # k)) ph"
inductive_cases atLoad: "atPoint X t (Some (LoadErrs e # k)) ph"
inductive_cases atAppend: "atPoint X t (Some (AppendErr old e # k)) ph"
inductive_cases atDone: "atPoint X t (Some (WgDone # k)) ph"

lemma atOutcome: "atPoint X t (Some (outcomeCode t (extractTable X t held) @ [WgDone])) (Holding held)"
  by (cases "extractTable X t held") (auto simp: tableErrors_def intro: atPoint.intros)

text \<open>The statements between \<open>Lock\<close> and the end of \<open>Unlock\<close>, and those of the two bodies.\<close>

fun critical :: "'f instr list option \<Rightarrow> bool" where
  "critical (Some (UnlockMu # k)) = True" | "critical (Some (StoreRows rows # k)) = True"
| "critical (Some (LoadErrs e # k)) = True" | "critical (Some (AppendErr old e # k)) = True"
| "critical c = False"

fun txBodyOf :: "'f instr list option \<Rightarrow> ledger_tx body option" where
  "txBodyOf (Some (TxBody b # k)) = Some b" | "txBodyOf c = None"

fun chBodyOf :: "'f instr list option \<Rightarrow> change body option" where
  "chBodyOf (Some (ChBody b # k)) = Some b" | "chBodyOf c = None"

fun alive :: "'f instr list option \<Rightarrow> nat" where
  "alive (Some (i # k)) = 1" | "alive c = 0"

text \<open>A body with its cell: what is set and what is still to come make up the whole walk of the stream.\<close>

definition bodyOk :: "string \<Rightarrow> string \<Rightarrow> 'a stream \<Rightarrow> 'a body \<Rightarrow> 'a once \<Rightarrow> bool" where
  "bodyOk createMsg readMsg stream b cell \<longleftrightarrow> \<not> oc_Done cell \<and> (case b of
     Opening \<Rightarrow> cell = freshOnce
   | Reading rs \<Rightarrow> oc_Err cell = None \<and> readLoop readMsg (oc_Rows cell) rs = walkStream createMsg readMsg stream
   | Leaving panicked \<Rightarrow> (oc_Rows cell, oc_Err cell, panicked) = walkStream createMsg readMsg stream)"

lemma bodyOk_step:
  "bodyOk createMsg readMsg stream b cell \<Longrightarrow> bodyStep createMsg readMsg stream b cell = (b', cell') \<Longrightarrow>
   bodyOk createMsg readMsg stream b' cell'"
  by (induction createMsg readMsg stream b cell rule: bodyStep.induct)
    (auto simp: bodyOk_def freshOnce_def walkStream_def split: res.splits)

text \<open>A cache: its cell as the one-step call of \<open>Extract\<close> sees it, and the state of its body.\<close>

definition cacheOk ::
    "string \<Rightarrow> string \<Rightarrow> 'a stream \<Rightarrow> table option \<Rightarrow> (table \<Rightarrow> 'a body option) \<Rightarrow> 'a once \<Rightarrow> 'a once \<Rightarrow> bool" where
  "cacheOk createMsg readMsg stream runner bodies cell c \<longleftrightarrow>
     c = (if oc_Done cell then cell else freshOnce)
     \<and> (runner = None \<longrightarrow> cell = freshOnce \<or> oc_Done cell)
     \<and> (\<forall>t. runner = Some t \<longleftrightarrow> bodies t \<noteq> None)
     \<and> (\<forall>t b. bodies t = Some b \<longrightarrow> bodyOk createMsg readMsg stream b cell)"

definition launchOk :: "'f par_state \<Rightarrow> bool" where
  "launchOk p \<longleftrightarrow>
     (\<exists>ts. ps_Main p = launchCode ts \<and> distinct ts \<and> (\<forall>t. ps_Code p t = None \<longleftrightarrow> t \<in> set ts)
       \<and> ps_Wait p = (\<Sum>t \<in> UNIV. alive (ps_Code p t)))
     \<or> (\<exists>t ts. ps_Main p = Go t # launchCode ts \<and> distinct (t # ts) \<and> (\<forall>t'. ps_Code p t' = None \<longleftrightarrow> t' \<in> set (t # ts))
       \<and> ps_Wait p = (\<Sum>t \<in> UNIV. alive (ps_Code p t)) + 1)
     \<or> ps_Main p = [] \<and> ps_Wait p = 0 \<and> (\<forall>t. ps_Code p t = Some [])"

definition matches :: "'f extract_env \<Rightarrow> sources \<Rightarrow> 'f par_state \<Rightarrow> 'f run_state \<Rightarrow> bool" where
  "matches X S p s \<longleftrightarrow> launchOk p
     \<and> (\<forall>t. atPoint X t (ps_Code p t) (rs_Phase s t))
     \<and> (\<forall>t. ps_Mutex p = Some t \<longleftrightarrow> critical (ps_Code p t))
     \<and> (\<forall>t old e k. ps_Code p t = Some (AppendErr old e # k) \<longrightarrow> old = ps_Errs p)
     \<and> cacheOk ''create transaction reader'' ''read transaction'' (sr_Transactions S) (ps_TxRunner p)
         (\<lambda>t. txBodyOf (ps_Code p t)) (ps_Transactions p) (rs_Transactions s)
     \<and> cacheOk ''create change reader'' ''read change'' (sr_Changes S) (ps_ChRunner p)
         (\<lambda>t. chBodyOf (ps_Code p t)) (ps_Changes p) (rs_Changes s)
     \<and> rs_Data s = ps_Data p \<and> rs_Errs s = ps_Errs p"

lemma matches_start: "matches X S parStart startState"
  unfolding matches_def
  by (auto simp: parStart_def startState_def launchOk_def cacheOk_def intro: atPoint.intros)

section \<open>Every step keeps it\<close>

lemma sum_update:
  fixes f g :: "table \<Rightarrow> nat"
  assumes "\<And>x. x \<noteq> t \<Longrightarrow> g x = f x"
  shows "sum g UNIV + f t = sum f UNIV + g t"
proof -
  have "sum g (UNIV - {t}) = sum f (UNIV - {t})" using assms by (intro sum.cong) auto
  then show ?thesis using sum.remove [of UNIV t f] sum.remove [of UNIV t g] by simp
qed

lemma launchOk_thread:
  assumes "launchOk p" "ps_Code p t = Some (i # k)" "ps_Code p' = (ps_Code p)(t := Some c')"
    "ps_Main p' = ps_Main p" "ps_Wait p' + 1 = ps_Wait p + alive (Some c')"
  shows "launchOk p'"
proof -
  have "(\<Sum>t \<in> UNIV. alive (ps_Code p' t)) + 1 = (\<Sum>t \<in> UNIV. alive (ps_Code p t)) + alive (Some c')"
    using sum_update [of t "\<lambda>t. alive (ps_Code p' t)" "\<lambda>t. alive (ps_Code p t)"] by (simp add: assms(2,3))
  moreover have "ps_Code p' t' = None \<longleftrightarrow> ps_Code p t' = None" for t' using assms(2,3) by simp
  moreover have "\<not> (\<forall>t. ps_Code p t = Some [])" using assms(2) by (metis list.distinct(1) option.inject)
  ultimately show ?thesis using assms(1,4,5) unfolding launchOk_def by auto
qed

text \<open>A step of a goroutine that leaves the caches alone.\<close>

lemma matches_thread:
  assumes m: "matches X S p s" "ps_Code p t = Some (i # k)"
    and code: "ps_Code p' = (ps_Code p)(t := Some c')" "ps_Main p' = ps_Main p" "ps_Wait p' + 1 = ps_Wait p + alive (Some c')"
    and phase: "rs_Phase s' = (rs_Phase s)(t := ph')" "atPoint X t (Some c') ph'"
    and mutex: "\<And>t'. ps_Mutex p' = Some t' \<longleftrightarrow> (if t' = t then critical (Some c') else critical (ps_Code p t'))"
    and errs: "\<And>t' old e k. (if t' = t then Some c' else ps_Code p t') = Some (AppendErr old e # k) \<Longrightarrow> old = ps_Errs p'"
    and tx: "cacheOk ''create transaction reader'' ''read transaction'' (sr_Transactions S) (ps_TxRunner p')
         (\<lambda>t. txBodyOf (ps_Code p' t)) (ps_Transactions p') (rs_Transactions s')"
    and ch: "cacheOk ''create change reader'' ''read change'' (sr_Changes S) (ps_ChRunner p')
         (\<lambda>t. chBodyOf (ps_Code p' t)) (ps_Changes p') (rs_Changes s')"
    and res: "rs_Data s' = ps_Data p'" "rs_Errs s' = ps_Errs p'"
  shows "matches X S p' s'"
proof -
  have "launchOk p'" using launchOk_thread [OF _ m(2) code] m(1) by (simp add: matches_def)
  moreover have "\<forall>t. atPoint X t (ps_Code p' t) (rs_Phase s' t)" using m(1) phase by (simp add: matches_def code(1))
  moreover have "\<forall>t. ps_Mutex p' = Some t \<longleftrightarrow> critical (ps_Code p' t)" using mutex by (simp add: code(1))
  moreover have "\<forall>t old e k. ps_Code p' t = Some (AppendErr old e # k) \<longrightarrow> old = ps_Errs p'"
    using errs by (auto simp: code(1))
  ultimately show ?thesis using tx ch res by (simp add: matches_def)
qed

lemma matchesD:
  assumes "matches X S p s"
  shows "launchOk p" "atPoint X t (ps_Code p t) (rs_Phase s t)" "ps_Mutex p = Some t \<longleftrightarrow> critical (ps_Code p t)"
    "ps_Code p t = Some (AppendErr old e # k) \<Longrightarrow> old = ps_Errs p"
    "cacheOk ''create transaction reader'' ''read transaction'' (sr_Transactions S) (ps_TxRunner p)
         (\<lambda>t. txBodyOf (ps_Code p t)) (ps_Transactions p) (rs_Transactions s)"
    "cacheOk ''create change reader'' ''read change'' (sr_Changes S) (ps_ChRunner p)
         (\<lambda>t. chBodyOf (ps_Code p t)) (ps_Changes p) (rs_Changes s)"
    "rs_Data s = ps_Data p" "rs_Errs s = ps_Errs p"
  using assms unfolding matches_def by blast+

lemma cacheOk_same:
  assumes "cacheOk c r S runner (\<lambda>t. bodyOf (code t)) cell st" "bodyOf (code t) = None" "bodyOf (Some c') = None"
  shows "cacheOk c r S runner (\<lambda>t'. bodyOf ((code(t := Some c')) t')) cell st"
proof -
  have "(\<lambda>t'. bodyOf ((code(t := Some c')) t')) = (\<lambda>t. bodyOf (code t))" using assms(2,3) by auto
  with assms(1) show ?thesis by simp
qed

text \<open>A step that changes only the code of a goroutine, the mutex and the results.\<close>

lemma matches_plain:
  assumes m: "matches X S p s" "ps_Code p t = Some (i # k)"
    and code: "ps_Code p' = (ps_Code p)(t := Some c')" "ps_Main p' = ps_Main p" "ps_Wait p' + 1 = ps_Wait p + alive (Some c')"
    and phase: "rs_Phase s' = (rs_Phase s)(t := ph')" "atPoint X t (Some c') ph'"
    and mutex: "\<And>t'. ps_Mutex p' = Some t' \<longleftrightarrow> (if t' = t then critical (Some c') else critical (ps_Code p t'))"
    and errs: "\<And>t' old e k. (if t' = t then Some c' else ps_Code p t') = Some (AppendErr old e # k) \<Longrightarrow> old = ps_Errs p'"
    and res: "rs_Data s' = ps_Data p'" "rs_Errs s' = ps_Errs p'"
    and bodies: "txBodyOf (Some (i # k)) = None" "chBodyOf (Some (i # k)) = None" "txBodyOf (Some c') = None" "chBodyOf (Some c') = None"
    and same: "ps_Transactions p' = ps_Transactions p" "ps_TxRunner p' = ps_TxRunner p" "rs_Transactions s' = rs_Transactions s"
      "ps_Changes p' = ps_Changes p" "ps_ChRunner p' = ps_ChRunner p" "rs_Changes s' = rs_Changes s"
  shows "matches X S p' s'"
proof (rule matches_thread [OF m code phase mutex errs _ _ res])
  show "cacheOk ''create transaction reader'' ''read transaction'' (sr_Transactions S) (ps_TxRunner p')
         (\<lambda>t. txBodyOf (ps_Code p' t)) (ps_Transactions p') (rs_Transactions s')"
    unfolding same code(1) using matchesD(5) [OF m(1)] m(2) bodies by (intro cacheOk_same) simp_all
  show "cacheOk ''create change reader'' ''read change'' (sr_Changes S) (ps_ChRunner p')
         (\<lambda>t. chBodyOf (ps_Code p' t)) (ps_Changes p') (rs_Changes s')"
    unfolding same code(1) using matchesD(6) [OF m(1)] m(2) bodies by (intro cacheOk_same) simp_all
qed

lemma launchOk_main:
  fixes p :: "'a par_state"
  assumes "launchOk p"
  shows "ps_Main p = WgAdd # m \<Longrightarrow> launchOk (p\<lparr>ps_Wait := ps_Wait p + 1, ps_Main := m\<rparr>)"
    and "ps_Main p = Go t # m \<Longrightarrow> ps_Code p t = None \<and> launchOk (setCode t goroutineCode (p\<lparr>ps_Main := m\<rparr>))"
    and "ps_Main p = WgWait # m \<Longrightarrow> ps_Wait p = 0 \<Longrightarrow> launchOk (p\<lparr>ps_Main := m\<rparr>)"
proof -
  assume main: "ps_Main p = WgAdd # m"
  with assms obtain ts where ts: "ps_Main p = launchCode ts" "distinct ts" "\<forall>t. ps_Code p t = None \<longleftrightarrow> t \<in> set ts"
    "ps_Wait p = (\<Sum>t \<in> UNIV. alive (ps_Code p t))" by (auto simp: launchOk_def)
  with main obtain t ts' where "ts = t # ts'" "m = Go t # launchCode ts'" by (cases ts) (auto simp: launchCode_def)
  with ts show "launchOk (p\<lparr>ps_Wait := ps_Wait p + 1, ps_Main := m\<rparr>)" unfolding launchOk_def by auto
next
  assume main: "ps_Main p = Go t # m"
  have no: "launchCode ts \<noteq> Go t # m" for ts by (cases ts) (simp_all add: launchCode_def)
  have "ps_Main p \<noteq> launchCode ts" for ts using main no [of ts] by simp
  with assms main obtain ts where ts: "m = launchCode ts" "distinct (t # ts)" "\<forall>t'. ps_Code p t' = None \<longleftrightarrow> t' \<in> set (t # ts)"
    "ps_Wait p = (\<Sum>t \<in> UNIV. alive (ps_Code p t)) + 1" by (auto simp: launchOk_def)
  let ?p = "setCode t goroutineCode (p\<lparr>ps_Main := m\<rparr>)"
  have code: "ps_Code ?p = (ps_Code p)(t := Some goroutineCode)" by (simp add: setCode_def)
  have alive_code: "alive (Some (goroutineCode :: 'a instr list)) = 1" by (simp add: goroutineCode_def)
  have "(\<Sum>t \<in> UNIV. alive (ps_Code ?p t)) + alive (ps_Code p t) = (\<Sum>t \<in> UNIV. alive (ps_Code p t)) + 1"
    using sum_update [of t "\<lambda>t. alive (ps_Code ?p t)" "\<lambda>t. alive (ps_Code p t)"] by (simp add: code alive_code)
  moreover have none: "ps_Code p t = None" using ts(3) by simp
  ultimately have wait: "ps_Wait ?p = (\<Sum>t \<in> UNIV. alive (ps_Code ?p t))" using ts(4) by (simp add: setCode_def)
  have "\<forall>t'. ps_Code ?p t' = None \<longleftrightarrow> t' \<in> set ts" using ts(2,3) by (auto simp: code)
  with ts(1,2) wait have "launchOk ?p" unfolding launchOk_def by (auto simp: setCode_def)
  with none show "ps_Code p t = None \<and> launchOk ?p" ..
next
  assume main: "ps_Main p = WgWait # m" "ps_Wait p = 0"
  with assms obtain ts where ts: "ps_Main p = launchCode ts" "\<forall>t. ps_Code p t = None \<longleftrightarrow> t \<in> set ts"
    "ps_Wait p = (\<Sum>t \<in> UNIV. alive (ps_Code p t))" by (auto simp: launchOk_def)
  with main(1) have nil: "ts = []" "m = []" by (cases ts; auto simp: launchCode_def)+
  have "alive (ps_Code p t) = 0" for t using ts(3) main(2) by simp
  moreover have "alive c = 0 \<Longrightarrow> c = None \<or> c = Some []" for c :: "'a instr list option"
    by (cases c rule: alive.cases) simp_all
  ultimately have "ps_Code p t = None \<or> ps_Code p t = Some []" for t by blast
  then show "launchOk (p\<lparr>ps_Main := m\<rparr>)" using ts(2) main(2) unfolding launchOk_def by (auto simp: nil)
qed

lemma matches_main:
  assumes "matches X S p s" "parStep X S input p p'" "ps_Main p' \<noteq> ps_Main p"
  shows "matches X S p' s"
  using assms(2)
proof cases
  case (wg_add m)
  with launchOk_main(1) [OF matchesD(1) [OF assms(1)]] assms(1) show ?thesis by (simp add: matches_def)
next
  case (wg_wait m)
  with launchOk_main(3) [OF matchesD(1) [OF assms(1)]] assms(1) show ?thesis by (simp add: matches_def)
next
  case (go t m)
  note p' = go(1) and main = go(2)
  from launchOk_main(2) [OF matchesD(1) [OF assms(1)] main] have none: "ps_Code p t = None" "launchOk p'" by (simp_all add: p')
  have code: "ps_Code p' = (ps_Code p)(t := Some [CallStream, WgDone])" by (simp add: p' setCode_def goroutineCode_def)
  have rest: "ps_Mutex p' = ps_Mutex p" "ps_Errs p' = ps_Errs p" "ps_Data p' = ps_Data p" "ps_TxRunner p' = ps_TxRunner p"
    "ps_ChRunner p' = ps_ChRunner p" "ps_Transactions p' = ps_Transactions p" "ps_Changes p' = ps_Changes p"
    by (simp_all add: p' setCode_def)
  have "rs_Phase s t = Started" using matchesD(2) [OF assms(1), of t] none(1) by (auto elim: atPoint.cases)
  then have "\<forall>t'. atPoint X t' (ps_Code p' t') (rs_Phase s t')"
    using matchesD(2) [OF assms(1)] by (auto simp: code intro: atPoint.intros)
  moreover have "\<forall>t'. ps_Mutex p' = Some t' \<longleftrightarrow> critical (ps_Code p' t')"
    using matchesD(3) [OF assms(1)] none(1) by (simp add: code rest)
  moreover have "\<forall>t' old e k. ps_Code p' t' = Some (AppendErr old e # k) \<longrightarrow> old = ps_Errs p'"
    using matchesD(4) [OF assms(1)] by (auto simp: code rest split: if_splits)
  moreover have "cacheOk ''create transaction reader'' ''read transaction'' (sr_Transactions S) (ps_TxRunner p')
         (\<lambda>t. txBodyOf (ps_Code p' t)) (ps_Transactions p') (rs_Transactions s)"
    unfolding rest code using matchesD(5) [OF assms(1)] none(1) by (intro cacheOk_same) simp_all
  moreover have "cacheOk ''create change reader'' ''read change'' (sr_Changes S) (ps_ChRunner p')
         (\<lambda>t. chBodyOf (ps_Code p' t)) (ps_Changes p') (rs_Changes s)"
    unfolding rest code using matchesD(6) [OF assms(1)] none(1) by (intro cacheOk_same) simp_all
  ultimately show ?thesis using none(2) matchesD(7,8) [OF assms(1)] by (simp add: matches_def rest)
qed (use assms(3) in \<open>simp_all add: setCode_def\<close>)

text \<open>The goroutine steps that leave the caches alone: what the two-step goroutine does meanwhile.\<close>

lemma matches_extractor:
  assumes "matches X S p s" "ps_Code p t = Some (RunExtractor held # k)"
  shows "matches X S (setCode t (outcomeCode t (extractTable X t held) @ k) p) s"
proof -
  from matchesD(2) [OF assms(1), of t] assms(2) have at: "k = [WgDone]" "rs_Phase s t = Holding held"
    by (auto elim: atRun)
  have "\<exists>k'. outcomeCode t (extractTable X t held) @ k = LockMu # k'" by (cases "extractTable X t held") simp_all
  then show ?thesis
    using matchesD(3,4,7,8) [OF assms(1)] assms(2) atOutcome [of X t held]
    by (intro matches_plain [OF assms, where ph' = "Holding held" and c' = "outcomeCode t (extractTable X t held) @ k"])
      (auto simp: setCode_def at fun_upd_idem split: if_splits)
qed

lemma matches_lock:
  assumes "matches X S p s" "ps_Code p t = Some (LockMu # k)" "ps_Mutex p = None"
  shows "matches X S (setCode t k (p\<lparr>ps_Mutex := Some t\<rparr>)) s"
proof -
  have free: "\<not> critical (ps_Code p t')" for t' using matchesD(3) [OF assms(1), of t'] assms(3) by simp
  from matchesD(2) [OF assms(1), of t] assms(2) obtain held i where
    k: "k = [i, UnlockMu, WgDone]" "rs_Phase s t = Holding held" "atPoint X t (Some k) (Holding held)"
      "(\<exists>rows. i = StoreRows rows) \<or> (\<exists>e. i = LoadErrs e)"
    by (auto elim!: atLock intro: atPoint.intros)
  then have "critical (Some k)" by auto
  with k show ?thesis
    using matchesD(4,7,8) [OF assms(1)] free
    by (intro matches_plain [OF assms(1,2), where ph' = "Holding held" and c' = k])
      (auto simp: setCode_def fun_upd_idem split: if_splits)
qed

lemma matches_unlock:
  assumes "matches X S p s" "ps_Code p t = Some (UnlockMu # k)"
  shows "matches X S (setCode t k (p\<lparr>ps_Mutex := None\<rparr>)) s"
proof -
  from matchesD(2) [OF assms(1), of t] assms(2) have k: "k = [WgDone]" "rs_Phase s t = Done" by (auto elim: atUnlock)
  have "ps_Mutex p = Some t" using matchesD(3) [OF assms(1), of t] assms(2) by simp
  then have "\<not> critical (ps_Code p t')" if "t' \<noteq> t" for t' using matchesD(3) [OF assms(1), of t'] that by simp
  then show ?thesis
    using matchesD(4,7,8) [OF assms(1)]
    by (intro matches_plain [OF assms, where ph' = Done and c' = k])
      (auto simp: setCode_def fun_upd_idem k split: if_splits intro: atPoint.intros)
qed

lemma matches_store:
  assumes "matches X S p s" "ps_Code p t = Some (StoreRows rows # k)"
  shows "\<exists>s'. runStep X S input s s' \<and> matches X S (setCode t k (p\<lparr>ps_Data := setRows rows (ps_Data p)\<rparr>)) s'"
proof -
  from matchesD(2) [OF assms(1), of t] assms(2) obtain held where k: "k = [UnlockMu, WgDone]" "rs_Phase s t = Holding held"
    "extractTable X t held = Ok rows" by (auto elim!: atStore)
  have mutex: "ps_Mutex p = Some t" using matchesD(3) [OF assms(1), of t] assms(2) by simp
  have "matches X S (setCode t k (p\<lparr>ps_Data := setRows rows (ps_Data p)\<rparr>)) (finishStep X held t s)"
    using matchesD(3,4,7,8) [OF assms(1)] mutex
    by (intro matches_plain [OF assms, where ph' = Done and c' = k])
      (auto simp: setCode_def k finishStep_def Let_def split: if_splits intro: atPoint.intros)
  with runStep.finish [OF k(2)] show ?thesis by blast
qed

lemma matches_load:
  assumes "matches X S p s" "ps_Code p t = Some (LoadErrs e # k)"
  shows "matches X S (setCode t (AppendErr (ps_Errs p) e # k) p) s"
proof -
  from matchesD(2) [OF assms(1), of t] assms(2) obtain held where k: "k = [UnlockMu, WgDone]" "rs_Phase s t = Holding held"
    "atPoint X t (Some (AppendErr (ps_Errs p) e # k)) (Holding held)" by (auto elim!: atLoad intro: atPoint.intros)
  then show ?thesis
    using matchesD(3,4,7,8) [OF assms(1)] assms(2)
    by (intro matches_plain [OF assms, where ph' = "Holding held" and c' = "AppendErr (ps_Errs p) e # k"])
      (auto simp: setCode_def fun_upd_idem split: if_splits)
qed

lemma matches_append:
  assumes "matches X S p s" "ps_Code p t = Some (AppendErr old e # k)"
  shows "\<exists>s'. runStep X S input s s' \<and> matches X S (setCode t k (p\<lparr>ps_Errs := old @ [e]\<rparr>)) s'"
proof -
  from matchesD(2) [OF assms(1), of t] assms(2) obtain held where k: "k = [UnlockMu, WgDone]" "rs_Phase s t = Holding held"
    and err: "\<nexists>rows. extractTable X t held = Ok rows" "tableErrors X held t = [e]" by (auto elim!: atAppend)
  have old: "old = ps_Errs p" by (rule matchesD(4) [OF assms])
  have mutex: "ps_Mutex p = Some t" using matchesD(3) [OF assms(1), of t] assms(2) by simp
  have alone: "ps_Code p t' \<noteq> Some (AppendErr old' e' # k')" if "t' \<noteq> t" for t' old' e' k'
    using matchesD(3) [OF assms(1), of t'] mutex that by auto
  have data: "rs_Data (finishStep X held t s) = rs_Data s"
    using err(1) by (auto simp: finishStep_def Let_def split: res.split)
  have "matches X S (setCode t k (p\<lparr>ps_Errs := old @ [e]\<rparr>)) (finishStep X held t s)"
    using matchesD(3,7,8) [OF assms(1)] mutex alone
    by (intro matches_plain [OF assms, where ph' = Done and c' = k])
      (auto simp: setCode_def k old err(2) data split: if_splits intro: atPoint.intros)
  with runStep.finish [OF k(2)] show ?thesis by blast
qed

lemma matches_wg_done:
  assumes "matches X S p s" "ps_Code p t = Some (WgDone # k)" "0 < ps_Wait p"
  shows "matches X S (setCode t k (p\<lparr>ps_Wait := ps_Wait p - 1\<rparr>)) s"
proof -
  from matchesD(2) [OF assms(1), of t] assms(2) have k: "k = []" "rs_Phase s t = Done" by (auto elim: atDone)
  then show ?thesis
    using matchesD(3,4,7,8) [OF assms(1)] assms(2,3)
    by (intro matches_plain [OF assms(1,2), where ph' = Done and c' = k])
      (auto simp: setCode_def fun_upd_idem split: if_splits intro: atPoint.intros)
qed

text \<open>
  The steps of a cache, for either of the two: entering, a step of the body, leaving, and a later call.  The one-step
  call of \<open>Extract\<close> happens when the body leaves.
\<close>

lemma cacheOk_enter:
  assumes "cacheOk c r S None bodies cell st" "\<not> oc_Done cell"
  shows "cacheOk c r S (Some t) (bodies(t := Some Opening)) cell st"
  using assms by (auto simp: cacheOk_def bodyOk_def freshOnce_def)

lemma cacheOk_body:
  assumes "cacheOk c r S runner bodies cell st" "bodies t = Some b" "bodyStep c r S b cell = (b', cell')"
  shows "cacheOk c r S runner (bodies(t := Some b')) cell' st"
proof -
  from assms(1,2) have ok: "bodyOk c r S b cell" "runner = Some t" by (auto simp: cacheOk_def)
  then have "\<forall>t'. bodies t' \<noteq> None \<longleftrightarrow> t' = t" using assms(1) by (auto simp: cacheOk_def)
  moreover have "bodyOk c r S b' cell'" by (rule bodyOk_step [OF ok(1) assms(3)])
  moreover from this ok(1) have "\<not> oc_Done cell'" "\<not> oc_Done cell" by (simp_all add: bodyOk_def)
  ultimately show ?thesis using assms(1) ok(2) by (auto simp: cacheOk_def)
qed

lemma cacheOk_leave:
  assumes "cacheOk c r S runner bodies cell st" "bodies t = Some (Leaving panicked)"
  shows "cacheOk c r S None (bodies(t := None)) (cell\<lparr>oc_Done := True\<rparr>) (snd (onceCall (walkStream c r S) st))"
    "callerSees (fst (onceCall (walkStream c r S) st)) = cellResult panicked cell"
proof -
  from assms have ok: "bodyOk c r S (Leaving panicked) cell" "runner = Some t" by (auto simp: cacheOk_def)
  then have walk: "walkStream c r S = (oc_Rows cell, oc_Err cell, panicked)" and new: "\<not> oc_Done cell"
    by (simp_all add: bodyOk_def)
  then have st: "st = freshOnce" using assms(1) by (simp add: cacheOk_def)
  have others: "\<forall>t'. bodies t' \<noteq> None \<longleftrightarrow> t' = t" using assms(1) ok(2) by (auto simp: cacheOk_def)
  show "callerSees (fst (onceCall (walkStream c r S) st)) = cellResult panicked cell"
    by (simp add: walk st onceCall_def freshOnce_def cellResult_def)
  show "cacheOk c r S None (bodies(t := None)) (cell\<lparr>oc_Done := True\<rparr>) (snd (onceCall (walkStream c r S) st))"
    using others by (auto simp: cacheOk_def walk st onceCall_def freshOnce_def)
qed

lemma cacheOk_cached:
  assumes "cacheOk c r S runner bodies cell st" "oc_Done cell"
  shows "snd (onceCall body st) = st" "callerSees (fst (onceCall body st)) = cellResult False cell"
  using assms by (simp_all add: cacheOk_def onceCall_def cellResult_def)

lemma bodies_upd:
  "(\<lambda>t'. txBodyOf ((code(t := Some c')) t')) = (\<lambda>t. txBodyOf (code t))(t := txBodyOf (Some c'))"
  "(\<lambda>t'. chBodyOf ((code(t := Some c')) t')) = (\<lambda>t. chBodyOf (code t))(t := chBodyOf (Some c'))"
  by auto

text \<open>The parts of a step of a goroutine that has not yet got its input.\<close>

lemma matches_cache:
  assumes m: "matches X S p s" "ps_Code p t = Some (i # k)"
    and code: "ps_Code p' = (ps_Code p)(t := Some (i' # k'))" "ps_Main p' = ps_Main p" "ps_Wait p' = ps_Wait p"
    and same: "ps_Mutex p' = ps_Mutex p" "ps_Errs p' = ps_Errs p" "ps_Data p' = ps_Data p"
      "rs_Data s' = rs_Data s" "rs_Errs s' = rs_Errs s"
    and at: "rs_Phase s' = (rs_Phase s)(t := ph')" "atPoint X t (Some (i' # k')) ph'"
    and free: "\<not> critical (Some (i # k))" "\<not> critical (Some (i' # k'))"
    and tx: "cacheOk ''create transaction reader'' ''read transaction'' (sr_Transactions S) (ps_TxRunner p')
         ((\<lambda>t. txBodyOf (ps_Code p t))(t := txBodyOf (Some (i' # k')))) (ps_Transactions p') (rs_Transactions s')"
    and ch: "cacheOk ''create change reader'' ''read change'' (sr_Changes S) (ps_ChRunner p')
         ((\<lambda>t. chBodyOf (ps_Code p t))(t := chBodyOf (Some (i' # k')))) (ps_Changes p') (rs_Changes s')"
  shows "matches X S p' s'"
proof (rule matches_thread [OF m code(1,2) _ at])
  show "ps_Mutex p' = Some t' \<longleftrightarrow> (if t' = t then critical (Some (i' # k')) else critical (ps_Code p t'))" for t'
    using matchesD(3) [OF m(1), of t'] m(2) free by (simp add: same)
  show "old = ps_Errs p'" if "(if t' = t then Some (i' # k') else ps_Code p t') = Some (AppendErr old e # k'')" for t' old e k''
    using that free matchesD(4) [OF m(1)] by (auto simp: same split: if_splits)
  show "cacheOk ''create transaction reader'' ''read transaction'' (sr_Transactions S) (ps_TxRunner p')
         (\<lambda>t. txBodyOf (ps_Code p' t)) (ps_Transactions p') (rs_Transactions s')"
    using tx by (simp only: code(1) bodies_upd)
  show "cacheOk ''create change reader'' ''read change'' (sr_Changes S) (ps_ChRunner p')
         (\<lambda>t. chBodyOf (ps_Code p' t)) (ps_Changes p') (rs_Changes s')"
    using ch by (simp only: code(1) bodies_upd)
qed (use matchesD(7,8) [OF m(1)] in \<open>simp_all add: code(3) same\<close>)

lemma body_idle:
  "txBodyOf (ps_Code p t) = None \<Longrightarrow> (\<lambda>t. txBodyOf (ps_Code p t))(t := None) = (\<lambda>t. txBodyOf (ps_Code p t))"
  "chBodyOf (ps_Code p t) = None \<Longrightarrow> (\<lambda>t. chBodyOf (ps_Code p t))(t := None) = (\<lambda>t. chBodyOf (ps_Code p t))"
  by (simp_all add: fun_upd_idem)

lemma fetched:
  "rs_Phase s t = Started \<Longrightarrow> tableSource t = FromLedger \<Longrightarrow>
     runStep X S input s (s\<lparr>rs_Phase := (rs_Phase s)(t := Holding input)\<rparr>)"
  "rs_Phase s t = Started \<Longrightarrow> tableSource t = FromTransactions \<Longrightarrow> transactionsOnce (sr_Transactions S) (rs_Transactions s) = (r, cell) \<Longrightarrow>
     runStep X S input s (s\<lparr>rs_Transactions := cell,
       rs_Phase := (rs_Phase s)(t := Holding (input\<lparr>in_Transactions := callerSees r\<rparr>))\<rparr>)"
  "rs_Phase s t = Started \<Longrightarrow> tableSource t = FromChanges \<Longrightarrow> changesOnce (sr_Changes S) (rs_Changes s) = (r', cell') \<Longrightarrow>
     runStep X S input s (s\<lparr>rs_Changes := cell',
       rs_Phase := (rs_Phase s)(t := Holding (input\<lparr>in_Changes := callerSees r'\<rparr>))\<rparr>)"
  using runStep.fetch [of s t X S input] by (simp_all add: fetchStep_def)

lemma matches_no_stream:
  assumes "matches X S p s" "ps_Code p t = Some (CallStream # k)" "tableSource t = FromLedger"
  shows "\<exists>s'. runStep X S input s s' \<and> matches X S (setCode t (RunExtractor input # k) p) s'"
proof -
  from matchesD(2) [OF assms(1), of t] assms(2) have k: "k = [WgDone]" "rs_Phase s t = Started" by (auto elim: atCall)
  let ?s = "s\<lparr>rs_Phase := (rs_Phase s)(t := Holding input)\<rparr>"
  have "matches X S (setCode t (RunExtractor input # k) p) ?s"
    using matchesD(5,6) [OF assms(1)] assms(2)
    by (intro matches_cache [OF assms(1,2), where ph' = "Holding input" and i' = "RunExtractor input" and k' = k])
      (simp_all add: setCode_def k(1) atPoint.intros body_idle)
  with fetched(1) [OF k(2) assms(3)] show ?thesis by blast
qed

lemma matches_tx_enter:
  assumes "matches X S p s" "ps_Code p t = Some (CallStream # k)" "tableSource t = FromTransactions"
    "\<not> oc_Done (ps_Transactions p)" "ps_TxRunner p = None"
  shows "matches X S (setCode t (TxBody Opening # k) (p\<lparr>ps_TxRunner := Some t\<rparr>)) s"
proof -
  from matchesD(2) [OF assms(1), of t] assms(2) have k: "k = [WgDone]" "rs_Phase s t = Started" by (auto elim: atCall)
  then show ?thesis
    using matchesD(5,6) [OF assms(1)] assms
    by (intro matches_cache [OF assms(1,2), where ph' = Started and i' = "TxBody Opening" and k' = k])
      (simp_all add: setCode_def atPoint.intros body_idle cacheOk_enter fun_upd_idem)
qed

lemma matches_tx_body:
  assumes "matches X S p s" "ps_Code p t = Some (TxBody b # k)"
    "transactionsBody (sr_Transactions S) b (ps_Transactions p) = (b', cell)"
  shows "matches X S (setCode t (TxBody b' # k) (p\<lparr>ps_Transactions := cell\<rparr>)) s"
proof -
  from matchesD(2) [OF assms(1), of t] assms(2) have k: "k = [WgDone]" "rs_Phase s t = Started" "tableSource t = FromTransactions"
    by (auto elim: atTx)
  then show ?thesis
    using matchesD(5,6) [OF assms(1)] assms(2)
      cacheOk_body [OF matchesD(5) [OF assms(1)], of t b b' cell] assms(3)
    by (intro matches_cache [OF assms(1,2), where ph' = Started and i' = "TxBody b'" and k' = k])
      (simp_all add: setCode_def atPoint.intros body_idle fun_upd_idem transactionsBody_def)
qed

lemma matches_tx_leave:
  assumes "matches X S p s" "ps_Code p t = Some (TxBody (Leaving panicked) # k)"
  shows "\<exists>s'. runStep X S input s s' \<and> matches X S (setCode t
      (RunExtractor (input\<lparr>in_Transactions := cellResult panicked (ps_Transactions p)\<rparr>) # k)
      (p\<lparr>ps_Transactions := (ps_Transactions p)\<lparr>oc_Done := True\<rparr>, ps_TxRunner := None\<rparr>)) s'"
proof -
  from matchesD(2) [OF assms(1), of t] assms(2) have k: "k = [WgDone]" "rs_Phase s t = Started" "tableSource t = FromTransactions"
    by (auto elim: atTx)
  let ?walk = "walkStream ''create transaction reader'' ''read transaction'' (sr_Transactions S)"
  note cell = cacheOk_leave [OF matchesD(5) [OF assms(1)], of t panicked]
  let ?held = "input\<lparr>in_Transactions := cellResult panicked (ps_Transactions p)\<rparr>"
  let ?s = "s\<lparr>rs_Transactions := snd (onceCall ?walk (rs_Transactions s)), rs_Phase := (rs_Phase s)(t := Holding ?held)\<rparr>"
  have "transactionsOnce (sr_Transactions S) (rs_Transactions s)
      = (fst (onceCall ?walk (rs_Transactions s)), snd (onceCall ?walk (rs_Transactions s)))" by (simp add: transactionsOnce_def)
  from fetched(2) [OF k(2,3) this, of X input] have "runStep X S input s ?s" using cell(2) assms(2) by simp
  moreover have "matches X S (setCode t (RunExtractor ?held # k)
      (p\<lparr>ps_Transactions := (ps_Transactions p)\<lparr>oc_Done := True\<rparr>, ps_TxRunner := None\<rparr>)) ?s"
    using matchesD(6) [OF assms(1)] assms(2) cell(1)
    by (intro matches_cache [OF assms(1,2), where ph' = "Holding ?held" and i' = "RunExtractor ?held" and k' = k])
      (simp_all add: setCode_def k atPoint.intros body_idle)
  ultimately show ?thesis by blast
qed

lemma matches_tx_cached:
  assumes "matches X S p s" "ps_Code p t = Some (CallStream # k)" "tableSource t = FromTransactions" "oc_Done (ps_Transactions p)"
  shows "\<exists>s'. runStep X S input s s'
    \<and> matches X S (setCode t (RunExtractor (input\<lparr>in_Transactions := cellResult False (ps_Transactions p)\<rparr>) # k) p) s'"
proof -
  from matchesD(2) [OF assms(1), of t] assms(2) have k: "k = [WgDone]" "rs_Phase s t = Started" by (auto elim: atCall)
  let ?walk = "walkStream ''create transaction reader'' ''read transaction'' (sr_Transactions S)"
  note cell = cacheOk_cached [OF matchesD(5) [OF assms(1)] assms(4), of ?walk]
  let ?held = "input\<lparr>in_Transactions := cellResult False (ps_Transactions p)\<rparr>"
  let ?s = "s\<lparr>rs_Transactions := rs_Transactions s, rs_Phase := (rs_Phase s)(t := Holding ?held)\<rparr>"
  have "transactionsOnce (sr_Transactions S) (rs_Transactions s) = (fst (onceCall ?walk (rs_Transactions s)), rs_Transactions s)"
    by (simp add: transactionsOnce_def prod_eq_iff cell(1))
  from fetched(2) [OF k(2) assms(3) this, of X input] have "runStep X S input s ?s" using cell(2) by simp
  moreover have "matches X S (setCode t (RunExtractor ?held # k) p) ?s"
    using matchesD(5,6) [OF assms(1)] assms(2)
    by (intro matches_cache [OF assms(1,2), where ph' = "Holding ?held" and i' = "RunExtractor ?held" and k' = k])
      (simp_all add: setCode_def k atPoint.intros body_idle)
  ultimately show ?thesis by blast
qed

lemma matches_ch_enter:
  assumes "matches X S p s" "ps_Code p t = Some (CallStream # k)" "tableSource t = FromChanges"
    "\<not> oc_Done (ps_Changes p)" "ps_ChRunner p = None"
  shows "matches X S (setCode t (ChBody Opening # k) (p\<lparr>ps_ChRunner := Some t\<rparr>)) s"
proof -
  from matchesD(2) [OF assms(1), of t] assms(2) have k: "k = [WgDone]" "rs_Phase s t = Started" by (auto elim: atCall)
  then show ?thesis
    using matchesD(5,6) [OF assms(1)] assms
    by (intro matches_cache [OF assms(1,2), where ph' = Started and i' = "ChBody Opening" and k' = k])
      (simp_all add: setCode_def atPoint.intros body_idle cacheOk_enter fun_upd_idem)
qed

lemma matches_ch_body:
  assumes "matches X S p s" "ps_Code p t = Some (ChBody b # k)"
    "changesBody (sr_Changes S) b (ps_Changes p) = (b', cell)"
  shows "matches X S (setCode t (ChBody b' # k) (p\<lparr>ps_Changes := cell\<rparr>)) s"
proof -
  from matchesD(2) [OF assms(1), of t] assms(2) have k: "k = [WgDone]" "rs_Phase s t = Started" "tableSource t = FromChanges"
    by (auto elim: atCh)
  then show ?thesis
    using matchesD(5,6) [OF assms(1)] assms(2)
      cacheOk_body [OF matchesD(6) [OF assms(1)], of t b b' cell] assms(3)
    by (intro matches_cache [OF assms(1,2), where ph' = Started and i' = "ChBody b'" and k' = k])
      (simp_all add: setCode_def atPoint.intros body_idle fun_upd_idem changesBody_def)
qed

lemma matches_ch_leave:
  assumes "matches X S p s" "ps_Code p t = Some (ChBody (Leaving panicked) # k)"
  shows "\<exists>s'. runStep X S input s s' \<and> matches X S (setCode t
      (RunExtractor (input\<lparr>in_Changes := cellResult panicked (ps_Changes p)\<rparr>) # k)
      (p\<lparr>ps_Changes := (ps_Changes p)\<lparr>oc_Done := True\<rparr>, ps_ChRunner := None\<rparr>)) s'"
proof -
  from matchesD(2) [OF assms(1), of t] assms(2) have k: "k = [WgDone]" "rs_Phase s t = Started" "tableSource t = FromChanges"
    by (auto elim: atCh)
  let ?walk = "walkStream ''create change reader'' ''read change'' (sr_Changes S)"
  note cell = cacheOk_leave [OF matchesD(6) [OF assms(1)], of t panicked]
  let ?held = "input\<lparr>in_Changes := cellResult panicked (ps_Changes p)\<rparr>"
  let ?s = "s\<lparr>rs_Changes := snd (onceCall ?walk (rs_Changes s)), rs_Phase := (rs_Phase s)(t := Holding ?held)\<rparr>"
  have "changesOnce (sr_Changes S) (rs_Changes s)
      = (fst (onceCall ?walk (rs_Changes s)), snd (onceCall ?walk (rs_Changes s)))" by (simp add: changesOnce_def)
  from fetched(3) [OF k(2,3) this, of X input] have "runStep X S input s ?s" using cell(2) assms(2) by simp
  moreover have "matches X S (setCode t (RunExtractor ?held # k)
      (p\<lparr>ps_Changes := (ps_Changes p)\<lparr>oc_Done := True\<rparr>, ps_ChRunner := None\<rparr>)) ?s"
    using matchesD(5) [OF assms(1)] assms(2) cell(1)
    by (intro matches_cache [OF assms(1,2), where ph' = "Holding ?held" and i' = "RunExtractor ?held" and k' = k])
      (simp_all add: setCode_def k atPoint.intros body_idle)
  ultimately show ?thesis by blast
qed

lemma matches_ch_cached:
  assumes "matches X S p s" "ps_Code p t = Some (CallStream # k)" "tableSource t = FromChanges" "oc_Done (ps_Changes p)"
  shows "\<exists>s'. runStep X S input s s'
    \<and> matches X S (setCode t (RunExtractor (input\<lparr>in_Changes := cellResult False (ps_Changes p)\<rparr>) # k) p) s'"
proof -
  from matchesD(2) [OF assms(1), of t] assms(2) have k: "k = [WgDone]" "rs_Phase s t = Started" by (auto elim: atCall)
  let ?walk = "walkStream ''create change reader'' ''read change'' (sr_Changes S)"
  note cell = cacheOk_cached [OF matchesD(6) [OF assms(1)] assms(4), of ?walk]
  let ?held = "input\<lparr>in_Changes := cellResult False (ps_Changes p)\<rparr>"
  let ?s = "s\<lparr>rs_Changes := rs_Changes s, rs_Phase := (rs_Phase s)(t := Holding ?held)\<rparr>"
  have "changesOnce (sr_Changes S) (rs_Changes s) = (fst (onceCall ?walk (rs_Changes s)), rs_Changes s)"
    by (simp add: changesOnce_def prod_eq_iff cell(1))
  from fetched(3) [OF k(2) assms(3) this, of X input] have "runStep X S input s ?s" using cell(2) by simp
  moreover have "matches X S (setCode t (RunExtractor ?held # k) p) ?s"
    using matchesD(5,6) [OF assms(1)] assms(2)
    by (intro matches_cache [OF assms(1,2), where ph' = "Holding ?held" and i' = "RunExtractor ?held" and k' = k])
      (simp_all add: setCode_def k atPoint.intros body_idle)
  ultimately show ?thesis by blast
qed

text \<open>Every step of a goroutine is a step of its two-step counterpart, or none.\<close>

lemma matches_step:
  assumes "matches X S p s" "parStep X S input p p'"
  shows "\<exists>s'. (s' = s \<or> runStep X S input s s') \<and> matches X S p' s'"
  using assms(2)
proof cases
  case (wg_add m)
  with matches_main [OF assms] show ?thesis by auto
next
  case (go t m)
  with matches_main [OF assms] show ?thesis by (auto simp: setCode_def)
next
  case (wg_wait m)
  with matches_main [OF assms] show ?thesis by auto
next
  case (no_stream t k)
  with matches_no_stream [OF assms(1)] show ?thesis by blast
next
  case (tx_enter t k)
  with matches_tx_enter [OF assms(1)] show ?thesis by blast
next
  case (tx_body t b k b' cell)
  with matches_tx_body [OF assms(1)] show ?thesis by blast
next
  case (tx_leave t panicked k)
  with matches_tx_leave [OF assms(1)] show ?thesis by blast
next
  case (tx_cached t k)
  with matches_tx_cached [OF assms(1)] show ?thesis by blast
next
  case (ch_enter t k)
  with matches_ch_enter [OF assms(1)] show ?thesis by blast
next
  case (ch_body t b k b' cell)
  with matches_ch_body [OF assms(1)] show ?thesis by blast
next
  case (ch_leave t panicked k)
  with matches_ch_leave [OF assms(1)] show ?thesis by blast
next
  case (ch_cached t k)
  with matches_ch_cached [OF assms(1)] show ?thesis by blast
next
  case (extractor t held k)
  with matches_extractor [OF assms(1)] show ?thesis by blast
next
  case (lock t k)
  with matches_lock [OF assms(1)] show ?thesis by blast
next
  case (unlock t k)
  with matches_unlock [OF assms(1)] show ?thesis by blast
next
  case (store t rows k)
  with matches_store [OF assms(1)] show ?thesis by blast
next
  case (load t e k)
  with matches_load [OF assms(1)] show ?thesis by blast
next
  case (append_err t old e k)
  with matches_append [OF assms(1)] show ?thesis by blast
next
  case (wg_done t k)
  with matches_wg_done [OF assms(1)] show ?thesis by blast
qed

lemma par_simulated:
  assumes "(parStep X S input)\<^sup>*\<^sup>* parStart p"
  shows "\<exists>s. (runStep X S input)\<^sup>*\<^sup>* startState s \<and> matches X S p s"
  using assms
proof (induction rule: rtranclp_induct)
  case base
  show ?case using matches_start by blast
next
  case (step p p')
  then obtain s where s: "(runStep X S input)\<^sup>*\<^sup>* startState s" "matches X S p s" by blast
  from matches_step [OF s(2) step.hyps(2)] obtain s' where "s' = s \<or> runStep X S input s s'" "matches X S p' s'" by blast
  with s(1) show ?case by (meson rtranclp.rtrancl_into_rtrancl)
qed

section \<open>The work left\<close>

definition streamReads :: "'a stream \<Rightarrow> nat" where
  "streamReads stream = (case stream of Ok reads \<Rightarrow> length reads | _ \<Rightarrow> 0)"

definition bodyWork :: "'a stream \<Rightarrow> 'a body \<Rightarrow> nat" where
  "bodyWork stream b = (case b of Opening \<Rightarrow> streamReads stream + 3 | Reading rs \<Rightarrow> length rs + 2 | Leaving p \<Rightarrow> 1)"

lemma bodyStep_work:
  "bodyStep c r stream b cell = (b', cell') \<Longrightarrow> \<forall>p. b \<noteq> Leaving p \<Longrightarrow> bodyWork stream b' < bodyWork stream b"
  by (induction c r stream b cell rule: bodyStep.induct) (auto simp: bodyWork_def streamReads_def split: res.splits)

fun instrWork :: "sources \<Rightarrow> 'f instr \<Rightarrow> nat" where
  "instrWork S CallStream = 6" | "instrWork S (TxBody b) = 5 + bodyWork (sr_Transactions S) b"
| "instrWork S (ChBody b') = 5 + bodyWork (sr_Changes S) b'" | "instrWork S (RunExtractor held) = 5"
| "instrWork S (LoadErrs e) = 2" | "instrWork S i = 1"

definition codeWork :: "sources \<Rightarrow> 'f instr list option \<Rightarrow> nat" where
  "codeWork S c = (case c of None \<Rightarrow> 7 | Some is \<Rightarrow> sum_list (map (instrWork S) is))"

text \<open>The walk of a stream is work until a goroutine enters its cache.\<close>

definition cacheWork :: "'a stream \<Rightarrow> table option \<Rightarrow> 'a once \<Rightarrow> nat" where
  "cacheWork stream runner cell = (if runner = None \<and> \<not> oc_Done cell then streamReads stream + 3 else 0)"

definition parWork :: "sources \<Rightarrow> 'f par_state \<Rightarrow> nat" where
  "parWork S p = length (ps_Main p) + (\<Sum>t \<in> UNIV. codeWork S (ps_Code p t))
     + cacheWork (sr_Transactions S) (ps_TxRunner p) (ps_Transactions p) + cacheWork (sr_Changes S) (ps_ChRunner p) (ps_Changes p)"

lemma parWork_thread:
  assumes "ps_Code p' = (ps_Code p)(t := Some c)" "length (ps_Main p') \<le> length (ps_Main p)"
    "codeWork S (Some c) + cacheWork (sr_Transactions S) (ps_TxRunner p') (ps_Transactions p')
        + cacheWork (sr_Changes S) (ps_ChRunner p') (ps_Changes p')
      < codeWork S (ps_Code p t) + cacheWork (sr_Transactions S) (ps_TxRunner p) (ps_Transactions p)
        + cacheWork (sr_Changes S) (ps_ChRunner p) (ps_Changes p)"
  shows "parWork S p' < parWork S p"
proof -
  have "(\<Sum>t \<in> UNIV. codeWork S (ps_Code p' t)) + codeWork S (ps_Code p t)
      = (\<Sum>t \<in> UNIV. codeWork S (ps_Code p t)) + codeWork S (Some c)"
    using sum_update [of t "\<lambda>t. codeWork S (ps_Code p' t)" "\<lambda>t. codeWork S (ps_Code p t)"] by (simp add: assms(1))
  with assms(2,3) show ?thesis by (simp add: parWork_def)
qed

lemma parWork_setCode:
  assumes "p' = setCode t c q" "ps_Code q = ps_Code p" "ps_Main q = ps_Main p"
    "codeWork S (Some c) + cacheWork (sr_Transactions S) (ps_TxRunner q) (ps_Transactions q)
        + cacheWork (sr_Changes S) (ps_ChRunner q) (ps_Changes q)
      < codeWork S (ps_Code p t) + cacheWork (sr_Transactions S) (ps_TxRunner p) (ps_Transactions p)
        + cacheWork (sr_Changes S) (ps_ChRunner p) (ps_Changes p)"
  shows "parWork S p' < parWork S p"
  using assms(2-4) by (intro parWork_thread [of p' p t c]) (simp_all add: assms(1) setCode_def)

lemma cacheOk_running: "cacheOk c r S runner bodies cell st \<Longrightarrow> bodies t = Some b \<Longrightarrow> runner = Some t"
  by (auto simp: cacheOk_def)

lemma parStep_work:
  assumes "matches X S p s" "parStep X S input p p'"
  shows "parWork S p' < parWork S p"
  using assms(2)
proof cases
  case (go t m)
  have none: "ps_Code p t = None" using launchOk_main(2) [OF matchesD(1) [OF assms(1)] go(2)] by simp
  have "(\<Sum>t \<in> UNIV. codeWork S (ps_Code p' t)) + codeWork S (ps_Code p t)
      = (\<Sum>t \<in> UNIV. codeWork S (ps_Code p t)) + codeWork S (ps_Code p' t)"
    by (rule sum_update) (simp add: go(1) setCode_def)
  then show ?thesis using none go by (simp add: parWork_def setCode_def codeWork_def goroutineCode_def)
next
  case (tx_body t b k b' cell)
  have "bodyWork (sr_Transactions S) b' < bodyWork (sr_Transactions S) b"
    using bodyStep_work tx_body(3,4) by (simp add: transactionsBody_def)
  with tx_body show ?thesis using cacheOk_running [OF matchesD(5) [OF assms(1)], of t b]
    by (intro parWork_thread [of p' p t "TxBody b' # k"]) (simp_all add: setCode_def codeWork_def cacheWork_def)
next
  case (ch_body t b k b' cell)
  have "bodyWork (sr_Changes S) b' < bodyWork (sr_Changes S) b"
    using bodyStep_work ch_body(3,4) by (simp add: changesBody_def)
  with ch_body show ?thesis using cacheOk_running [OF matchesD(6) [OF assms(1)], of t b]
    by (intro parWork_thread [of p' p t "ChBody b' # k"]) (simp_all add: setCode_def codeWork_def cacheWork_def)
next
  case (extractor t held k)
  have "sum_list (map (instrWork S) (outcomeCode t r)) < 5" for r :: "'a table_rows res" by (cases r) simp_all
  with extractor show ?thesis
    by (intro parWork_thread [of p' p t "outcomeCode t (extractTable X t held) @ k"]) (simp_all add: setCode_def codeWork_def)
next
  case (wg_add m)
  then show ?thesis by (simp add: parWork_def)
next
  case (wg_wait m)
  then show ?thesis by (simp add: parWork_def)
qed ((rule parWork_setCode, assumption; simp add: codeWork_def cacheWork_def bodyWork_def))+

section \<open>No deadlock\<close>

text \<open>The goroutine inside the mutex can go on, and so can the one that runs the body of a cache.\<close>

lemma critical_steps:
  assumes "matches X S p s" "critical (ps_Code p t)"
  shows "\<exists>p'. parStep X S input p p'"
proof -
  have "ps_Mutex p = Some t" using matchesD(3) [OF assms(1)] assms(2) by simp
  with assms(2) show ?thesis by (cases "ps_Code p t" rule: critical.cases) (auto intro: parStep.intros)
qed

lemma body_steps:
  "ps_Code p t = Some (TxBody b # k) \<Longrightarrow> \<exists>p'. parStep X S input p p'"
  "ps_Code p t = Some (ChBody b' # k) \<Longrightarrow> \<exists>p'. parStep X S input p p'"
proof -
  assume c: "ps_Code p t = Some (TxBody b # k)"
  obtain b2 cell where "transactionsBody (sr_Transactions S) b (ps_Transactions p) = (b2, cell)" by fastforce
  with c show "\<exists>p'. parStep X S input p p'"
    by (cases "\<forall>q. b \<noteq> Leaving q") (auto intro: parStep.tx_body parStep.tx_leave)
next
  assume c: "ps_Code p t = Some (ChBody b' # k)"
  obtain b2 cell where "changesBody (sr_Changes S) b' (ps_Changes p) = (b2, cell)" by fastforce
  with c show "\<exists>p'. parStep X S input p p'"
    by (cases "\<forall>q. b' \<noteq> Leaving q") (auto intro: parStep.ch_body parStep.ch_leave)
qed

lemma txBodyOf_Some: "txBodyOf c = Some b \<Longrightarrow> \<exists>k. c = Some (TxBody b # k)"
  by (cases c rule: txBodyOf.cases) simp_all

lemma chBodyOf_Some: "chBodyOf c = Some b \<Longrightarrow> \<exists>k. c = Some (ChBody b # k)"
  by (cases c rule: chBodyOf.cases) simp_all

text \<open>The call of a stream blocks only while another goroutine runs the body.\<close>

lemma call_steps:
  assumes "matches X S p s" "ps_Code p t = Some (CallStream # k)"
  shows "\<exists>p'. parStep X S input p p'"
proof (cases "tableSource t")
  case FromLedger
  with assms(2) show ?thesis by (meson parStep.no_stream)
next
  case FromTransactions
  show ?thesis
  proof (cases "oc_Done (ps_Transactions p)")
    case True
    with assms(2) FromTransactions show ?thesis by (meson parStep.tx_cached)
  next
    case False
    show ?thesis
    proof (cases "ps_TxRunner p")
      case None
      with assms(2) FromTransactions False show ?thesis by (meson parStep.tx_enter)
    next
      case (Some t')
      then have "txBodyOf (ps_Code p t') \<noteq> None" using matchesD(5) [OF assms(1)] unfolding cacheOk_def by blast
      then obtain b where "txBodyOf (ps_Code p t') = Some b" by blast
      then show ?thesis using txBodyOf_Some body_steps(1) by blast
    qed
  qed
next
  case FromChanges
  show ?thesis
  proof (cases "oc_Done (ps_Changes p)")
    case True
    with assms(2) FromChanges show ?thesis by (meson parStep.ch_cached)
  next
    case False
    show ?thesis
    proof (cases "ps_ChRunner p")
      case None
      with assms(2) FromChanges False show ?thesis by (meson parStep.ch_enter)
    next
      case (Some t')
      then have "chBodyOf (ps_Code p t') \<noteq> None" using matchesD(6) [OF assms(1)] unfolding cacheOk_def by blast
      then obtain b where "chBodyOf (ps_Code p t') = Some b" by blast
      then show ?thesis using chBodyOf_Some body_steps(2) by blast
    qed
  qed
qed

text \<open>A goroutine that is not at its end can go on, or waits for one that can.\<close>

lemma alive_steps:
  assumes "matches X S p s" "ps_Code p t = Some (i # k)" "0 < ps_Wait p"
  shows "\<exists>p'. parStep X S input p p'"
proof (cases i)
  case LockMu
  show ?thesis
  proof (cases "ps_Mutex p")
    case None
    with assms(2) LockMu show ?thesis by (meson parStep.lock)
  next
    case (Some t')
    then have "critical (ps_Code p t')" using matchesD(3) [OF assms(1)] by blast
    then show ?thesis by (rule critical_steps [OF assms(1)])
  qed
next
  case CallStream
  with call_steps [OF assms(1)] assms(2) show ?thesis by blast
next
  case WgDone
  with assms(2,3) show ?thesis by (meson parStep.wg_done)
next
  case (RunExtractor held)
  with assms(2) show ?thesis by (meson parStep.extractor)
qed (use assms(2) critical_steps [OF assms(1), of t] body_steps in auto)

lemma launchCode_nonempty: "launchCode ts \<noteq> []" "[] \<noteq> launchCode ts"
  by (simp_all add: launchCode_def)

lemma par_progress:
  assumes "matches X S p s"
  shows "(\<nexists>p'. parStep X S input p p') \<longleftrightarrow> returned p"
proof
  assume stuck: "\<nexists>p'. parStep X S input p p'"
  show "returned p"
  proof (rule ccontr)
    assume "\<not> returned p"
    then obtain i m where main: "ps_Main p = i # m" unfolding returned_def by (cases "ps_Main p") auto
    with stuck have i: "i \<noteq> WgAdd" "\<forall>t. i \<noteq> Go t" "i = WgWait \<longrightarrow> 0 < ps_Wait p"
      by (auto intro: parStep.wg_add parStep.go parStep.wg_wait)
    then have wait: "0 < ps_Wait p" by (cases i) auto
    from matchesD(1) [OF assms] main i obtain ts where "ps_Wait p = (\<Sum>t \<in> UNIV. alive (ps_Code p t))"
      unfolding launchOk_def by auto
    with wait obtain t where "alive (ps_Code p t) \<noteq> 0" by (metis less_numeral_extra(3) sum.neutral)
    then obtain i k where "ps_Code p t = Some (i # k)" by (cases "ps_Code p t" rule: alive.cases) auto
    then show False using alive_steps [OF assms _ wait] stuck by blast
  qed
next
  assume "returned p"
  then have "ps_Main p = []" "\<forall>t. ps_Code p t = Some []"
    using matchesD(1) [OF assms] launchCode_nonempty unfolding returned_def launchOk_def by auto
  then show "\<nexists>p'. parStep X S input p p'" by (auto elim: parStep.cases)
qed

lemma returned_state:
  assumes "matches X S p s" "returned p"
  shows "ps_Wait p = 0" "ps_Mutex p = None" "ps_Code p t = Some []" "rs_Phase s t = Done"
proof -
  from assms have p: "ps_Wait p = 0" "\<forall>t. ps_Code p t = Some []"
    using matchesD(1) [OF assms(1)] launchCode_nonempty unfolding returned_def launchOk_def by auto
  show "ps_Wait p = 0" "ps_Code p t = Some []" using p by simp_all
  show "ps_Mutex p = None" using matchesD(3) [OF assms(1)] p(2) by (cases "ps_Mutex p") auto
  show "rs_Phase s t = Done" using matchesD(2) [OF assms(1), of t] p(2) by (auto elim: atPoint.cases)
qed

interpretation par: bounded_runs "parStep X S input" parStart "\<lambda>p. \<exists>s. matches X S p s" "parWork S" returned for X S input
proof
  show "\<exists>s. matches X S parStart s" using matches_start by blast
  show "\<exists>s. matches X S p' s" if "\<exists>s. matches X S p s" "parStep X S input p p'" for p p'
    using that matches_step by blast
  show "parWork S p' < parWork S p" if "\<exists>s. matches X S p s" "parStep X S input p p'" for p p'
    using that parStep_work by blast
  show "(\<nexists>p'. parStep X S input p p') \<longleftrightarrow> returned p" if "\<exists>s. matches X S p s" for p
    using that par_progress by blast
qed

lemma parWork_start: "parWork S parStart = 196 + streamReads (sr_Transactions S) + streamReads (sr_Changes S)"
proof -
  have "(UNIV :: table set) = set launchOrder" by auto
  then have "card (UNIV :: table set) = 21" using distinct_card [OF distinct_launchOrder] by (simp add: launchOrder_def)
  then show ?thesis
    by (simp add: parWork_def parStart_def codeWork_def cacheWork_def freshOnce_def launchCode_def launchOrder_def)
qed

text \<open>
  C5: \<open>ExtractAll\<close> returns, whatever the readers deliver and the extractors do, panics included, and however its
  goroutines are interleaved.  A run has at most 196 steps and one for every read of the two streams; the only
  states without a step are those in which \<open>ExtractAll\<close> has returned, so that no goroutine ever waits for good for
  the mutex, for a cache or for the wait group, and every run can be continued to a return; and on return the mutex
  is free and every goroutine has ended.
\<close>

theorem extract_all_returns:
  assumes "(parStep X S input ^^ n) parStart p"
  shows "n \<le> 196 + streamReads (sr_Transactions S) + streamReads (sr_Changes S)
    \<and> ((\<nexists>p'. parStep X S input p p') \<longleftrightarrow> ps_Main p = [])
    \<and> (\<exists>p'. (parStep X S input)\<^sup>*\<^sup>* p p' \<and> ps_Main p' = [])
    \<and> (ps_Main p = [] \<longrightarrow> ps_Wait p = 0 \<and> ps_Mutex p = None \<and> (\<forall>t. ps_Code p t = Some []))"
proof -
  obtain s where s: "matches X S p s" using par.run_bound [OF assms] by blast
  show ?thesis
    using par.run_ends [OF assms] returned_state [OF s] by (simp add: parWork_start returned_def)
qed

text \<open>At any time at most one goroutine is at an access to the shared results.\<close>

lemma accesses_exclude:
  assumes "(parStep X S input)\<^sup>*\<^sup>* parStart p" "critical (ps_Code p t)" "critical (ps_Code p t')"
  shows "t = t'"
proof -
  obtain s where "matches X S p s" using par.reachable_ok [OF assms(1)] by blast
  then have "ps_Mutex p = Some t" "ps_Mutex p = Some t'" using assms(2,3) by (simp_all add: matchesD(3))
  then show ?thesis by simp
qed

section \<open>What a return leaves\<close>

text \<open>
  C6: a run of the goroutines that returns leaves the data and the errors, in their order, of a complete run of the
  two-step goroutines, and of the executable \<open>extractAll\<close> on some schedule; so without a panic of a reader every table holds the rows of its extractor on the whole
  streams, and the errors are exactly those of the extractors: no access of one goroutine loses that of another.
\<close>

theorem extract_all_refines:
  assumes "(parStep X S input)\<^sup>*\<^sup>* parStart p" "ps_Main p = []"
  shows "(\<exists>s. completeRun X S input s \<and> rs_Data s = ps_Data p \<and> rs_Errs s = ps_Errs p)
    \<and> (\<exists>schedule. extractAll X S input schedule = Some (ps_Data p, ps_Errs p))
    \<and> (streamsMatch S input \<longrightarrow>
         (\<forall>t. getRows t (ps_Data p) = (case extractTable X t input of Ok r \<Rightarrow> r | _ \<Rightarrow> getRows t emptyData))
         \<and> mset (ps_Errs p) = mset (concat (map (\<lambda>t. case extractTable X t input of
              Ok r \<Rightarrow> [] | Err e \<Rightarrow> [TableError t e] | Panic \<Rightarrow> [TablePanic t]) launchOrder)))"
proof -
  obtain s where s: "(runStep X S input)\<^sup>*\<^sup>* startState s" "matches X S p s" using par_simulated [OF assms(1)] by blast
  have done_: "rs_Phase s t = Done" for t using returned_state(4) [OF s(2)] assms(2) by (simp add: returned_def)
  then have run: "completeRun X S input s" using s(1) by (simp add: completeRun_def finished_def)
  have same: "rs_Data s = ps_Data p" "rs_Errs s = ps_Errs p" using matchesD(7,8) [OF s(2)] .
  have "(ps_Data p, ps_Errs p) \<in> {r. \<exists>schedule. extractAll X S input schedule = Some r}"
    unfolding extract_all_schedules [THEN conjunct1] using run same [symmetric] by blast
  moreover have "runInv X S input s" if "streamsMatch S input" by (rule runInv_run [OF s(1) that])
  then have "streamsMatch S input \<Longrightarrow> getRows t (ps_Data p) = tableRows X input t"
    "streamsMatch S input \<Longrightarrow> mset (ps_Errs p) = mset (concat (map (tableErrors X input) launchOrder))" for t
    by (simp_all add: runInv_def done_ same doneErrors_def)
  ultimately show ?thesis using run same unfolding tableRows_def tableErrors_def by blast
qed

lemma some_return: "\<exists>p. (parStep X S input)\<^sup>*\<^sup>* parStart p \<and> ps_Main p = []"
  using par.completes [of X S parStart input] matches_start by (auto simp: returned_def)

text \<open>
  Two witnesses: a reader of transactions that panics after one of them, and a ledger of one transaction whose
  version the ledgers table does not know.
\<close>

theorem extract_all_returns_witness:
  "\<exists>p. (parStep demoEnv (streamsOf (demoCodec [Ok demoTx, Panic]) ''passphrase'' demoLcm) (demoTxs []))\<^sup>*\<^sup>* parStart p
     \<and> ps_Main p = [] \<and> ps_Mutex p = None \<and> (\<forall>t. ps_Code p t = Some [])"
proof -
  let ?step = "parStep demoEnv (streamsOf (demoCodec [Ok demoTx, Panic]) ''passphrase'' demoLcm) (demoTxs [])"
  have start: "(?step ^^ 0) parStart parStart" by simp
  from extract_all_returns [OF start] obtain p where p: "?step\<^sup>*\<^sup>* parStart p" "ps_Main p = []" by blast
  then obtain n where "(?step ^^ n) parStart p" by (meson rtranclp_imp_relpowp)
  from extract_all_returns [OF this] p show ?thesis by blast
qed

theorem extract_all_refines_witness:
  "\<exists>p. (parStep demoEnv (streamsOf (demoCodec (map Ok [demoTx])) ''passphrase'' demoLcm) (demoTxs [demoTx]))\<^sup>*\<^sup>* parStart p
     \<and> ps_Main p = [] \<and> length (dt_Transactions (ps_Data p)) = 1
     \<and> TableError TLedgers ''unknown LedgerCloseMeta version: 9'' \<in> set (ps_Errs p)"
proof -
  let ?S = "streamsOf (demoCodec (map Ok [demoTx])) ''passphrase'' demoLcm"
  have match: "streamsMatch ?S (demoTxs [demoTx])"
    unfolding demoInput(1) [symmetric] by (rule openInput_match [OF demoInput(2,3)])
  obtain p where p: "(parStep demoEnv ?S (demoTxs [demoTx]))\<^sup>*\<^sup>* parStart p" "ps_Main p = []" using some_return by blast
  note result = extract_all_refines [OF p, THEN conjunct2, THEN conjunct2, rule_format, OF match]
  have env: "xe_Sdk demoEnv = demoSdk" by (simp add: demoEnv_def)
  have "isOk (extractTransactions demoSdk (demoTxs [demoTx]))" by code_simp
  then obtain rows where rows: "extractTransactions demoSdk (demoTxs [demoTx]) = Ok rows" by (auto simp: isOk_iff)
  then have len: "length rows = 1" by (auto simp: extractTransactions_def bindR_Ok_iff)
  have "getRows TTransactions (ps_Data p) = RTransactions rows" using result rows by (simp add: env)
  then have "dt_Transactions (ps_Data p) = rows" by simp
  moreover have "extractTable demoEnv TLedgers (demoTxs [demoTx]) = Err ''unknown LedgerCloseMeta version: 9''"
    by (simp add: extractLedgers_def demoTxs_def newLedgerInput_def Let_def demoLcm_def) code_simp
  then have "TableError TLedgers ''unknown LedgerCloseMeta version: 9'' \<in>
      set (concat (map (\<lambda>t. case extractTable demoEnv t (demoTxs [demoTx]) of
         Ok r \<Rightarrow> [] | Err e \<Rightarrow> [TableError t e] | Panic \<Rightarrow> [TablePanic t]) launchOrder))"
    unfolding set_concat set_map image_image by (intro UN_I [of TLedgers]) simp_all
  then have "TableError TLedgers ''unknown LedgerCloseMeta version: 9'' \<in> set (ps_Errs p)"
    unfolding mset_eq_setD [OF conjunct2 [OF result]] .
  ultimately show ?thesis using p len by blast
qed

end
