(* ===== verification/Spec2Isabelle.thy ===== *)
theory Spec2Isabelle
  imports ScVal ContractError CallGraph Wasm Sha256 Input Market Accounts State Trades Ledgers TokenTransfers
    Archival ContractEvents Soroban Transactions Operations EffectFacts ExtractFacts Goroutines
begin

text \<open>
  A model of \<open>stellar-extract\<close>, a Go library that turns one closed ledger of the Stellar network into
  the rows of twenty-one tables.

  \<^bold>\<open>The program.\<close>  \<open>NewLedgerInput\<close> wraps a decoded \<open>LedgerCloseMeta\<close>;
  \<open>input.Transactions()\<close> and \<open>input.Changes()\<close> read the ledger once each and share the
  result.  Every extractor is a pure function of the input (\<open>ExtractTransactions\<close>,
  \<open>ExtractOperations\<close> and so on), and \<open>ExtractAll\<close> runs all of them in goroutines and
  collects rows and errors.  \<open>view_input.go\<close> is the same from raw bytes.

  \<^bold>\<open>Conventions.\<close>  A Go call is a value of \<open>'a res\<close>: \<open>Ok\<close> a result,
  \<open>Err\<close> the text of an error, or \<open>Panic\<close>.  Integers keep their width as words.  A nilable
  pointer is an \<open>option\<close>, a Go map an association list whose order stands for the iteration order
  (\<open>gomap\<close>, theory \<^theory_text>\<open>Ordering\<close>), so that a result that could depend on it would show
  it.  The code of \<open>go-stellar-sdk\<close> is not part of the repository: XDR values are datatypes with the
  protocol's arms and a last arm for an unknown discriminant, and the SDK's functions are the fields of the record
  \<open>sdk\<close>, the first argument \<open>E\<close> of what uses them.  \<open>time.Now()\<close> is an argument
  wherever a row stores it.  What a theorem needs of the SDK is a named predicate among its hypotheses, and
  \<open>demoSdk\<close> is an instance on which the examples are computed.

  \<^bold>\<open>Theories, in dependency order.\<close>
  \<^item> \<^theory_text>\<open>Prelude\<close>: outcomes, the generic lemmas on lists, words and numbered rows.
    \<^theory_text>\<open>GoStd\<close>: \<open>fmt\<close>, \<open>hex\<close>, \<open>base64\<close>, UTF-8, with round trips.
    \<^theory_text>\<open>GoJson\<close>: \<open>interface{}\<close> values, \<open>json.Marshal\<close>, independence of map order.
    \<^theory_text>\<open>Sha256\<close>: the hash of the key columns.
  \<^item> \<^theory_text>\<open>Ordering\<close> (\<open>ordering.go\<close>): sorted reading of maps, and three interfaces as
    locales.  \<open>dedup_table\<close> is the map from key to row; \<open>snapshot\<close> is an extractor that keeps the last
    change of each key and lists the rows in key order; \<open>keyed_writes\<close> is one that writes several keyed rows
    per element.  The snapshot extractors interpret them.
  \<^item> \<^theory_text>\<open>Xdr\<close>, \<^theory_text>\<open>XdrTx\<close>, \<^theory_text>\<open>Sdk\<close>, \<^theory_text>\<open>Input\<close>: ledger
    entries, transactions, the SDK and \<open>LedgerInput\<close>.
  \<^item> \<^theory_text>\<open>ScVal\<close> (\<open>scval_converter.go\<close>), \<^theory_text>\<open>ContractError\<close>
    (\<open>contract_error.go\<close>), \<^theory_text>\<open>CallGraph\<close> (\<open>call_graph.go\<close>: the event walk as a reachable
    state machine, the authorization walk; both interpret the locale \<open>call_source\<close>), \<^theory_text>\<open>Wasm\<close>
    (LEB128 and the section walk of \<open>soroban.go\<close>).
  \<^item> \<^theory_text>\<open>Market\<close>, \<^theory_text>\<open>Accounts\<close>, \<^theory_text>\<open>State\<close>, \<^theory_text>\<open>Archival\<close>,
    \<^theory_text>\<open>Soroban\<close>: the snapshot tables of \<open>market.go\<close>, \<open>accounts.go\<close>,
    \<open>state.go\<close>, \<open>evicted_keys.go\<close> and \<open>soroban.go\<close>, and the contract creations.
  \<^item> \<^theory_text>\<open>Ledgers\<close>, \<^theory_text>\<open>Trades\<close>, \<^theory_text>\<open>TokenTransfers\<close>,
    \<^theory_text>\<open>ContractEvents\<close>, \<^theory_text>\<open>Transactions\<close>, \<^theory_text>\<open>Operations\<close>: the tables of the file
    of the same name, contract events being in \<open>soroban.go\<close>.
  \<^item> \<^theory_text>\<open>Effects\<close> and \<^theory_text>\<open>EffectFacts\<close> (\<open>effects.go\<close>): the generators of effect
    records, and what holds of them.
  \<^item> \<^theory_text>\<open>Extract\<close> and \<^theory_text>\<open>ExtractFacts\<close> (\<open>extract.go\<close>,
    \<open>view_input.go\<close>): the cached streams (locale \<open>cached_stream\<close>), goroutines of two steps each, the call of a cache and the
    end of the extractor, as a step relation, the executable \<open>extractAll\<close> over a schedule, and the entry points.
  \<^item> \<^theory_text>\<open>Goroutines\<close> (\<open>extract.go\<close>): the same run statement by statement, with the launch, the
    wait group, the mutex, the bodies of the caches read by read, and what blocks on what; the locale
    \<open>bounded_runs\<close> states what termination needs, and both step relations interpret it.
  \<^item> This theory: how the tables of one ledger refer to each other.

  \<^bold>\<open>What the theorems show.\<close>
  \<^item> Runs of \<open>ExtractAll\<close>: no deadlock, and a bound on the steps before the return; the statement-level run leaves a
    result of the two-step one and of the executable version; the result does not depend on the interleaving unless a
    reader of the SDK panics, and what it is then.
  \<^item> Across tables: operation, event and effect rows refer to rows that exist, under the same ids.
  \<^item> Every table: which rows there are, in which order, and how each depends on its place in the ledger; which
    columns identify a row; independence of the iteration order of maps.
  \<^item> Abstract specifications: the signer effects replay one signer set into the other; the LEB128 reader inverts the
    encoder; the view reader agrees with the parsed reader; a module's metadata is the fold of its sections.
  \<^item> Error behaviour: when a conversion panics, what a panic or an unreadable part does to the rest of the result,
    and the places where the code does not do what its comments say.

  \<^bold>\<open>Bounds.\<close>  Loops are structural recursion over the list they read; \<open>parseSections\<close>,
  \<open>jsonEscape\<close> and \<open>utf8Valid\<close> recurse over the bytes left, and the recursion of the authorization walk is
  over the tree, cut at the code's depth of ten.  No definition needs fuel.

  \<^bold>\<open>Not modelled.\<close>  Logging; the value of a recovered panic; the skip counter of the call graph as a
  process-wide metric (\<open>ExtractAll\<close> drops it, \<open>extractOperations\<close> threads it); the package
  variable \<open>Version\<close> (an argument); the cross-check of token transfers, which only logs; \<open>stubs.go\<close>, which has no code.
\<close>

section \<open>The tables of a ledger fit together\<close>

text \<open>
  The reader of the SDK delivers the transactions \<open>txs\<close> and then the end, the change reader some changes, and the
  ledger is extracted from its XDR on some schedule.
\<close>

definition ledgerExtracted ::
    "'f extract_env \<Rightarrow> xdr_codec \<Rightarrow> byte list \<Rightarrow> string \<Rightarrow> ledger_close_meta \<Rightarrow> ledger_tx list \<Rightarrow> 'f ledger_data \<Rightarrow>
     extract_error list \<Rightarrow> bool" where
  "ledgerExtracted X C xdrBytes passphrase meta txs d errs \<longleftrightarrow> xc_Unmarshal C xdrBytes = Ok meta
     \<and> xc_Transactions C passphrase meta = Ok (map Ok txs) \<and> (\<exists>chs. xc_Changes C passphrase meta = Ok (map Ok chs))
     \<and> (\<exists>schedule. extractAllFromXDR X C schedule xdrBytes passphrase = Some (d, errs))"

definition tableFine :: "extract_error list \<Rightarrow> table \<Rightarrow> bool" where
  "tableFine errs t \<longleftrightarrow> (\<forall>e \<in> set errs. errorTable e \<noteq> Some t)"

lemma readLoop_Ok: "readLoop msg rows (map Ok xs) = (rows @ xs, None, False)"
  by (induction xs arbitrary: rows) simp_all

lemma ledgerExtracted_tables:
  assumes "ledgerExtracted X C xdrBytes passphrase meta txs d errs"
  shows "in_Transactions (openInput C meta passphrase) = Ok txs"
    "getRows t d = tableRows X (openInput C meta passphrase) t"
    "tableFine errs t \<longleftrightarrow> extractTable X t (openInput C meta passphrase) = Ok (getRows t d)"
proof -
  from assms obtain chs schedule where a: "xc_Unmarshal C xdrBytes = Ok meta"
    "xc_Transactions C passphrase meta = Ok (map Ok txs)" "xc_Changes C passphrase meta = Ok (map Ok chs)"
    "extractAllFromXDR X C schedule xdrBytes passphrase = Some (d, errs)" by (auto simp: ledgerExtracted_def)
  have quiet: "fst (transactionsOnce (xc_Transactions C passphrase meta) freshOnce) = Ok (txs, None)"
    "fst (changesOnce (xc_Changes C passphrase meta) freshOnce) = Ok (chs, None)"
    by (simp_all add: a transactionsOnce_def changesOnce_def onceCall_def freshOnce_def walkStream_def readLoop_Ok)
  then have np: "fst (transactionsOnce (xc_Transactions C passphrase meta) freshOnce) \<noteq> Panic"
    "fst (changesOnce (xc_Changes C passphrase meta) freshOnce) \<noteq> Panic" by simp_all
  show "in_Transactions (openInput C meta passphrase) = Ok txs"
    by (simp add: openInput_def newLedgerInput_def Let_def quiet callerSees_def)
  show "getRows t d = tableRows X (openInput C meta passphrase) t"
    by (rule extractAllFromXDR_tables(1) [OF a(1) np a(4)])
  show "tableFine errs t \<longleftrightarrow> extractTable X t (openInput C meta passphrase) = Ok (getRows t d)"
    unfolding tableFine_def by (rule extractAllFromXDR_tables(2) [OF a(1) np a(4)])
qed

lemma filter_concat_block:
  assumes "t < length rss" "\<And>j r. j < length rss \<Longrightarrow> r \<in> set (rss ! j) \<Longrightarrow> P r \<longleftrightarrow> j = t"
  shows "filter P (concat rss) = rss ! t"
  using assms
proof (induction rss arbitrary: t)
  case (Cons rs rss)
  show ?case
  proof (cases t)
    case 0
    have "filter P rs = rs" using Cons.prems(2) [of 0] 0 by (auto intro!: filter_True)
    moreover have "filter P (concat rss) = []"
      using Cons.prems(2) [of "Suc _"] 0 by (fastforce simp: filter_empty_conv in_set_conv_nth)
    ultimately show ?thesis using 0 by simp
  next
    case (Suc u)
    have "filter P rs = []" using Cons.prems(2) [of 0] Suc by (auto simp: filter_empty_conv)
    moreover have "filter P (concat rss) = rss ! u"
      using Cons.prems(1) Cons.prems(2) [of "Suc _"] Suc by (intro Cons.IH) auto
    ultimately show ?thesis using Suc by simp
  qed
qed simp

text \<open>The transaction and operation tables by position.\<close>

lemma transaction_table:
  assumes "ledgerExtracted X C xdrBytes passphrase meta txs d errs" "tableFine errs TTransactions"
  shows "length (dt_Transactions d) = length txs
    \<and> (\<forall>i < length txs. rowOfTx (xe_Sdk X) (openInput C meta passphrase) i (txs ! i) (dt_Transactions d ! i))"
proof -
  let ?input = "openInput C meta passphrase"
  from ledgerExtracted_tables(3) [OF assms(1)] assms(2) have rows: "extractTransactions (xe_Sdk X) ?input = Ok (dt_Transactions d)"
    by (auto simp: mapR_Ok_iff)
  with ledgerExtracted_tables(1) [OF assms(1)]
  have m: "map (transactionRow (xe_Sdk X) ?input) (enumerate 0 txs) = map Ok (dt_Transactions d)"
    by (simp add: extractTransactions_def seqR_Ok_iff)
  have len: "length (dt_Transactions d) = length txs" using map_eq_imp_length_eq [OF m] by simp
  have "transactionRow (xe_Sdk X) ?input (i, txs ! i) = Ok (dt_Transactions d ! i)" if "i < length txs" for i
    using arg_cong [OF m, of "\<lambda>xs. xs ! i"] that len by (simp add: nth_enumerate_eq)
  with len transactionRow_rowOfTx show ?thesis by blast
qed

lemma operation_table:
  assumes "ledgerExtracted X C xdrBytes passphrase meta txs d errs" "tableFine errs TOperations"
  shows "\<exists>rss. dt_Operations d = concat rss \<and> length rss = length txs
    \<and> (\<forall>t < length txs. opRowsOf (xe_Sdk X) (openInput C meta passphrase) t (txs ! t) (rss ! t))"
proof -
  from ledgerExtracted_tables(3) [OF assms(1)] assms(2) obtain k
    where "extractOperations (xe_Sdk X) (openInput C meta passphrase) 0 = Ok (dt_Operations d, k)"
    by (auto simp: mapR_Ok_iff)
  with ledgerExtracted_tables(1) [OF assms(1)] have "transactionLoop (xe_Sdk X) (openInput C meta passphrase) 0 txs 0 = Ok (dt_Operations d, k)"
    by (simp add: extractOperations_def)
  from transactionLoop_rows [OF this] show ?thesis by simp
qed

text \<open>The block of a transaction in the operation table, row by row.\<close>

lemma operation_block:
  assumes "ledgerExtracted X C xdrBytes passphrase meta txs d errs" "tableFine errs TOperations"
  obtains rss where "dt_Operations d = concat rss" "length rss = length txs"
    "\<And>t. t < length txs \<Longrightarrow> length (rss ! t) = length (tx_Operations (txs ! t))"
    "\<And>t i. t < length txs \<Longrightarrow> i < length (rss ! t) \<Longrightarrow>
       rowOfOp (xe_Sdk X) (openInput C meta passphrase) t (txs ! t) i (rss ! t ! i)"
  using operation_table [OF assms] that unfolding opRowsOf_def by blast

lemma operation_row_refers:
  assumes "ledgerExtracted X C xdrBytes passphrase meta txs d errs" "tableFine errs TTransactions" "tableFine errs TOperations"
    and "r \<in> set (dt_Operations d)"
  shows "\<exists>t \<in> set (dt_Transactions d). td_TransactionHash t = od_TransactionHash r
      \<and> td_TransactionID t = od_TransactionID r \<and> td_Successful t = od_TransactionSuccessful r
      \<and> od_OperationIndex r < td_OperationCount t"
proof -
  from operation_block [OF assms(1,3)] obtain rss where ops: "dt_Operations d = concat rss" "length rss = length txs"
    "\<And>t. t < length txs \<Longrightarrow> length (rss ! t) = length (tx_Operations (txs ! t))"
    "\<And>t i. t < length txs \<Longrightarrow> i < length (rss ! t) \<Longrightarrow>
       rowOfOp (xe_Sdk X) (openInput C meta passphrase) t (txs ! t) i (rss ! t ! i)" by blast
  from assms(4) obtain t i where t: "t < length txs" "i < length (rss ! t)" "r = rss ! t ! i"
    unfolding ops(1) using ops(2) by (auto simp: in_set_conv_nth)
  with ops(3,4) transaction_table [OF assms(1,2)] have "rowOfOp (xe_Sdk X) (openInput C meta passphrase) t (txs ! t) i r"
    "rowOfTx (xe_Sdk X) (openInput C meta passphrase) t (txs ! t) (dt_Transactions d ! t)"
    "i < length (tx_Operations (txs ! t))" "dt_Transactions d ! t \<in> set (dt_Transactions d)" by auto
  then show ?thesis by (intro bexI [of _ "dt_Transactions d ! t"]) (auto simp: rowOfOp_def rowOfTx_def)
qed

lemma event_row_refers:
  assumes "ledgerExtracted X C xdrBytes passphrase meta txs d errs" "tableFine errs TTransactions"
    and "e \<in> set (dt_ContractEvents d)"
  shows "\<exists>t \<in> set (dt_Transactions d). td_TransactionHash t = ev_TransactionHash e \<and> td_TransactionID t = ev_TransactionID e"
proof -
  let ?E = "xe_Sdk X" and ?input = "openInput C meta passphrase"
  have "RContractEvents (dt_ContractEvents d) = tableRows X ?input TContractEvents"
    using ledgerExtracted_tables(2) [OF assms(1), of TContractEvents] by simp
  with assms(3) have "extractContractEvents ?E (xe_EventClock X) ?input = Ok (dt_ContractEvents d)"
    by (auto simp: tableRows_def emptyData_def mapR_Ok_iff split: res.splits)
  with ledgerExtracted_tables(1) [OF assms(1)]
  have m: "concatR (txEventRows ?E (xe_EventClock X) ?input) (enumerate 0 txs) = Ok (dt_ContractEvents d)"
    by (simp add: extractContractEvents_def)
  from assms(3) obtain i rs where i: "i < length txs" "txEventRows ?E (xe_EventClock X) ?input (i, txs ! i) = Ok rs" "e \<in> set rs"
    unfolding concatR_mem [OF m] bex_enumerate by blast
  with transaction_table [OF assms(1,2)] txEventRows_rows [OF i(2)]
  have "rowOfTx ?E ?input i (txs ! i) (dt_Transactions d ! i)" "eventRowsOf ?E ?input i (txs ! i) rs"
    "dt_Transactions d ! i \<in> set (dt_Transactions d)" by auto
  with i(3) show ?thesis
    by (intro bexI [of _ "dt_Transactions d ! i"]) (auto simp: rowOfTx_def eventRowsOf_def split: res.splits)
qed

lemma operation_rows_counted:
  assumes "ledgerExtracted X C xdrBytes passphrase meta txs d errs" "tableFine errs TTransactions" "tableFine errs TOperations"
    and "distinct (map tx_Hash txs)" "t \<in> set (dt_Transactions d)"
  shows "length (filter (\<lambda>r. od_TransactionHash r = td_TransactionHash t) (dt_Operations d)) = td_OperationCount t"
proof -
  let ?E = "xe_Sdk X" and ?input = "openInput C meta passphrase"
  from operation_block [OF assms(1,3)] obtain rss where ops: "dt_Operations d = concat rss" "length rss = length txs"
    "\<And>t. t < length txs \<Longrightarrow> length (rss ! t) = length (tx_Operations (txs ! t))"
    "\<And>t i. t < length txs \<Longrightarrow> i < length (rss ! t) \<Longrightarrow> rowOfOp ?E ?input t (txs ! t) i (rss ! t ! i)" by blast
  from assms(5) transaction_table [OF assms(1,2)] obtain i where i: "i < length txs" "rowOfTx ?E ?input i (txs ! i) t"
    by (metis in_set_conv_nth)
  have "filter (\<lambda>r. od_TransactionHash r = td_TransactionHash t) (concat rss) = rss ! i"
  proof (rule filter_concat_block)
    show "i < length rss" using i(1) ops(2) by simp
    fix j r assume "j < length rss" "r \<in> set (rss ! j)"
    then obtain k where "j < length txs" "k < length (rss ! j)" "r = rss ! j ! k" using ops(2) by (auto simp: in_set_conv_nth)
    with ops(4) have "od_TransactionHash r = hexEncode (tx_Hash (txs ! j))" "j < length txs" by (auto simp: rowOfOp_def)
    with i assms(4) show "od_TransactionHash r = td_TransactionHash t \<longleftrightarrow> j = i"
      by (auto simp: rowOfTx_def distinct_conv_nth)
  qed
  with ops i show ?thesis by (simp add: rowOfTx_def)
qed

text \<open>
  C2: in the result of a whole ledger every operation row and every contract event row has a transaction row with its
  hash, under the same transaction id, and an operation row agrees with it on success and lies within its operation
  count; where hashes differ, a transaction has as many operation rows as its row counts.
\<close>

theorem rows_belong_to_transactions:
  assumes "ledgerExtracted X C xdrBytes passphrase meta txs d errs" "tableFine errs TTransactions" "tableFine errs TOperations"
  shows "(\<forall>r \<in> set (dt_Operations d). \<exists>t \<in> set (dt_Transactions d). td_TransactionHash t = od_TransactionHash r
      \<and> td_TransactionID t = od_TransactionID r \<and> td_Successful t = od_TransactionSuccessful r
      \<and> od_OperationIndex r < td_OperationCount t)
    \<and> (\<forall>e \<in> set (dt_ContractEvents d). \<exists>t \<in> set (dt_Transactions d). td_TransactionHash t = ev_TransactionHash e
      \<and> td_TransactionID t = ev_TransactionID e)
    \<and> (distinct (map tx_Hash txs) \<longrightarrow> (\<forall>t \<in> set (dt_Transactions d).
         length (filter (\<lambda>r. od_TransactionHash r = td_TransactionHash t) (dt_Operations d)) = td_OperationCount t))"
  using operation_row_refers [OF assms] event_row_refers [OF assms(1,2)] operation_rows_counted [OF assms] by blast

text \<open>
  C3: when the SDK's reader numbers the transactions from one, every effect row has an operation row with its hash and
  operation index, of a successful transaction, under the same operation id.
\<close>

theorem effects_belong_to_operations:
  assumes "ledgerExtracted X C xdrBytes passphrase meta txs d errs" "tableFine errs TOperations"
    "\<forall>i < length txs. tx_Index (txs ! i) = of_nat i + 1"
  shows "\<forall>e \<in> set (dt_Effects d). \<exists>r \<in> set (dt_Operations d). od_TransactionHash r = ed_TransactionHash e
    \<and> od_OperationIndex r = ed_OperationIndex e \<and> ed_OperationID e = Some (od_OperationID r) \<and> od_TransactionSuccessful r"
proof
  let ?E = "xe_Sdk X" and ?input = "openInput C meta passphrase"
  from operation_table [OF assms(1,2)] obtain rss where ops: "dt_Operations d = concat rss" "length rss = length txs"
    "\<And>t. t < length txs \<Longrightarrow> opRowsOf ?E ?input t (txs ! t) (rss ! t)" by blast
  fix e assume e: "e \<in> set (dt_Effects d)"
  have "REffects (dt_Effects d) = tableRows X ?input TEffects"
    using ledgerExtracted_tables(2) [OF assms(1), of TEffects] by simp
  with e have "extractEffects ?E ?input = Ok (dt_Effects d)"
    by (auto simp: tableRows_def emptyData_def mapR_Ok_iff split: res.splits)
  with e extractEffects_mem ledgerExtracted_tables(1) [OF assms(1)] obtain tx i j
    where "tx \<in> set txs" "effectAt ?E ?input tx i j e" by blast
  then obtain t where t: "t < length txs" "effectAt ?E ?input (txs ! t) i j e" by (auto simp: in_set_conv_nth)
  then have i: "i < length (tx_Operations (txs ! t))" by (simp add: effectAt_def)
  with ops(3) [OF t(1)] have len: "i < length (rss ! t)" and row: "rowOfOp ?E ?input t (txs ! t) i (rss ! t ! i)"
    by (auto simp: opRowsOf_def)
  have mem: "rss ! t ! i \<in> set (dt_Operations d)" unfolding ops(1) set_concat using len t(1) ops(2) by (metis UN_I nth_mem)
  from t(2) assms(3) t(1) have "ed_TransactionHash e = hexEncode (tx_Hash (txs ! t)) \<and> ed_OperationIndex e = i
      \<and> tx_Successful (txs ! t) \<and> (\<exists>k. toidInt64 ?E (in_Sequence ?input) (of_nat t + 1) (of_nat i + 1) = Ok k \<and> ed_OperationID e = Some k)"
    by (auto simp: effectAt_def effectRow_fields add.commute)
  with row show "\<exists>r \<in> set (dt_Operations d). od_TransactionHash r = ed_TransactionHash e
    \<and> od_OperationIndex r = ed_OperationIndex e \<and> ed_OperationID e = Some (od_OperationID r) \<and> od_TransactionSuccessful r"
    by (intro bexI [OF _ mem]) (auto simp: rowOfOp_def)
qed

section \<open>Examples\<close>

lemma demo_extracted: "\<exists>d errs. ledgerExtracted demoEnv (demoCodec (map Ok txs)) [1] ''passphrase'' demoLcm txs d errs"
proof -
  have "finished (fold (advance demoEnv S input) sequentialSchedule (startState :: nat run_state))" for S input
    unfolding schedule_finished by (intro allI, rename_tac t, case_tac t) (simp_all add: sequentialSchedule_def launchOrder_def)
  then have "\<exists>d errs. extractAllFromXDR demoEnv (demoCodec (map Ok txs)) sequentialSchedule [1] ''passphrase'' = Some (d, errs)"
    by (simp add: extractAllFromXDR_def newLedgerInputFromXDR_def extractInput_def extractAll_def Let_def demoCodec_def)
  moreover have "xc_Unmarshal (demoCodec (map Ok txs)) [1] = Ok demoLcm"
    "xc_Transactions (demoCodec (map Ok txs)) ''passphrase'' demoLcm = Ok (map Ok txs)"
    "xc_Changes (demoCodec (map Ok txs)) ''passphrase'' demoLcm = Ok (map Ok [])" by (simp_all add: demoCodec_def)
  ultimately show ?thesis unfolding ledgerExtracted_def by blast
qed

lemma demo_fine:
  assumes "ledgerExtracted demoEnv (demoCodec (map Ok txs)) [1] ''passphrase'' demoLcm txs d errs"
    "extractTable demoEnv t (demoTxs txs) = Ok r"
  shows "tableFine errs t" "getRows t d = r"
proof -
  show row: "getRows t d = r" using ledgerExtracted_tables(2) [OF assms(1)] assms(2) by (simp add: demoInput tableRows_def)
  show "tableFine errs t" using ledgerExtracted_tables(3) [OF assms(1)] assms(2) row by (simp add: demoInput)
qed

lemma demo_tables:
  "\<exists>rows. extractTransactions demoSdk (demoTxs [demoEffectTx]) = Ok rows"
  "\<exists>rows k. extractOperations demoSdk (demoTxs [demoEffectTx]) 0 = Ok (rows, k) \<and> length rows = 2"
  "\<exists>rows. extractEffects demoSdk (demoTxs [demoEffectTx]) = Ok rows \<and> rows \<noteq> []"
proof -
  have "mapR (\<lambda>rows. rows \<noteq> []) (extractEffects demoSdk (demoTxs [demoEffectTx])) = Ok True" by code_simp
  then show "\<exists>rows. extractEffects demoSdk (demoTxs [demoEffectTx]) = Ok rows \<and> rows \<noteq> []"
    by (auto simp: mapR_Ok_iff)
  have "isOk (extractTransactions demoSdk (demoTxs [demoEffectTx]))" by code_simp
  then show "\<exists>rows. extractTransactions demoSdk (demoTxs [demoEffectTx]) = Ok rows" by (auto simp: isOk_iff)
  have "mapR (\<lambda>(rows, k). length rows) (extractOperations demoSdk (demoTxs [demoEffectTx]) 0) = Ok 2" by code_simp
  then show "\<exists>rows k. extractOperations demoSdk (demoTxs [demoEffectTx]) 0 = Ok (rows, k) \<and> length rows = 2"
    by (auto simp: mapR_Ok_iff)
qed

theorem rows_belong_to_transactions_witness:
  "\<exists>d errs. ledgerExtracted demoEnv (demoCodec (map Ok [demoEffectTx])) [1] ''passphrase'' demoLcm [demoEffectTx] d errs
    \<and> length (dt_Operations d) = 2 \<and> (\<exists>t \<in> set (dt_Transactions d).
      length (filter (\<lambda>r. od_TransactionHash r = td_TransactionHash t) (dt_Operations d)) = td_OperationCount t)"
proof -
  obtain d errs where d: "ledgerExtracted demoEnv (demoCodec (map Ok [demoEffectTx])) [1] ''passphrase'' demoLcm [demoEffectTx] d errs"
    using demo_extracted by blast
  have env: "xe_Sdk demoEnv = demoSdk" by (simp add: demoEnv_def)
  from demo_tables obtain ts os k where t: "extractTransactions demoSdk (demoTxs [demoEffectTx]) = Ok ts"
    "extractOperations demoSdk (demoTxs [demoEffectTx]) 0 = Ok (os, k)" and len: "length os = 2" by blast
  then have tables: "extractTable demoEnv TTransactions (demoTxs [demoEffectTx]) = Ok (RTransactions ts)"
    "extractTable demoEnv TOperations (demoTxs [demoEffectTx]) = Ok (ROperations os)" by (simp_all add: env)
  note fine = demo_fine [OF d tables(1)] demo_fine [OF d tables(2)]
  note res = rows_belong_to_transactions [OF d fine(1,3)]
  from fine(4) len have len: "length (dt_Operations d) = 2" by simp
  then obtain r where "r \<in> set (dt_Operations d)" by (cases "dt_Operations d") auto
  with res obtain t where "t \<in> set (dt_Transactions d)" by blast
  moreover have "distinct (map tx_Hash [demoEffectTx])" by simp
  ultimately show ?thesis using d len res by blast
qed

theorem effects_belong_to_operations_witness:
  "\<exists>d errs. ledgerExtracted demoEnv (demoCodec (map Ok [demoEffectTx])) [1] ''passphrase'' demoLcm [demoEffectTx] d errs
    \<and> dt_Effects d \<noteq> [] \<and> (\<forall>e \<in> set (dt_Effects d). \<exists>r \<in> set (dt_Operations d). ed_OperationID e = Some (od_OperationID r))"
proof -
  obtain d errs where d: "ledgerExtracted demoEnv (demoCodec (map Ok [demoEffectTx])) [1] ''passphrase'' demoLcm [demoEffectTx] d errs"
    using demo_extracted by blast
  have env: "xe_Sdk demoEnv = demoSdk" by (simp add: demoEnv_def)
  from demo_tables(2) demo_tables(3) obtain os k es where t: "extractOperations demoSdk (demoTxs [demoEffectTx]) 0 = Ok (os, k)"
    "extractEffects demoSdk (demoTxs [demoEffectTx]) = Ok es" "es \<noteq> []" by blast
  then have tables: "extractTable demoEnv TOperations (demoTxs [demoEffectTx]) = Ok (ROperations os)"
    "extractTable demoEnv TEffects (demoTxs [demoEffectTx]) = Ok (REffects es)" by (simp_all add: env)
  have "\<forall>i < length [demoEffectTx]. tx_Index ([demoEffectTx] ! i) = of_nat i + 1" by (simp add: demoEffectTx_def demoTx_def)
  from effects_belong_to_operations [OF d demo_fine(1) [OF d tables(1)] this] demo_fine(2) [OF d tables(2)] t(3) d
  show ?thesis by (intro exI [of _ d] exI [of _ errs]) auto
qed

end
